(* ===== verification/Boros_Prelude.thy ===== *)
theory Boros_Prelude
  imports Complex_Main "HOL-Library.Word" "HOL-Library.Multiset"
begin

text \<open>
  Shared vocabulary of the development: the machine integers and byte strings of the Rust
  sources, Rust's two kinds of failure (an \<open>Err\<close> value and a panic), the arithmetic whose
  overflow behaviour depends on the build profile, a small state-and-exception monad in which
  the handlers that touch the database are written, and the reasoning rules and generic list
  facts that the component theories share.
\<close>

section \<open>Machine types\<close>

type_synonym u8 = "8 word"
type_synonym u16 = "16 word"
type_synonym u32 = "32 word"
type_synonym u64 = "64 word"
type_synonym usize = "64 word"
type_synonym i64 = "64 word"
type_synonym bytes = "u8 list"
type_synonym time = int

text \<open>
  An \<open>i64\<close> is the same 64 bits as a \<open>u64\<close>, read with \<open>sint\<close>; the \<open>as i64\<close> casts of the
  sources are the identity on the bits.  A \<open>time\<close> is a \<open>DateTime<Utc>\<close>, counted from an epoch.
\<close>

section \<open>Failures\<close>

text \<open>
  A Rust function can return \<open>Err(e)\<close> or panic.  Both are values of the left summand of an
  \<open>outcome\<close>, so that every raise, every \<open>unwrap\<close> and every early return is a branch.
\<close>

datatype 'e fault = Panic | Err 'e

type_synonym ('e, 'a) outcome = "'e fault + 'a"

fun option_unwrap :: "'a option \<Rightarrow> ('e, 'a) outcome" where
  "option_unwrap None = Inl Panic"
| "option_unwrap (Some x) = Inr x"

definition ok_or :: "'e \<Rightarrow> 'a option \<Rightarrow> ('e, 'a) outcome" where
  "ok_or e x = (case x of None \<Rightarrow> Inl (Err e) | Some y \<Rightarrow> Inr y)"

definition res_bind :: "'e + 'a \<Rightarrow> ('a \<Rightarrow> 'e + 'b) \<Rightarrow> 'e + 'b" where
  "res_bind r f = (case r of Inl e \<Rightarrow> Inl e | Inr x \<Rightarrow> f x)"

text \<open>Collecting an iterator of results: the first error wins.\<close>

fun sequence :: "('e + 'a) list \<Rightarrow> 'e + 'a list" where
  "sequence [] = Inr []"
| "sequence (r # rs) = res_bind r (\<lambda>x. res_bind (sequence rs) (\<lambda>xs. Inr (x # xs)))"

section \<open>Arithmetic of the two build profiles\<close>

text \<open>
  In a build with overflow checks (the default of debug builds) an unsigned operation that
  leaves its range panics; without them (the default of release builds, and the repository
  sets no other profile) it wraps.  The flag \<open>oc\<close> says which build is meant.
\<close>

definition add_oc :: "bool \<Rightarrow> 'l::len word \<Rightarrow> 'l word \<Rightarrow> ('e, 'l word) outcome" where
  "add_oc oc a b = (if oc \<and> 2 ^ LENGTH('l) \<le> unat a + unat b then Inl Panic else Inr (a + b))"

definition sub_oc :: "bool \<Rightarrow> 'l::len word \<Rightarrow> 'l word \<Rightarrow> ('e, 'l word) outcome" where
  "sub_oc oc a b = (if oc \<and> a < b then Inl Panic else Inr (a - b))"

section \<open>State with exceptions\<close>

type_synonym ('s, 'e, 'a) sx = "'s \<Rightarrow> ('e + 'a) \<times> 's"

definition sx_return :: "'a \<Rightarrow> ('s, 'e, 'a) sx" where
  "sx_return x = (\<lambda>s. (Inr x, s))"

definition sx_throw :: "'e \<Rightarrow> ('s, 'e, 'a) sx" where
  "sx_throw e = (\<lambda>s. (Inl e, s))"

definition sx_bind :: "('s, 'e, 'a) sx \<Rightarrow> ('a \<Rightarrow> ('s, 'e, 'b) sx) \<Rightarrow> ('s, 'e, 'b) sx" where
  "sx_bind m f = (\<lambda>s. case m s of (Inl e, s') \<Rightarrow> (Inl e, s') | (Inr x, s') \<Rightarrow> f x s')"

definition sx_modify :: "('s \<Rightarrow> 's) \<Rightarrow> ('s, 'e, unit) sx" where
  "sx_modify f = (\<lambda>s. (Inr (), f s))"

definition sx_get :: "('s \<Rightarrow> 'a) \<Rightarrow> ('s, 'e, 'a) sx" where
  "sx_get f = (\<lambda>s. (Inr (f s), s))"

definition sx_lift :: "'e + 'a \<Rightarrow> ('s, 'e, 'a) sx" where
  "sx_lift r = (\<lambda>s. (r, s))"

definition sx_map_err :: "('e \<Rightarrow> 'f) \<Rightarrow> ('s, 'e, 'a) sx \<Rightarrow> ('s, 'f, 'a) sx" where
  "sx_map_err g m = (\<lambda>s. case m s of (Inl e, s') \<Rightarrow> (Inl (g e), s') | (Inr x, s') \<Rightarrow> (Inr x, s'))"

text \<open>The statement sequence \<open>for x in xs \<lbrace> f(x)?; \<rbrace>\<close>.\<close>

fun sx_iter :: "('a \<Rightarrow> ('s, 'e, unit) sx) \<Rightarrow> 'a list \<Rightarrow> ('s, 'e, unit) sx" where
  "sx_iter f [] = sx_return ()"
| "sx_iter f (x # xs) = sx_bind (f x) (\<lambda>_. sx_iter f xs)"

section \<open>Collections of facts\<close>

named_theorems sx_defs \<open>definitions of the state-and-exception combinators\<close>
named_theorems triple_intro \<open>introduction rules for triples\<close>

lemmas [sx_defs] =
  sx_return_def sx_throw_def sx_bind_def sx_modify_def sx_get_def sx_lift_def sx_map_err_def

section \<open>Generic facts\<close>

lemma res_bind_simps [simp]:
  "res_bind (Inl e) f = Inl e"
  "res_bind (Inr x) f = f x"
  by (simp_all add: res_bind_def)

lemma ok_or_simps [simp]:
  "ok_or e None = Inl (Err e)"
  "ok_or e (Some x) = Inr x"
  by (simp_all add: ok_or_def)

lemma res_bind_eq_Inr [simp]: "res_bind r f = Inr y \<longleftrightarrow> (\<exists>x. r = Inr x \<and> f x = Inr y)"
  by (cases r) simp_all

lemma sequence_map_Inr [simp]: "sequence (map (\<lambda>x. Inr (f x)) xs) = Inr (map f xs)"
  by (induction xs) simp_all

lemma sequence_Inr_iff: "sequence rs = Inr ys \<longleftrightarrow> rs = map Inr ys"
  by (induction rs arbitrary: ys) auto

lemma sequence_cong_Inr:
  assumes "\<And>x. x \<in> set xs \<Longrightarrow> f x = Inr (g x)"
  shows "sequence (map f xs) = Inr (map g xs)"
  using assms by (induction xs) simp_all

lemma sequence_append:
  "sequence (rs @ ss) = res_bind (sequence rs) (\<lambda>xs. res_bind (sequence ss) (\<lambda>ys. Inr (xs @ ys)))"
proof (induction rs)
  case Nil
  show ?case by (cases "sequence ss") simp_all
next
  case (Cons r rs)
  then show ?case
    by (cases r; cases "sequence rs"; cases "sequence ss") simp_all
qed

lemma add_oc_exact [simp]:
  assumes "unat a + unat b < 2 ^ LENGTH('l)"
  shows "add_oc oc a (b :: 'l::len word) = Inr (a + b)"
  using assms by (simp add: add_oc_def)

lemma sub_oc_exact [simp]: "b \<le> a \<Longrightarrow> sub_oc oc a b = Inr (a - b)"
  by (simp add: sub_oc_def linorder_not_less)

lemma unat_add_exact:
  assumes "unat a + unat b < 2 ^ LENGTH('l)"
  shows "unat (a + b :: 'l::len word) = unat a + unat b"
  using assms by (simp add: unat_word_ariths)

lemma unat_sub_exact: "b \<le> a \<Longrightarrow> unat (a - b :: 'l::len word) = unat a - unat b"
  by (simp add: unat_sub)

lemma sum_list_map_mset_cong:
  fixes f :: "'a \<Rightarrow> 'b::comm_monoid_add"
  assumes "mset xs = mset ys"
  shows "sum_list (map f xs) = sum_list (map f ys)"
proof -
  have "sum_mset (mset (map f xs)) = sum_mset (mset (map f ys))" using assms by simp
  then show ?thesis by (simp only: sum_mset_sum_list)
qed

lemma of_nat_sum_list_map: "of_nat (sum_list (map f xs)) = sum_list (map (\<lambda>x. of_nat (f x)) xs)"
  by (induction xs) simp_all

lemma unat_ucast_mod: "unat (ucast (w :: 'a::len word) :: 'c::len word) = unat w mod 2 ^ LENGTH('c)"
  by (simp add: unsigned_ucast_eq take_bit_eq_mod)

lemma uint_eq_sint:
  assumes "0 \<le> sint (w :: 'l::len word)"
  shows "uint w = sint w"
proof -
  have "sint w < 2 ^ (LENGTH('l) - 1)" by (rule sint_lt)
  also have "\<dots> \<le> 2 ^ LENGTH('l)" by (simp add: power_increasing)
  finally show ?thesis using assms by (simp add: uint_sint take_bit_int_eq_self)
qed

section \<open>Triples\<close>

text \<open>
  \<open>triple P m Q E\<close>: started in a state satisfying \<open>P\<close>, the computation \<open>m\<close> either returns \<open>x\<close>
  in a state with \<open>Q x\<close>, or fails with \<open>e\<close> in a state with \<open>E e\<close>.
\<close>

definition triple ::
  "('s \<Rightarrow> bool) \<Rightarrow> ('s, 'e, 'a) sx \<Rightarrow> ('a \<Rightarrow> 's \<Rightarrow> bool) \<Rightarrow> ('e \<Rightarrow> 's \<Rightarrow> bool) \<Rightarrow> bool" where
  "triple P m Q E \<longleftrightarrow>
     (\<forall>s. P s \<longrightarrow> (case m s of (Inl e, s') \<Rightarrow> E e s' | (Inr x, s') \<Rightarrow> Q x s'))"

text \<open>A computation keeps \<open>P\<close> when it keeps it on success and on failure alike.\<close>

definition keeps :: "('s \<Rightarrow> bool) \<Rightarrow> ('s, 'e, 'a) sx \<Rightarrow> bool" where
  "keeps P m \<longleftrightarrow> (\<forall>s. P s \<longrightarrow> P (snd (m s)))"

lemma tripleD_ok: "triple P m Q E \<Longrightarrow> P s \<Longrightarrow> m s = (Inr x, s') \<Longrightarrow> Q x s'"
  by (fastforce simp: triple_def)

lemma tripleD_err: "triple P m Q E \<Longrightarrow> P s \<Longrightarrow> m s = (Inl e, s') \<Longrightarrow> E e s'"
  by (fastforce simp: triple_def)

lemma tripleI:
  assumes "\<And>s x s'. P s \<Longrightarrow> m s = (Inr x, s') \<Longrightarrow> Q x s'"
    and "\<And>s e s'. P s \<Longrightarrow> m s = (Inl e, s') \<Longrightarrow> E e s'"
  shows "triple P m Q E"
  using assms by (auto simp: triple_def split: prod.splits sum.splits)

lemma triple_return [triple_intro]: "(\<And>s. P s \<Longrightarrow> Q x s) \<Longrightarrow> triple P (sx_return x) Q E"
  by (simp add: triple_def sx_return_def)

lemma triple_throw [triple_intro]: "(\<And>s. P s \<Longrightarrow> E e s) \<Longrightarrow> triple P (sx_throw e) Q E"
  by (simp add: triple_def sx_throw_def)

lemma triple_bind [triple_intro]:
  assumes "triple P m R E" and "\<And>x. triple (R x) (f x) Q E"
  shows "triple P (sx_bind m f) Q E"
  using assms by (fastforce simp: triple_def sx_bind_def split: prod.splits sum.splits)

lemma triple_weaken:
  assumes "triple P m Q E" and "\<And>s. P' s \<Longrightarrow> P s"
    and "\<And>x s. Q x s \<Longrightarrow> Q' x s" and "\<And>e s. E e s \<Longrightarrow> E' e s"
  shows "triple P' m Q' E'"
  using assms by (fastforce simp: triple_def split: prod.splits sum.splits)

lemma triple_iter:
  assumes "\<And>x. x \<in> set xs \<Longrightarrow> triple I (f x) (\<lambda>_. I) E"
  shows "triple I (sx_iter f xs) (\<lambda>_. I) E"
  using assms
proof (induction xs)
  case Nil
  show ?case by (simp add: triple_return)
next
  case (Cons x xs)
  then show ?case by (auto intro!: triple_bind [where R = "\<lambda>_. I"])
qed

lemma keeps_triple: "keeps P m \<longleftrightarrow> triple P m (\<lambda>_. P) (\<lambda>_. P)"
  unfolding keeps_def triple_def
  by (auto split: prod.splits sum.splits) (metis prod.collapse)

lemma keepsD: "keeps P m \<Longrightarrow> P s \<Longrightarrow> m s = (r, s') \<Longrightarrow> P s'"
  by (fastforce simp: keeps_def)

lemma keeps_return [intro]: "keeps P (sx_return x)"
  by (simp add: keeps_def sx_return_def)

lemma keeps_throw [intro]: "keeps P (sx_throw e)"
  by (simp add: keeps_def sx_throw_def)

lemma keeps_get [intro]: "keeps P (sx_get f)"
  by (simp add: keeps_def sx_get_def)

lemma keeps_lift [intro]: "keeps P (sx_lift r)"
  by (simp add: keeps_def sx_lift_def)

lemma keeps_map_err [intro]: "keeps P m \<Longrightarrow> keeps P (sx_map_err g m)"
  by (fastforce simp: keeps_def sx_map_err_def split: prod.splits sum.splits)

lemma keeps_bind [intro]:
  assumes "keeps P m" and "\<And>x. keeps P (f x)"
  shows "keeps P (sx_bind m f)"
  using assms by (fastforce simp: keeps_def sx_bind_def split: prod.splits sum.splits)

lemma keeps_iter [intro]:
  assumes "\<And>x. x \<in> set xs \<Longrightarrow> keeps P (f x)"
  shows "keeps P (sx_iter f xs)"
  using assms by (induction xs) auto

section \<open>Inductive invariants\<close>

text \<open>
  The contract every state machine of the development is checked against: an initial state
  satisfies the invariant and every step keeps it.  The client's facts, that every reachable
  state satisfies it and that a run leads from reachable to reachable, are proved once here.
\<close>

inductive reach :: "('s \<Rightarrow> bool) \<Rightarrow> ('s \<Rightarrow> 's \<Rightarrow> bool) \<Rightarrow> 's \<Rightarrow> bool"
  for init :: "'s \<Rightarrow> bool" and step :: "'s \<Rightarrow> 's \<Rightarrow> bool" where
  reach_init: "init s \<Longrightarrow> reach init step s"
| reach_step: "reach init step s \<Longrightarrow> step s t \<Longrightarrow> reach init step t"

locale inductive_invariant =
  fixes init :: "'s \<Rightarrow> bool"
    and step :: "'s \<Rightarrow> 's \<Rightarrow> bool"
    and inv :: "'s \<Rightarrow> bool"
  assumes inv_init: "init s \<Longrightarrow> inv s"
    and inv_step: "step s t \<Longrightarrow> inv s \<Longrightarrow> inv t"
begin

lemma reach_inv: "reach init step s \<Longrightarrow> inv s"
  by (induction rule: reach.induct) (auto intro: inv_init inv_step)

lemma run_inv: "step\<^sup>*\<^sup>* s t \<Longrightarrow> inv s \<Longrightarrow> inv t"
  by (induction rule: rtranclp_induct) (auto intro: inv_step)

end

end
