(* ===== verification/Storage_Model.thy ===== *)
theory Storage_Model
  imports Boros_Prelude
begin

text \<open>
  The data of \<^verbatim>\<open>src/storage/mod.rs\<close>: a transaction with its life-cycle status, the textual
  form in which the status is stored, the per-queue counts and the chain cursor.  The fields
  carry the prefix \<open>tx_\<close>, \<open>ts_\<close> or \<open>cursor_\<close> because Isabelle's record selectors are global.
\<close>

section \<open>Statuses\<close>

datatype TransactionStatus = Pending | Validated | InFlight | Confirmed | Failed

text \<open>There are five statuses: statements about all of them can be computed.\<close>

instantiation TransactionStatus :: enum
begin

definition enum_TransactionStatus :: "TransactionStatus list" where
  "enum_TransactionStatus = [Pending, Validated, InFlight, Confirmed, Failed]"

definition enum_all_TransactionStatus :: "(TransactionStatus \<Rightarrow> bool) \<Rightarrow> bool" where
  "enum_all_TransactionStatus P \<longleftrightarrow> P Pending \<and> P Validated \<and> P InFlight \<and> P Confirmed \<and> P Failed"

definition enum_ex_TransactionStatus :: "(TransactionStatus \<Rightarrow> bool) \<Rightarrow> bool" where
  "enum_ex_TransactionStatus P \<longleftrightarrow> P Pending \<or> P Validated \<or> P InFlight \<or> P Confirmed \<or> P Failed"

lemma UNIV_TransactionStatus: "UNIV = {Pending, Validated, InFlight, Confirmed, Failed}"
  using TransactionStatus.exhaust by auto

instance
  by standard
    (auto simp: enum_TransactionStatus_def enum_all_TransactionStatus_def enum_ex_TransactionStatus_def UNIV_TransactionStatus)

end

text \<open>\<open>Display for TransactionStatus\<close>\<close>

fun status_to_string :: "TransactionStatus \<Rightarrow> string" where
  "status_to_string Pending = ''pending''"
| "status_to_string Validated = ''validated''"
| "status_to_string InFlight = ''inflight''"
| "status_to_string Confirmed = ''confirmed''"
| "status_to_string Failed = ''failed''"

text \<open>\<open>FromStr for TransactionStatus\<close>; \<open>None\<close> is the error \<open>transaction status not supported\<close>.\<close>

definition status_from_str :: "string \<Rightarrow> TransactionStatus option" where
  "status_from_str s =
     (if s = ''pending'' then Some Pending
      else if s = ''validated'' then Some Validated
      else if s = ''inflight'' then Some InFlight
      else if s = ''confirmed'' then Some Confirmed
      else if s = ''failed'' then Some Failed
      else None)"

section \<open>Transactions, queue counts and the cursor\<close>

definition DEFAULT_QUEUE :: string where
  "DEFAULT_QUEUE = ''default''"

record Transaction =
  tx_id :: string
  tx_raw :: bytes
  tx_status :: TransactionStatus
  tx_queue :: string
  tx_slot :: "u64 option"
  tx_dependencies :: "string list option"
  tx_created_at :: time
  tx_updated_at :: time

text \<open>\<open>Transaction::new\<close>; the two arguments after the bytes are its two calls of \<open>Utc::now()\<close>.\<close>

definition Transaction_new :: "string \<Rightarrow> bytes \<Rightarrow> time \<Rightarrow> time \<Rightarrow> Transaction" where
  "Transaction_new i r now1 now2 =
     \<lparr>tx_id = i, tx_raw = r, tx_status = Pending, tx_queue = DEFAULT_QUEUE, tx_slot = None,
      tx_dependencies = None, tx_created_at = now1, tx_updated_at = now2\<rparr>"

record TransactionState =
  ts_queue :: string
  ts_count :: u32

record Cursor =
  cursor_slot :: u64
  cursor_hash :: bytes

definition Cursor_new :: "u64 \<Rightarrow> bytes \<Rightarrow> Cursor" where
  "Cursor_new s h = \<lparr>cursor_slot = s, cursor_hash = h\<rparr>"

section \<open>The textual form of a status loses nothing\<close>

text \<open>
  The contract between a value and its stored text, as the storage layer relies on it: what
  was printed parses back, and only printed texts parse.
\<close>

locale text_codec =
  fixes print :: "'a \<Rightarrow> string"
    and parse :: "string \<Rightarrow> 'a option"
  assumes parse_print: "parse (print x) = Some x"
    and print_parse: "parse s = Some x \<Longrightarrow> print x = s"
begin

lemma print_eq_iff: "print x = print y \<longleftrightarrow> x = y"
  by (metis option.inject parse_print)

lemma parse_eq_Some_iff: "parse s = Some x \<longleftrightarrow> s = print x"
  using parse_print print_parse by blast

lemma parse_None_iff: "parse s = None \<longleftrightarrow> s \<notin> range print"
  by (metis option.exhaust parse_print print_parse rangeE rangeI option.distinct(1))

end

interpretation status_codec: text_codec status_to_string status_from_str
proof
  have "\<forall>x. status_from_str (status_to_string x) = Some x" by code_simp
  then show "status_from_str (status_to_string x) = Some x" for x by simp
next
  fix s x assume "status_from_str s = Some x"
  then show "status_to_string x = s"
    by (auto simp: status_from_str_def split: if_splits)
qed

lemmas status_codec_simps [simp] =
  status_codec.parse_print status_codec.print_eq_iff

end
