(* ===== verification/Sqlite_Store.thy ===== *)
theory Sqlite_Store
  imports Storage_Model
begin

text \<open>
  The SQLite storage of \<^verbatim>\<open>src/storage/sqlite.rs\<close> over the schema of
  \<^verbatim>\<open>src/storage/migrations/20250120_init.sql\<close>.

  A table is the list of its rows in the order in which the engine visits them.  SQL leaves
  that order, and the order of equal sort keys, open; the statements below hold for every
  list, so they hold for every visiting order.  A row keeps the status as text and the slot as
  a signed 64-bit integer, as the columns do, and reading a row parses both.

  Two fields of the database stand for its surroundings: \<open>io_faults\<close> says, statement by
  statement, whether the engine or the connection fails, and \<open>clock\<close> gives the successive
  answers of \<open>Utc::now()\<close>.  Every theorem quantifies over both.
\<close>

section \<open>Rows, tables and the environment\<close>

record tx_row =
  row_id :: string
  row_raw :: bytes
  row_status :: string
  row_slot :: "i64 option"
  row_queue :: string
  row_created_at :: time
  row_updated_at :: time

record cursor_row =
  crow_id :: int
  crow_slot :: i64
  crow_hash :: bytes

record db =
  tx_tbl :: "tx_row list"
  dep_tbl :: "(string \<times> string) list"
  cursor_tbl :: "cursor_row list"
  io_faults :: "bool list"
  clock :: "time list"

text \<open>The tables as the migration creates them.\<close>

definition migrate :: "bool list \<Rightarrow> time list \<Rightarrow> db" where
  "migrate faults instants =
     \<lparr>tx_tbl = [], dep_tbl = [], cursor_tbl = [], io_faults = faults, clock = instants\<rparr>"

datatype sql_error = SqlIo | SqlUnique | SqlForeignKey | SqlDecode

type_synonym 'a sql = "(db, sql_error, 'a) sx"

text \<open>One round trip to the engine: it fails when the environment says so.\<close>

definition stmt :: "unit sql" where
  "stmt d = (case io_faults d of
     [] \<Rightarrow> (Inr (), d)
   | f # fs \<Rightarrow> (if f then Inl SqlIo else Inr (), d\<lparr>io_faults := fs\<rparr>))"

definition utc_now :: "(db, 'e, time) sx" where
  "utc_now d = (case clock d of
     [] \<Rightarrow> (Inr 0, d)
   | t # ts \<Rightarrow> (Inr t, d\<lparr>clock := ts\<rparr>))"

text \<open>
  A database transaction: the tables as they were are restored on every path that does not
  reach a successful commit, which is what dropping an uncommitted \<open>sqlx::Transaction\<close> does.
\<close>

definition restore_tables :: "db \<Rightarrow> db \<Rightarrow> db" where
  "restore_tables d0 d =
     d\<lparr>tx_tbl := tx_tbl d0, dep_tbl := dep_tbl d0, cursor_tbl := cursor_tbl d0\<rparr>"

definition in_transaction :: "unit sql \<Rightarrow> unit sql" where
  "in_transaction body d =
     (case sx_bind stmt (\<lambda>_. sx_bind body (\<lambda>_. stmt)) d of
        (Inl e, d') \<Rightarrow> (Inl e, restore_tables d d')
      | (Inr x, d') \<Rightarrow> (Inr x, d'))"

section \<open>Reading rows\<close>

definition decode_u64 :: "i64 \<Rightarrow> u64 option" where
  "decode_u64 w = (if 0 \<le> sint w then Some w else None)"

text \<open>\<open>FromRow for Transaction\<close>\<close>

definition tx_from_row :: "tx_row \<Rightarrow> sql_error + Transaction" where
  "tx_from_row r =
     (case status_from_str (row_status r) of
        None \<Rightarrow> Inl SqlDecode
      | Some st \<Rightarrow>
          (case row_slot r of
             None \<Rightarrow> Inr \<lparr>tx_id = row_id r, tx_raw = row_raw r, tx_status = st,
                         tx_queue = row_queue r, tx_slot = None, tx_dependencies = None,
                         tx_created_at = row_created_at r, tx_updated_at = row_updated_at r\<rparr>
           | Some w \<Rightarrow>
               (case decode_u64 w of
                  None \<Rightarrow> Inl SqlDecode
                | Some s \<Rightarrow> Inr \<lparr>tx_id = row_id r, tx_raw = row_raw r, tx_status = st,
                              tx_queue = row_queue r, tx_slot = Some s, tx_dependencies = None,
                              tx_created_at = row_created_at r,
                              tx_updated_at = row_updated_at r\<rparr>)))"

text \<open>\<open>FromRow for TransactionState\<close>: the count column is a 64-bit integer read as a \<open>u32\<close>.\<close>

definition state_from_row :: "string \<times> nat \<Rightarrow> sql_error + TransactionState" where
  "state_from_row qn =
     (if snd qn < 2 ^ 32 then Inr \<lparr>ts_queue = fst qn, ts_count = of_nat (snd qn)\<rparr>
      else Inl SqlDecode)"

text \<open>\<open>FromRow for Cursor\<close>\<close>

definition cursor_from_row :: "cursor_row \<Rightarrow> sql_error + Cursor" where
  "cursor_from_row r =
     (case decode_u64 (crow_slot r) of
        None \<Rightarrow> Inl SqlDecode
      | Some s \<Rightarrow> Inr \<lparr>cursor_slot = s, cursor_hash = crow_hash r\<rparr>)"

definition fetch_rows :: "('r \<Rightarrow> sql_error + 'a) \<Rightarrow> (db \<Rightarrow> 'r list) \<Rightarrow> 'a list sql" where
  "fetch_rows dec sel = sx_bind stmt (\<lambda>_. \<lambda>d. (sequence (map dec (sel d)), d))"

section \<open>\<open>SqliteTransaction\<close>\<close>

text \<open>The row an \<open>INSERT INTO tx\<close> writes: the slot column is not mentioned and stays NULL.\<close>

definition row_of_tx :: "Transaction \<Rightarrow> tx_row" where
  "row_of_tx t =
     \<lparr>row_id = tx_id t, row_raw = tx_raw t, row_status = status_to_string (tx_status t),
      row_slot = None, row_queue = tx_queue t, row_created_at = tx_created_at t,
      row_updated_at = tx_updated_at t\<rparr>"

definition insert_tx :: "Transaction \<Rightarrow> unit sql" where
  "insert_tx t = sx_bind stmt (\<lambda>_. \<lambda>d.
     if tx_id t \<in> row_id ` set (tx_tbl d) then (Inl SqlUnique, d)
     else (Inr (), d\<lparr>tx_tbl := tx_tbl d @ [row_of_tx t]\<rparr>))"

definition insert_dependence :: "string \<Rightarrow> string \<Rightarrow> unit sql" where
  "insert_dependence dependent_id required_id = sx_bind stmt (\<lambda>_. \<lambda>d.
     if (dependent_id, required_id) \<in> set (dep_tbl d) then (Inl SqlUnique, d)
     else if dependent_id \<in> row_id ` set (tx_tbl d) \<and> required_id \<in> row_id ` set (tx_tbl d)
     then (Inr (), d\<lparr>dep_tbl := dep_tbl d @ [(dependent_id, required_id)]\<rparr>)
     else (Inl SqlForeignKey, d))"

definition create_one :: "Transaction \<Rightarrow> unit sql" where
  "create_one t = sx_bind (insert_tx t) (\<lambda>_.
     case tx_dependencies t of
       None \<Rightarrow> sx_return ()
     | Some deps \<Rightarrow> sx_iter (insert_dependence (tx_id t)) deps)"

definition create :: "Transaction list \<Rightarrow> unit sql" where
  "create txs = in_transaction (sx_iter create_one txs)"

definition find_status :: "TransactionStatus \<Rightarrow> Transaction list sql" where
  "find_status st = fetch_rows tx_from_row
     (\<lambda>d. filter (\<lambda>r. row_status r = status_to_string st) (tx_tbl d))"

text \<open>The comparison \<open>tx.slot > $2\<close> is on signed integers and is not true for NULL.\<close>

definition slot_after :: "i64 \<Rightarrow> i64 option \<Rightarrow> bool" where
  "slot_after s col = (case col of None \<Rightarrow> False | Some w \<Rightarrow> sint s < sint w)"

definition find_to_rollback :: "u64 \<Rightarrow> Transaction list sql" where
  "find_to_rollback s = fetch_rows tx_from_row
     (\<lambda>d. filter (\<lambda>r. row_status r = status_to_string Confirmed \<and> slot_after s (row_slot r))
            (tx_tbl d))"

definition latest :: "string \<Rightarrow> Transaction option sql" where
  "latest q = sx_bind
     (fetch_rows tx_from_row
        (\<lambda>d. take 1 (sort_key (\<lambda>r. - row_created_at r) (filter (\<lambda>r. row_queue r = q) (tx_tbl d)))))
     (\<lambda>txs. sx_return (case txs of [] \<Rightarrow> None | t # _ \<Rightarrow> Some t))"

text \<open>
  One arm of the \<open>UNION ALL\<close> that \<open>next\<close> builds.  The \<open>HashMap\<close> of limits is an association
  list with distinct keys, in the order in which the map is iterated.
\<close>

definition next_arm :: "TransactionStatus \<Rightarrow> db \<Rightarrow> string \<times> u16 \<Rightarrow> tx_row list" where
  "next_arm st d ql =
     take (unat (snd ql))
       (sort_key row_created_at
          (filter (\<lambda>r. row_status r = status_to_string st \<and> row_queue r = fst ql) (tx_tbl d)))"

definition next_txs :: "TransactionStatus \<Rightarrow> (string \<times> u16) list \<Rightarrow> Transaction list sql" where
  "next_txs st queues = fetch_rows tx_from_row (\<lambda>d. concat (map (next_arm st d) queues))"

text \<open>The groups of the \<open>GROUP BY\<close> with their counts.\<close>

definition queues_with :: "TransactionStatus \<Rightarrow> db \<Rightarrow> string list" where
  "queues_with st d = map row_queue (filter (\<lambda>r. row_status r = status_to_string st) (tx_tbl d))"

definition queue_groups :: "TransactionStatus \<Rightarrow> db \<Rightarrow> (string \<times> nat) list" where
  "queue_groups st d =
     map (\<lambda>q. (q, count_list (queues_with st d) q)) (remdups (queues_with st d))"

definition state_of :: "TransactionStatus \<Rightarrow> TransactionState list sql" where
  "state_of st = fetch_rows state_from_row (queue_groups st)"

definition update_row :: "Transaction \<Rightarrow> time \<Rightarrow> tx_row \<Rightarrow> tx_row" where
  "update_row t now r =
     (if row_id r = tx_id t
      then r\<lparr>row_raw := tx_raw t, row_status := status_to_string (tx_status t),
             row_slot := tx_slot t, row_updated_at := now\<rparr>
      else r)"

definition update_one :: "Transaction \<Rightarrow> unit sql" where
  "update_one t = sx_bind utc_now (\<lambda>now. sx_bind stmt (\<lambda>_.
     sx_modify (\<lambda>d. d\<lparr>tx_tbl := map (update_row t now) (tx_tbl d)\<rparr>)))"

definition update_batch :: "Transaction list \<Rightarrow> unit sql" where
  "update_batch txs = in_transaction (sx_iter update_one txs)"

section \<open>\<open>SqliteCursor\<close>\<close>

text \<open>\<open>INSERT OR REPLACE\<close> with the constant key 0, which the CHECK constraint admits.\<close>

definition cursor_set :: "Cursor \<Rightarrow> unit sql" where
  "cursor_set c = sx_bind stmt (\<lambda>_. sx_modify (\<lambda>d.
     d\<lparr>cursor_tbl := filter (\<lambda>r. crow_id r \<noteq> 0) (cursor_tbl d)
                      @ [\<lparr>crow_id = 0, crow_slot = cursor_slot c, crow_hash = cursor_hash c\<rparr>]\<rparr>))"

definition cursor_current :: "Cursor option sql" where
  "cursor_current = sx_bind (fetch_rows cursor_from_row (\<lambda>d. take 1 (cursor_tbl d)))
     (\<lambda>cs. sx_return (case cs of [] \<Rightarrow> None | c # _ \<Rightarrow> Some c))"

section \<open>The store as a map: the specification the pipeline relies on\<close>

text \<open>
  The abstract content of the \<open>tx\<close> table: what is known of a transaction id, without the row
  order and the bookkeeping time of the last update.
\<close>

record entry =
  e_raw :: bytes
  e_status :: TransactionStatus
  e_slot :: "u64 option"
  e_queue :: string
  e_created :: time

definition status_of_row :: "tx_row \<Rightarrow> TransactionStatus" where
  "status_of_row r = (case status_from_str (row_status r) of Some st \<Rightarrow> st | None \<Rightarrow> Failed)"

definition entry_of_row :: "tx_row \<Rightarrow> entry" where
  "entry_of_row r =
     \<lparr>e_raw = row_raw r, e_status = status_of_row r, e_slot = row_slot r, e_queue = row_queue r,
      e_created = row_created_at r\<rparr>"

definition row_map :: "tx_row list \<Rightarrow> string \<Rightarrow> tx_row option" where
  "row_map rs = map_of (map (\<lambda>r. (row_id r, r)) rs)"

definition entries :: "db \<Rightarrow> string \<Rightarrow> entry option" where
  "entries d i = map_option entry_of_row (row_map (tx_tbl d) i)"

definition new_entry :: "Transaction \<Rightarrow> entry" where
  "new_entry t =
     \<lparr>e_raw = tx_raw t, e_status = tx_status t, e_slot = None, e_queue = tx_queue t,
      e_created = tx_created_at t\<rparr>"

definition put_entry :: "Transaction \<Rightarrow> entry \<Rightarrow> entry" where
  "put_entry t e = e\<lparr>e_raw := tx_raw t, e_status := tx_status t, e_slot := tx_slot t\<rparr>"

definition map_put :: "Transaction \<Rightarrow> (string \<Rightarrow> entry option) \<Rightarrow> (string \<Rightarrow> entry option)" where
  "map_put t m = m(tx_id t := map_option (put_entry t) (m (tx_id t)))"

definition map_add_new :: "Transaction \<Rightarrow> (string \<Rightarrow> entry option) \<Rightarrow> (string \<Rightarrow> entry option)" where
  "map_add_new t m = m(tx_id t \<mapsto> new_entry t)"

section \<open>Well-formed databases\<close>

definition row_ids :: "db \<Rightarrow> string set" where
  "row_ids d = row_id ` set (tx_tbl d)"

definition statuses_wf :: "db \<Rightarrow> bool" where
  "statuses_wf d \<longleftrightarrow> (\<forall>r\<in>set (tx_tbl d). status_from_str (row_status r) \<noteq> None)"

definition dependencies_wf :: "db \<Rightarrow> bool" where
  "dependencies_wf d \<longleftrightarrow> distinct (dep_tbl d) \<and>
     (\<forall>e\<in>set (dep_tbl d). fst e \<in> row_ids d \<and> snd e \<in> row_ids d)"

definition cursor_wf :: "db \<Rightarrow> bool" where
  "cursor_wf d \<longleftrightarrow> length (cursor_tbl d) \<le> 1 \<and> (\<forall>c\<in>set (cursor_tbl d). crow_id c = 0)"

definition db_wf :: "db \<Rightarrow> bool" where
  "db_wf d \<longleftrightarrow> distinct (map row_id (tx_tbl d)) \<and> statuses_wf d \<and> dependencies_wf d \<and> cursor_wf d"

text \<open>Slots below \<open>2^63\<close>, for which signed and unsigned readings agree.\<close>

definition slot_small :: "u64 option \<Rightarrow> bool" where
  "slot_small s = (case s of None \<Rightarrow> True | Some w \<Rightarrow> 0 \<le> sint w)"

definition slots_wf :: "db \<Rightarrow> bool" where
  "slots_wf d \<longleftrightarrow> (\<forall>r\<in>set (tx_tbl d). slot_small (row_slot r))"

definition no_faults :: "db \<Rightarrow> bool" where
  "no_faults d \<longleftrightarrow> True \<notin> set (io_faults d)"

definition same_tables :: "db \<Rightarrow> db \<Rightarrow> bool" where
  "same_tables d d' \<longleftrightarrow>
     tx_tbl d' = tx_tbl d \<and> dep_tbl d' = dep_tbl d \<and> cursor_tbl d' = cursor_tbl d"

named_theorems db_defs \<open>well-formedness predicates of the database\<close>

lemmas [db_defs] =
  db_wf_def statuses_wf_def dependencies_wf_def cursor_wf_def row_ids_def slots_wf_def

section \<open>Statements and transactions\<close>

lemma same_tables_refl [simp, intro]: "same_tables d d"
  by (simp add: same_tables_def)

lemma same_tables_trans [trans]: "same_tables a b \<Longrightarrow> same_tables b c \<Longrightarrow> same_tables a c"
  by (simp add: same_tables_def)

lemma same_tables_restore [simp]: "same_tables d (restore_tables d d')"
  by (simp add: same_tables_def restore_tables_def)

lemma same_tables_predicates:
  assumes "same_tables d d'"
  shows "db_wf d' = db_wf d" "slots_wf d' = slots_wf d" "entries d' = entries d" "row_ids d' = row_ids d"
  using assms by (auto simp: same_tables_def db_defs entries_def fun_eq_iff)

lemma stmt_same_tables: "stmt d = (r, d') \<Longrightarrow> same_tables d d'"
  by (auto simp: stmt_def same_tables_def split: list.splits if_splits)

lemma stmt_no_faults: "no_faults d \<Longrightarrow> \<exists>d'. stmt d = (Inr (), d') \<and> no_faults d'"
  by (auto simp: stmt_def no_faults_def split: list.splits)

lemma utc_now_same_tables: "utc_now d = (r, d') \<Longrightarrow> same_tables d d'"
  by (auto simp: utc_now_def same_tables_def split: list.splits)

lemma utc_now_ok: "\<exists>t d'. utc_now d = (Inr t, d') \<and> io_faults d' = io_faults d"
  by (auto simp: utc_now_def split: list.splits)

lemma keeps_same_tables:
  assumes "\<And>r d d'. m d = (r, d') \<Longrightarrow> same_tables d d'"
    and "\<And>d d'. same_tables d d' \<Longrightarrow> P d \<Longrightarrow> P d'"
  shows "keeps P m"
  unfolding keeps_def using assms by (metis prod.collapse)

lemma in_transaction_err:
  "in_transaction body d = (Inl e, d') \<Longrightarrow> same_tables d d'"
  by (auto simp: in_transaction_def split: prod.splits sum.splits)

lemma in_transaction_ok:
  assumes "in_transaction body d = (Inr x, d')"
  obtains d1 d2 where "stmt d = (Inr (), d1)" "body d1 = (Inr (), d2)" "stmt d2 = (Inr (), d')"
proof -
  have "sx_bind stmt (\<lambda>_. sx_bind body (\<lambda>_. stmt)) d = (Inr x, d')"
    using assms by (auto simp: in_transaction_def split: prod.splits sum.splits)
  then obtain d1 d2 where "stmt d = (Inr (), d1)" "body d1 = (Inr (), d2)" "stmt d2 = (Inr x, d')"
    by (auto simp: sx_bind_def split: prod.splits sum.splits)
  then show thesis using that by simp
qed

lemma in_transaction_no_faults:
  assumes "no_faults d" and "\<And>d1. same_tables d d1 \<Longrightarrow> no_faults d1 \<Longrightarrow>
      \<exists>d2. body d1 = (Inr (), d2) \<and> no_faults d2"
  shows "\<exists>d'. in_transaction body d = (Inr (), d') \<and> no_faults d'"
proof -
  obtain d1 where d1: "stmt d = (Inr (), d1)" "no_faults d1"
    using assms(1) stmt_no_faults by blast
  with assms(2) stmt_same_tables obtain d2 where d2: "body d1 = (Inr (), d2)" "no_faults d2"
    by blast
  obtain d3 where "stmt d2 = (Inr (), d3)" "no_faults d3"
    using d2(2) stmt_no_faults by blast
  with d1 d2 show ?thesis by (simp add: in_transaction_def sx_bind_def)
qed

lemma keeps_in_transaction:
  assumes "keeps P body" and "\<And>d d'. same_tables d d' \<Longrightarrow> P d \<Longrightarrow> P d'"
  shows "keeps P (in_transaction body)"
  unfolding keeps_def
proof (intro allI impI)
  fix d assume P: "P d"
  obtain r d' where eq: "in_transaction body d = (r, d')" by fastforce
  show "P (snd (in_transaction body d))"
  proof (cases r)
    case (Inl e)
    with eq P assms(2) in_transaction_err show ?thesis by fastforce
  next
    case (Inr x)
    with eq obtain d1 d2 where
      "stmt d = (Inr (), d1)" "body d1 = (Inr (), d2)" "stmt d2 = (Inr (), d')"
      by (auto elim: in_transaction_ok)
    with P assms stmt_same_tables have "P d'" by (metis keepsD)
    with eq show ?thesis by simp
  qed
qed

section \<open>Row maps\<close>

lemma row_map_Nil [simp]: "row_map [] = Map.empty"
  by (simp add: row_map_def)

lemma row_map_append_fresh:
  "row_id r \<notin> row_id ` set rs \<Longrightarrow> row_map (rs @ [r]) = (row_map rs)(row_id r \<mapsto> r)"
  by (auto simp: row_map_def map_of_append map_add_def fun_eq_iff image_iff
      dest!: map_of_SomeD split: option.splits)

lemma row_map_None_iff: "row_map rs i = None \<longleftrightarrow> i \<notin> row_id ` set rs"
  by (force simp: row_map_def map_of_eq_None_iff)

lemma row_map_Some_iff:
  "distinct (map row_id rs) \<Longrightarrow> row_map rs i = Some r \<longleftrightarrow> r \<in> set rs \<and> row_id r = i"
  by (auto simp: row_map_def map_of_eq_Some_iff o_def)

lemma row_map_map:
  assumes "\<And>r. row_id (f r) = row_id r"
  shows "row_map (map f rs) i = map_option f (row_map rs i)"
  using assms by (induction rs) (auto simp: row_map_def)

lemma entries_None_iff: "entries d i = None \<longleftrightarrow> i \<notin> row_ids d"
  by (simp add: entries_def row_ids_def row_map_None_iff)

lemma entries_Some_iff:
  assumes "db_wf d"
  shows "entries d i = Some e \<longleftrightarrow> (\<exists>r\<in>set (tx_tbl d). row_id r = i \<and> e = entry_of_row r)"
  using assms by (auto simp: entries_def db_wf_def row_map_Some_iff)

lemma status_of_row_iff:
  assumes "db_wf d" and "r \<in> set (tx_tbl d)"
  shows "row_status r = status_to_string st \<longleftrightarrow> status_of_row r = st"
  using assms
  by (auto simp: db_wf_def statuses_wf_def status_of_row_def status_codec.parse_eq_Some_iff
      split: option.splits)

section \<open>Creating transactions\<close>

lemma insert_tx_cases:
  assumes "insert_tx t d = (r, d')"
  shows "(\<exists>e. r = Inl e \<and> same_tables d d') \<or>
     r = Inr () \<and> tx_id t \<notin> row_ids d \<and> tx_tbl d' = tx_tbl d @ [row_of_tx t] \<and>
       dep_tbl d' = dep_tbl d \<and> cursor_tbl d' = cursor_tbl d"
proof -
  obtain r1 d1 where st: "stmt d = (r1, d1)" by fastforce
  then have tb: "tx_tbl d1 = tx_tbl d" "dep_tbl d1 = dep_tbl d" "cursor_tbl d1 = cursor_tbl d"
    using stmt_same_tables by (auto simp: same_tables_def)
  show ?thesis
    using assms st tb
    by (cases r1) (auto simp: insert_tx_def sx_bind_def same_tables_def row_ids_def split: if_splits)
qed

lemma insert_dependence_cases:
  assumes "insert_dependence a b d = (r, d')"
  shows "(\<exists>e. r = Inl e \<and> same_tables d d') \<or>
     r = Inr () \<and> (a, b) \<notin> set (dep_tbl d) \<and> a \<in> row_ids d \<and> b \<in> row_ids d \<and>
       tx_tbl d' = tx_tbl d \<and> dep_tbl d' = dep_tbl d @ [(a, b)] \<and> cursor_tbl d' = cursor_tbl d"
proof -
  obtain r1 d1 where st: "stmt d = (r1, d1)" by fastforce
  then have tb: "tx_tbl d1 = tx_tbl d" "dep_tbl d1 = dep_tbl d" "cursor_tbl d1 = cursor_tbl d"
    using stmt_same_tables by (auto simp: same_tables_def)
  show ?thesis
    using assms st tb
    by (cases r1)
      (auto simp: insert_dependence_def sx_bind_def same_tables_def row_ids_def split: if_splits)
qed

lemma insert_tx_keeps_wf: "keeps db_wf (insert_tx t)"
  unfolding keeps_def
proof (intro allI impI)
  fix d assume wf: "db_wf d"
  obtain r d' where eq: "insert_tx t d = (r, d')" by fastforce
  from insert_tx_cases [OF eq] have "db_wf d'"
  proof
    assume "\<exists>e. r = Inl e \<and> same_tables d d'"
    with wf show ?thesis by (auto simp: same_tables_predicates)
  qed (use wf in \<open>auto simp: db_defs row_of_tx_def\<close>)
  with eq show "db_wf (snd (insert_tx t d))" by simp
qed

lemma insert_dependence_keeps_wf: "keeps db_wf (insert_dependence a b)"
  unfolding keeps_def
proof (intro allI impI)
  fix d assume wf: "db_wf d"
  obtain r d' where eq: "insert_dependence a b d = (r, d')" by fastforce
  from insert_dependence_cases [OF eq] have "db_wf d'"
  proof
    assume "\<exists>e. r = Inl e \<and> same_tables d d'"
    with wf show ?thesis by (auto simp: same_tables_predicates)
  qed (use wf in \<open>auto simp: db_defs\<close>)
  with eq show "db_wf (snd (insert_dependence a b d))" by simp
qed

lemma create_one_keeps_wf: "keeps db_wf (create_one t)"
  unfolding create_one_def
  by (auto intro!: insert_tx_keeps_wf insert_dependence_keeps_wf split: option.splits)

lemma create_keeps_wf: "keeps db_wf (create txs)"
  unfolding create_def
  by (rule keeps_in_transaction) (auto intro: create_one_keeps_wf simp: same_tables_predicates)

text \<open>What a run of inserts that ends without error has written.\<close>

definition dep_edges :: "Transaction list \<Rightarrow> (string \<times> string) list" where
  "dep_edges txs = concat (map (\<lambda>t. case tx_dependencies t of
     None \<Rightarrow> [] | Some ds \<Rightarrow> map (Pair (tx_id t)) ds) txs)"

lemma insert_dependences_ok:
  "sx_iter (insert_dependence a) ds d = (Inr (), d') \<Longrightarrow>
   tx_tbl d' = tx_tbl d \<and> dep_tbl d' = dep_tbl d @ map (Pair a) ds \<and> cursor_tbl d' = cursor_tbl d"
proof (induction ds arbitrary: d)
  case Nil
  then show ?case by (simp add: sx_return_def)
next
  case (Cons b ds)
  from Cons.prems obtain d1 where
    d1: "insert_dependence a b d = (Inr (), d1)" "sx_iter (insert_dependence a) ds d1 = (Inr (), d')"
    by (auto simp: sx_bind_def split: prod.splits sum.splits)
  with Cons.IH insert_dependence_cases [OF d1(1)] show ?case by auto
qed

lemma create_one_ok:
  assumes "create_one t d = (Inr (), d')"
  shows "tx_id t \<notin> row_ids d \<and> tx_tbl d' = tx_tbl d @ [row_of_tx t] \<and>
    dep_tbl d' = dep_tbl d @ dep_edges [t] \<and> cursor_tbl d' = cursor_tbl d"
proof -
  from assms obtain d1 where d1: "insert_tx t d = (Inr (), d1)"
    and rest: "(case tx_dependencies t of None \<Rightarrow> sx_return ()
                | Some deps \<Rightarrow> sx_iter (insert_dependence (tx_id t)) deps) d1 = (Inr (), d')"
    by (auto simp: create_one_def sx_bind_def split: prod.splits sum.splits)
  from insert_tx_cases [OF d1] have i: "tx_id t \<notin> row_ids d" "tx_tbl d1 = tx_tbl d @ [row_of_tx t]"
    "dep_tbl d1 = dep_tbl d" "cursor_tbl d1 = cursor_tbl d" by auto
  show ?thesis
  proof (cases "tx_dependencies t")
    case None
    with rest i show ?thesis by (auto simp: sx_return_def dep_edges_def)
  next
    case (Some ds)
    with rest insert_dependences_ok [of "tx_id t" ds d1 d'] i show ?thesis
      by (auto simp: dep_edges_def)
  qed
qed

lemma create_loop_ok:
  "sx_iter create_one txs d = (Inr (), d') \<Longrightarrow>
   tx_tbl d' = tx_tbl d @ map row_of_tx txs \<and> dep_tbl d' = dep_tbl d @ dep_edges txs \<and>
   cursor_tbl d' = cursor_tbl d \<and> distinct (map tx_id txs) \<and> set (map tx_id txs) \<inter> row_ids d = {}"
proof (induction txs arbitrary: d)
  case Nil
  then show ?case by (simp add: sx_return_def dep_edges_def)
next
  case (Cons t txs)
  from Cons.prems obtain d1 where
    d1: "create_one t d = (Inr (), d1)" and rest: "sx_iter create_one txs d1 = (Inr (), d')"
    by (auto simp: sx_bind_def split: prod.splits sum.splits)
  from create_one_ok [OF d1] Cons.IH [OF rest] show ?case
    by (auto simp: row_ids_def row_of_tx_def dep_edges_def)
qed

lemma create_ok:
  assumes "create txs d = (Inr (), d')"
  shows "tx_tbl d' = tx_tbl d @ map row_of_tx txs \<and> dep_tbl d' = dep_tbl d @ dep_edges txs \<and>
    cursor_tbl d' = cursor_tbl d \<and> distinct (map tx_id txs) \<and> set (map tx_id txs) \<inter> row_ids d = {}"
proof -
  from assms obtain d1 d2 where
    "stmt d = (Inr (), d1)" "sx_iter create_one txs d1 = (Inr (), d2)" "stmt d2 = (Inr (), d')"
    by (auto simp: create_def elim: in_transaction_ok)
  moreover from this have "same_tables d d1" "same_tables d2 d'"
    by (auto dest: stmt_same_tables)
  ultimately show ?thesis
    using create_loop_ok [of txs d1 d2] by (auto simp: same_tables_def row_ids_def)
qed

lemma create_err: "create txs d = (Inl e, d') \<Longrightarrow> same_tables d d'"
  by (auto simp: create_def dest: in_transaction_err)

text \<open>Without faults, independent fresh transactions are always created.\<close>

lemma create_loop_succeeds:
  "no_faults d \<Longrightarrow> distinct (map tx_id txs) \<Longrightarrow> set (map tx_id txs) \<inter> row_ids d = {} \<Longrightarrow>
   (\<And>t. t \<in> set txs \<Longrightarrow> tx_dependencies t = None) \<Longrightarrow>
   \<exists>d'. sx_iter create_one txs d = (Inr (), d') \<and> no_faults d'"
proof (induction txs arbitrary: d)
  case Nil
  then show ?case by (simp add: sx_return_def)
next
  case (Cons t txs)
  obtain d1 where d1: "stmt d = (Inr (), d1)" "no_faults d1" "same_tables d d1"
    using Cons.prems(1) stmt_no_faults stmt_same_tables by blast
  let ?d2 = "d1\<lparr>tx_tbl := tx_tbl d1 @ [row_of_tx t]\<rparr>"
  have one: "create_one t d = (Inr (), ?d2)"
    using Cons.prems(3,4) d1
    by (simp add: create_one_def insert_tx_def sx_bind_def sx_return_def same_tables_def row_ids_def)
  have "set (map tx_id txs) \<inter> row_ids ?d2 = {}"
    using Cons.prems(2,3) d1(3) by (auto simp: row_ids_def same_tables_def row_of_tx_def)
  moreover have "no_faults ?d2" using d1(2) by (simp add: no_faults_def)
  ultimately obtain d' where "sx_iter create_one txs ?d2 = (Inr (), d') \<and> no_faults d'"
    using Cons.IH [of ?d2] Cons.prems(2,4) by auto
  with one show ?case by (simp add: sx_bind_def)
qed

lemma create_succeeds:
  assumes "no_faults d" "distinct (map tx_id txs)" "set (map tx_id txs) \<inter> row_ids d = {}"
    "\<And>t. t \<in> set txs \<Longrightarrow> tx_dependencies t = None"
  shows "\<exists>d'. create txs d = (Inr (), d') \<and> no_faults d'"
  unfolding create_def
proof (rule in_transaction_no_faults [OF assms(1)])
  fix d1 assume "same_tables d d1" "no_faults d1"
  with assms show "\<exists>d2. sx_iter create_one txs d1 = (Inr (), d2) \<and> no_faults d2"
    by (intro create_loop_succeeds) (auto simp: same_tables_predicates)
qed

text \<open>The abstract effect: fresh ids are added to the map.\<close>

lemma entry_of_row_of_tx [simp]: "entry_of_row (row_of_tx t) = new_entry t"
  by (simp add: entry_of_row_def row_of_tx_def new_entry_def status_of_row_def)

lemma row_id_row_of_tx [simp]: "row_id (row_of_tx t) = tx_id t"
  by (simp add: row_of_tx_def)

lemma row_map_append_txs:
  "distinct (map tx_id txs) \<Longrightarrow> set (map tx_id txs) \<inter> row_id ` set rs = {} \<Longrightarrow>
   map_option entry_of_row \<circ> row_map (rs @ map row_of_tx txs) =
     fold map_add_new txs (map_option entry_of_row \<circ> row_map rs)"
proof (induction txs arbitrary: rs)
  case Nil
  then show ?case by simp
next
  case (Cons t txs)
  have "map_option entry_of_row \<circ> row_map (rs @ map row_of_tx (t # txs)) =
        map_option entry_of_row \<circ> row_map ((rs @ [row_of_tx t]) @ map row_of_tx txs)"
    by simp
  also have "\<dots> = fold map_add_new txs (map_option entry_of_row \<circ> row_map (rs @ [row_of_tx t]))"
    using Cons.prems by (intro Cons.IH) auto
  also have "map_option entry_of_row \<circ> row_map (rs @ [row_of_tx t]) =
        map_add_new t (map_option entry_of_row \<circ> row_map rs)"
    using Cons.prems by (auto simp: row_map_append_fresh map_add_new_def fun_eq_iff)
  finally show ?case by (simp add: o_def)
qed

lemma entries_comp: "entries d = map_option entry_of_row \<circ> row_map (tx_tbl d)"
  by (simp add: entries_def fun_eq_iff)

lemma create_entries:
  assumes "create txs d = (Inr (), d')"
  shows "entries d' = fold map_add_new txs (entries d)"
  using create_ok [OF assms] row_map_append_txs [of txs "tx_tbl d"]
  by (simp add: entries_comp row_ids_def)

section \<open>Updating transactions\<close>

text \<open>
  The contract of a keyed update, as the stages use it: writing \<open>u\<close> changes the entry under
  its key and nothing else, and creates nothing.  Batches over distinct keys then write every
  entry once, whatever their order.
\<close>

locale keyed_update =
  fixes key :: "'u \<Rightarrow> 'k"
    and wr :: "'u \<Rightarrow> 'r \<Rightarrow> 'r"
    and upd :: "'u \<Rightarrow> ('k \<Rightarrow> 'r option) \<Rightarrow> ('k \<Rightarrow> 'r option)"
  assumes upd_apply: "upd u m i = (if i = key u then map_option (wr u) (m i) else m i)"
begin

lemma upd_None_iff: "upd u m i = None \<longleftrightarrow> m i = None"
  by (simp add: upd_apply)

lemma fold_upd_other: "i \<notin> key ` set us \<Longrightarrow> fold upd us m i = m i"
  by (induction us arbitrary: m) (auto simp: upd_apply)

lemma fold_upd_None_iff: "fold upd us m i = None \<longleftrightarrow> m i = None"
  by (induction us arbitrary: m) (auto simp: upd_None_iff)

lemma fold_upd_hit:
  "distinct (map key us) \<Longrightarrow> u \<in> set us \<Longrightarrow> fold upd us m (key u) = map_option (wr u) (m (key u))"
proof (induction us arbitrary: m)
  case Nil
  then show ?case by simp
next
  case (Cons v us)
  show ?case
  proof (cases "u = v")
    case True
    with Cons.prems(1) have "fold upd us (upd v m) (key v) = upd v m (key v)"
      by (intro fold_upd_other) simp
    with True show ?thesis by (simp add: upd_apply [of v m "key v"])
  next
    case False
    with Cons.prems have "u \<in> set us" by simp
    moreover from this Cons.prems(1) have "key u \<noteq> key v" by (auto simp: image_iff)
    ultimately show ?thesis
      using Cons.IH [of "upd v m"] Cons.prems(1) by (simp add: upd_apply [of v m "key u"])
  qed
qed

end

interpretation tx_put: keyed_update tx_id put_entry map_put
  by unfold_locales (simp add: map_put_def)

lemma update_row_id [simp]: "row_id (update_row t now r) = row_id r"
  by (simp add: update_row_def)

lemma entry_of_update_row:
  "entry_of_row (update_row t now r) =
     (if row_id r = tx_id t then put_entry t (entry_of_row r) else entry_of_row r)"
  by (simp add: entry_of_row_def update_row_def put_entry_def status_of_row_def)

lemma row_map_id: "row_map rs i = Some r \<Longrightarrow> row_id r = i"
  by (auto simp: row_map_def dest!: map_of_SomeD)

lemma entries_update_row:
  assumes "tx_tbl d' = map (update_row t now) (tx_tbl d)"
  shows "entries d' = map_put t (entries d)"
proof
  fix i
  show "entries d' i = map_put t (entries d) i"
    using assms row_map_id [of "tx_tbl d" i]
    by (cases "row_map (tx_tbl d) i")
      (auto simp: entries_def row_map_map map_put_def entry_of_update_row)
qed

lemma update_one_cases:
  assumes "update_one t d = (r, d')"
  shows "(\<exists>e. r = Inl e \<and> same_tables d d') \<or>
    r = Inr () \<and> (\<exists>now. tx_tbl d' = map (update_row t now) (tx_tbl d)) \<and>
      dep_tbl d' = dep_tbl d \<and> cursor_tbl d' = cursor_tbl d"
proof -
  obtain now d1 where d1: "utc_now d = (Inr now :: sql_error + time, d1)" "same_tables d d1"
    using utc_now_ok [of d] utc_now_same_tables by (metis (full_types))
  obtain r2 d2 where d2: "stmt d1 = (r2, d2)" "same_tables d1 d2"
    using stmt_same_tables by (metis prod.exhaust)
  from d1(2) d2(2) have "same_tables d d2" by (rule same_tables_trans)
  with assms d1(1) d2(1) show ?thesis
    by (cases r2) (auto simp: update_one_def sx_bind_def sx_modify_def same_tables_def)
qed

lemma update_one_entries:
  assumes "update_one t d = (Inr (), d')"
  shows "entries d' = map_put t (entries d)" "row_ids d' = row_ids d"
  using update_one_cases [OF assms] by (auto simp: entries_update_row row_ids_def image_image)

lemma update_rows_wf:
  assumes "db_wf d" "tx_tbl d' = map (update_row t now) (tx_tbl d)"
    "dep_tbl d' = dep_tbl d" "cursor_tbl d' = cursor_tbl d"
  shows "db_wf d'"
proof -
  have ids: "map row_id (tx_tbl d') = map row_id (tx_tbl d)"
    by (simp add: assms(2) o_def)
  then have "row_ids d' = row_ids d" by (metis row_ids_def list.set_map)
  moreover have "statuses_wf d'"
    using assms(1,2) by (auto simp: db_wf_def statuses_wf_def update_row_def)
  moreover have "distinct (map row_id (tx_tbl d'))"
    using assms(1) by (simp add: ids db_wf_def)
  ultimately show ?thesis
    using assms(1,3,4) by (simp add: db_wf_def dependencies_wf_def cursor_wf_def)
qed

lemma update_one_keeps_wf: "keeps db_wf (update_one t)"
  unfolding keeps_def
proof (intro allI impI)
  fix d assume wf: "db_wf d"
  obtain r d' where eq: "update_one t d = (r, d')" by fastforce
  from update_one_cases [OF eq] wf have "db_wf d'"
    by (auto simp: same_tables_predicates intro: update_rows_wf)
  with eq show "db_wf (snd (update_one t d))" by simp
qed

lemma update_batch_keeps_wf: "keeps db_wf (update_batch txs)"
  unfolding update_batch_def
  by (rule keeps_in_transaction) (auto intro: update_one_keeps_wf simp: same_tables_predicates)

lemma update_loop_entries:
  "sx_iter update_one txs d = (Inr (), d') \<Longrightarrow>
   entries d' = fold map_put txs (entries d) \<and> cursor_tbl d' = cursor_tbl d \<and> dep_tbl d' = dep_tbl d"
proof (induction txs arbitrary: d)
  case Nil
  then show ?case by (simp add: sx_return_def)
next
  case (Cons t txs)
  from Cons.prems obtain d1 where
    d1: "update_one t d = (Inr (), d1)" and rest: "sx_iter update_one txs d1 = (Inr (), d')"
    by (auto simp: sx_bind_def split: prod.splits sum.splits)
  from Cons.IH [OF rest] update_one_entries [OF d1] update_one_cases [OF d1] show ?case by simp
qed

lemma update_batch_ok:
  assumes "update_batch txs d = (Inr (), d')"
  shows "entries d' = fold map_put txs (entries d)" "cursor_tbl d' = cursor_tbl d"
    "dep_tbl d' = dep_tbl d"
proof -
  from assms obtain d1 d2 where s: "stmt d = (Inr (), d1)" "sx_iter update_one txs d1 = (Inr (), d2)"
    "stmt d2 = (Inr (), d')"
    by (auto simp: update_batch_def elim: in_transaction_ok)
  then have "same_tables d d1" "same_tables d2 d'" by (auto dest: stmt_same_tables)
  with update_loop_entries [OF s(2)] show "entries d' = fold map_put txs (entries d)"
    "cursor_tbl d' = cursor_tbl d" "dep_tbl d' = dep_tbl d"
    by (auto simp: same_tables_predicates) (simp_all add: same_tables_def)
qed

lemma update_batch_err: "update_batch txs d = (Inl e, d') \<Longrightarrow> same_tables d d'"
  by (auto simp: update_batch_def dest: in_transaction_err)

lemma update_one_succeeds:
  assumes "no_faults d"
  shows "\<exists>d'. update_one t d = (Inr (), d') \<and> no_faults d'"
proof -
  obtain now d1 where d1: "utc_now d = (Inr now :: sql_error + time, d1)" "io_faults d1 = io_faults d"
    using utc_now_ok by blast
  with assms obtain d2 where "stmt d1 = (Inr (), d2)" "no_faults d2"
    using stmt_no_faults [of d1] by (auto simp: no_faults_def)
  with d1 show ?thesis by (simp add: update_one_def sx_bind_def sx_modify_def no_faults_def)
qed

lemma update_batch_succeeds:
  assumes "no_faults d"
  shows "\<exists>d'. update_batch txs d = (Inr (), d') \<and> no_faults d'"
  unfolding update_batch_def
proof (rule in_transaction_no_faults [OF assms])
  fix d1 assume "no_faults d1"
  then show "\<exists>d2. sx_iter update_one txs d1 = (Inr (), d2) \<and> no_faults d2"
  proof (induction txs arbitrary: d1)
    case (Cons t txs)
    then show ?case using update_one_succeeds [of d1 t] by (force simp: sx_bind_def)
  qed (simp add: sx_return_def)
qed

section \<open>Slots stay in the signed range\<close>

lemma update_one_slots:
  assumes "slot_small (tx_slot t)"
  shows "keeps slots_wf (update_one t)"
  unfolding keeps_def
proof (intro allI impI)
  fix d assume wf: "slots_wf d"
  obtain r d' where eq: "update_one t d = (r, d')" by fastforce
  from update_one_cases [OF eq] wf assms have "slots_wf d'"
    by (auto simp: same_tables_predicates) (auto simp: slots_wf_def update_row_def)
  with eq show "slots_wf (snd (update_one t d))" by simp
qed

lemma update_batch_slots:
  assumes "\<And>t. t \<in> set txs \<Longrightarrow> slot_small (tx_slot t)"
  shows "keeps slots_wf (update_batch txs)"
  unfolding update_batch_def
  by (rule keeps_in_transaction) (auto intro: update_one_slots assms simp: same_tables_predicates)

lemma create_slots: "keeps slots_wf (create txs)"
  unfolding keeps_def
proof (intro allI impI)
  fix d assume wf: "slots_wf d"
  obtain r d' where eq: "create txs d = (r, d')" by fastforce
  then have "slots_wf d'"
  proof (cases r)
    case (Inl e)
    with eq wf show ?thesis using create_err [of txs d e d'] same_tables_predicates(2) by auto
  next
    case (Inr x)
    with eq create_ok [of txs d d'] wf show ?thesis
      by (auto simp: slots_wf_def row_of_tx_def slot_small_def)
  qed
  with eq show "slots_wf (snd (create txs d))" by simp
qed

section \<open>Reading transactions\<close>

definition tx_of_row :: "tx_row \<Rightarrow> Transaction" where
  "tx_of_row r =
     \<lparr>tx_id = row_id r, tx_raw = row_raw r, tx_status = status_of_row r, tx_queue = row_queue r,
      tx_slot = row_slot r, tx_dependencies = None, tx_created_at = row_created_at r,
      tx_updated_at = row_updated_at r\<rparr>"

definition entry_of_tx :: "Transaction \<Rightarrow> entry" where
  "entry_of_tx t =
     \<lparr>e_raw = tx_raw t, e_status = tx_status t, e_slot = tx_slot t, e_queue = tx_queue t,
      e_created = tx_created_at t\<rparr>"

lemma tx_of_row_sel [simp]:
  "tx_id (tx_of_row r) = row_id r" "tx_status (tx_of_row r) = status_of_row r"
  "tx_queue (tx_of_row r) = row_queue r" "tx_slot (tx_of_row r) = row_slot r"
  "tx_raw (tx_of_row r) = row_raw r" "tx_created_at (tx_of_row r) = row_created_at r"
  "tx_dependencies (tx_of_row r) = None"
  by (simp_all add: tx_of_row_def)

lemma entry_of_tx_of_row [simp]: "entry_of_tx (tx_of_row r) = entry_of_row r"
  by (simp add: entry_of_tx_def entry_of_row_def)

lemma tx_from_row_Inr: "tx_from_row r = Inr t \<Longrightarrow> t = tx_of_row r"
  by (auto simp: tx_from_row_def tx_of_row_def status_of_row_def decode_u64_def
      split: option.splits if_splits)

lemma tx_from_row_ok:
  assumes "db_wf d" "slots_wf d" "r \<in> set (tx_tbl d)"
  shows "tx_from_row r = Inr (tx_of_row r)"
proof -
  from assms obtain st where "status_from_str (row_status r) = Some st"
    by (auto simp: db_wf_def statuses_wf_def)
  moreover have "slot_small (row_slot r)" using assms by (simp add: slots_wf_def)
  ultimately show ?thesis
    by (auto simp: tx_from_row_def tx_of_row_def status_of_row_def decode_u64_def slot_small_def
        split: option.splits)
qed

lemma fetch_rows_same_tables: "fetch_rows dec sel d = (r, d') \<Longrightarrow> same_tables d d'"
  by (auto simp: fetch_rows_def sx_bind_def dest: stmt_same_tables split: prod.splits sum.splits)

lemma fetch_rows_ok:
  assumes "fetch_rows dec sel d = (Inr ts, d')"
  shows "\<exists>d1. same_tables d d1 \<and> d' = d1 \<and> sequence (map dec (sel d1)) = Inr ts"
  using assms
  by (auto simp: fetch_rows_def sx_bind_def dest: stmt_same_tables split: prod.splits sum.splits)

lemma fetch_txs_ok:
  assumes "fetch_rows tx_from_row (\<lambda>d. sel (tx_tbl d)) d = (Inr ts, d')"
  shows "ts = map tx_of_row (sel (tx_tbl d))" "same_tables d d'"
proof -
  from fetch_rows_ok [OF assms] obtain d1 where
    d1: "same_tables d d1" "d' = d1" "map tx_from_row (sel (tx_tbl d)) = map Inr ts"
    by (auto simp: sequence_Inr_iff same_tables_def)
  have "\<And>rs. map tx_from_row rs = map Inr ts \<Longrightarrow> ts = map tx_of_row rs"
    by (induction ts) (auto dest!: tx_from_row_Inr simp: map_eq_Cons_conv Cons_eq_map_conv)
  with d1 show "ts = map tx_of_row (sel (tx_tbl d))" "same_tables d d'" by auto
qed

lemma fetch_txs_succeeds:
  assumes "no_faults d" "db_wf d" "slots_wf d" "set (sel (tx_tbl d)) \<subseteq> set (tx_tbl d)"
  shows "\<exists>d'. fetch_rows tx_from_row (\<lambda>d. sel (tx_tbl d)) d =
      (Inr (map tx_of_row (sel (tx_tbl d))), d') \<and> same_tables d d' \<and> no_faults d'"
proof -
  obtain d1 where d1: "stmt d = (Inr (), d1)" "no_faults d1" "same_tables d d1"
    using assms(1) stmt_no_faults stmt_same_tables by blast
  moreover have "sequence (map tx_from_row (sel (tx_tbl d))) = Inr (map tx_of_row (sel (tx_tbl d)))"
    by (rule sequence_cong_Inr) (use assms tx_from_row_ok in blast)
  ultimately show ?thesis by (auto simp: fetch_rows_def sx_bind_def same_tables_def)
qed

lemma find_status_eq:
  "find_status st = fetch_rows tx_from_row
     (\<lambda>d. (\<lambda>rs. filter (\<lambda>r. row_status r = status_to_string st) rs) (tx_tbl d))"
  by (simp add: find_status_def)

lemma find_status_ok:
  assumes "find_status st d = (Inr ts, d')" "db_wf d"
  shows "ts = map tx_of_row (filter (\<lambda>r. status_of_row r = st) (tx_tbl d))" "same_tables d d'"
proof -
  have "filter (\<lambda>r. row_status r = status_to_string st) (tx_tbl d) =
        filter (\<lambda>r. status_of_row r = st) (tx_tbl d)"
    by (rule filter_cong) (auto simp: status_of_row_iff [OF assms(2)])
  with fetch_txs_ok [OF assms(1) [unfolded find_status_eq]]
  show "ts = map tx_of_row (filter (\<lambda>r. status_of_row r = st) (tx_tbl d))" "same_tables d d'"
    by simp_all
qed

lemma find_status_succeeds:
  assumes "no_faults d" "db_wf d" "slots_wf d"
  shows "\<exists>ts d'. find_status st d = (Inr ts, d') \<and> same_tables d d' \<and> no_faults d'"
  unfolding find_status_eq
  using fetch_txs_succeeds [OF assms, of "\<lambda>rs. filter (\<lambda>r. row_status r = status_to_string st) rs"]
  by auto

text \<open>A found transaction is the entry of its id, and every entry with the status is found.\<close>

lemma map_tx_of_row_entries:
  assumes "db_wf d"
  shows "t \<in> set (map tx_of_row (filter P (tx_tbl d))) \<Longrightarrow> entries d (tx_id t) = Some (entry_of_tx t)"
  using assms by (auto simp: entries_Some_iff)

lemma find_status_entries:
  assumes "find_status st d = (Inr ts, d')" "db_wf d"
  shows "\<And>t. t \<in> set ts \<Longrightarrow> entries d (tx_id t) = Some (entry_of_tx t) \<and> tx_status t = st"
    "\<And>i e. entries d i = Some e \<Longrightarrow> e_status e = st \<Longrightarrow>
       \<exists>t\<in>set ts. tx_id t = i \<and> entry_of_tx t = e"
    "distinct (map tx_id ts)"
proof -
  note ts = find_status_ok(1) [OF assms]
  show "entries d (tx_id t) = Some (entry_of_tx t) \<and> tx_status t = st" if "t \<in> set ts" for t
    using that ts assms(2) by (auto simp: entries_Some_iff)
  show "\<exists>t\<in>set ts. tx_id t = i \<and> entry_of_tx t = e"
    if "entries d i = Some e" "e_status e = st" for i e
    using that ts assms(2) by (auto simp: entries_Some_iff entry_of_row_def)
  show "distinct (map tx_id ts)"
    using ts assms(2) by (auto simp: db_wf_def o_def distinct_map inj_on_def)
qed

lemma slot_after_unsigned:
  assumes "0 \<le> sint (s :: 64 word)" "slot_small col"
  shows "slot_after s col \<longleftrightarrow> (\<exists>w. col = Some w \<and> s < w)"
proof (cases col)
  case (Some w)
  with assms(2) have "0 \<le> sint w" by (simp add: slot_small_def)
  with assms(1) have "uint s = sint s" "uint w = sint w"
    by (simp_all add: uint_eq_sint)
  with Some show ?thesis by (simp add: slot_after_def word_less_def)
qed (simp add: slot_after_def)

lemma find_to_rollback_ok:
  assumes "find_to_rollback s d = (Inr ts, d')" "db_wf d" "slots_wf d" "0 \<le> sint s"
  shows "ts = map tx_of_row (filter (\<lambda>r. status_of_row r = Confirmed \<and>
             (\<exists>w. row_slot r = Some w \<and> s < w)) (tx_tbl d))"
    "same_tables d d'"
proof -
  let ?sel = "filter (\<lambda>r. row_status r = status_to_string Confirmed \<and> slot_after s (row_slot r))"
  have "?sel (tx_tbl d) = filter (\<lambda>r. status_of_row r = Confirmed \<and>
             (\<exists>w. row_slot r = Some w \<and> s < w)) (tx_tbl d)"
    using assms(3,4)
    by (intro filter_cong)
      (auto simp: status_of_row_iff [OF assms(2)] slots_wf_def slot_after_unsigned
        simp del: status_to_string.simps)
  moreover have "fetch_rows tx_from_row (\<lambda>d. ?sel (tx_tbl d)) d = (Inr ts, d')"
    using assms(1) by (simp add: find_to_rollback_def)
  ultimately show "ts = map tx_of_row (filter (\<lambda>r. status_of_row r = Confirmed \<and>
             (\<exists>w. row_slot r = Some w \<and> s < w)) (tx_tbl d))" "same_tables d d'"
    using fetch_txs_ok [of ?sel d ts d'] by simp_all
qed

lemma find_to_rollback_succeeds:
  assumes "no_faults d" "db_wf d" "slots_wf d"
  shows "\<exists>ts d'. find_to_rollback s d = (Inr ts, d') \<and> same_tables d d' \<and> no_faults d'"
  unfolding find_to_rollback_def
  using fetch_txs_succeeds [OF assms, of "\<lambda>rs. filter (\<lambda>r. row_status r = status_to_string Confirmed
    \<and> slot_after s (row_slot r)) rs"]
  by auto

lemma latest_ok:
  assumes "latest q d = (Inr res, d')"
  shows "same_tables d d'"
    "res = (case sort_key (\<lambda>r. - row_created_at r) (filter (\<lambda>r. row_queue r = q) (tx_tbl d)) of
              [] \<Rightarrow> None | r # _ \<Rightarrow> Some (tx_of_row r))"
proof -
  let ?sel = "\<lambda>rs. take 1 (sort_key (\<lambda>r. - row_created_at r) (filter (\<lambda>r. row_queue r = q) rs))"
  from assms obtain ts where ts: "fetch_rows tx_from_row (\<lambda>d. ?sel (tx_tbl d)) d = (Inr ts, d')"
    and res: "res = (case ts of [] \<Rightarrow> None | t # _ \<Rightarrow> Some t)"
    by (auto simp: latest_def sx_bind_def sx_return_def split: prod.splits sum.splits)
  from fetch_txs_ok [OF ts] have "ts = map tx_of_row (?sel (tx_tbl d))" "same_tables d d'"
    by simp_all
  with res show "same_tables d d'"
    "res = (case sort_key (\<lambda>r. - row_created_at r) (filter (\<lambda>r. row_queue r = q) (tx_tbl d)) of
              [] \<Rightarrow> None | r # _ \<Rightarrow> Some (tx_of_row r))"
    by (auto split: list.splits)
qed

lemma sort_key_head_least:
  fixes f :: "'a \<Rightarrow> 'b::linorder"
  assumes "sort_key f xs = y # ys"
  shows "y \<in> set xs \<and> (\<forall>x\<in>set xs. f y \<le> f x)"
proof -
  have "sorted (map f (y # ys))" using sorted_sort_key [of f xs] assms by simp
  moreover have "set (y # ys) = set xs" using assms by (metis set_sort)
  ultimately show ?thesis by force
qed

lemma next_arm_abs:
  "next_arm st d = (\<lambda>ql. take (unat (snd ql)) (sort_key row_created_at
      (filter (\<lambda>r. row_status r = status_to_string st \<and> row_queue r = fst ql) (tx_tbl d))))"
  by (simp add: next_arm_def fun_eq_iff)

lemma next_arm_subset:
  "r \<in> set (next_arm st d ql) \<Longrightarrow>
   r \<in> set (tx_tbl d) \<and> row_status r = status_to_string st \<and> row_queue r = fst ql"
  by (auto simp: next_arm_def dest!: in_set_takeD)

lemma next_txs_ok:
  assumes "next_txs st queues d = (Inr ts, d')"
  shows "ts = concat (map (\<lambda>ql. map tx_of_row (next_arm st d ql)) queues)" "same_tables d d'"
proof -
  let ?sel = "\<lambda>rs. concat (map (\<lambda>ql. take (unat (snd ql)) (sort_key row_created_at
      (filter (\<lambda>r. row_status r = status_to_string st \<and> row_queue r = fst ql) rs))) queues)"
  have "fetch_rows tx_from_row (\<lambda>d. ?sel (tx_tbl d)) d = (Inr ts, d')"
    using assms by (simp add: next_txs_def next_arm_abs)
  from fetch_txs_ok [OF this]
  show "ts = concat (map (\<lambda>ql. map tx_of_row (next_arm st d ql)) queues)" "same_tables d d'"
    by (simp_all add: next_arm_abs map_concat o_def)
qed

lemma next_txs_succeeds:
  assumes "no_faults d" "db_wf d" "slots_wf d"
  shows "\<exists>ts d'. next_txs st queues d = (Inr ts, d') \<and> same_tables d d' \<and> no_faults d'"
proof -
  let ?sel = "\<lambda>rs. concat (map (\<lambda>ql. take (unat (snd ql)) (sort_key row_created_at
      (filter (\<lambda>r. row_status r = status_to_string st \<and> row_queue r = fst ql) rs))) queues)"
  have "set (concat (map (next_arm st d) queues)) \<subseteq> set (tx_tbl d)"
    using next_arm_subset by fastforce
  then have "set (?sel (tx_tbl d)) \<subseteq> set (tx_tbl d)" by (simp only: next_arm_abs)
  from fetch_txs_succeeds [where sel = ?sel, OF assms this] show ?thesis
    by (auto simp only: next_txs_def next_arm_abs)
qed

text \<open>
  First in, first out within a queue: what an arm leaves behind is not older than what it
  takes, and it takes as many as the limit and the queue allow.
\<close>

lemma take_sort_key_oldest:
  fixes f :: "'a \<Rightarrow> 'b::linorder"
  assumes "x \<in> set (take n (sort_key f xs))" "y \<in> set (drop n (sort_key f xs))"
  shows "f x \<le> f y"
proof -
  have "sorted (map f (take n (sort_key f xs)) @ map f (drop n (sort_key f xs)))"
    by (metis append_take_drop_id map_append sorted_sort_key)
  with assms show ?thesis by (auto simp: sorted_append)
qed

lemma next_arm_fifo:
  assumes "x \<in> set (next_arm st d ql)" "y \<in> set (tx_tbl d)" "row_status y = status_to_string st"
    "row_queue y = fst ql" "y \<notin> set (next_arm st d ql)"
  shows "row_created_at x \<le> row_created_at y"
proof -
  let ?ys = "sort_key row_created_at
      (filter (\<lambda>r. row_status r = status_to_string st \<and> row_queue r = fst ql) (tx_tbl d))"
  have "y \<in> set ?ys" using assms by simp
  then have "y \<in> set (take (unat (snd ql)) ?ys) \<or> y \<in> set (drop (unat (snd ql)) ?ys)"
    by (metis UnE append_take_drop_id set_append)
  with assms(1,5) show ?thesis
    using take_sort_key_oldest [of x "unat (snd ql)" row_created_at _ y] by (auto simp: next_arm_def)
qed

lemma length_next_arm:
  "length (next_arm st d ql) = min (unat (snd ql)) (length (filter (\<lambda>r.
     row_status r = status_to_string st \<and> row_queue r = fst ql) (tx_tbl d)))"
  by (simp add: next_arm_def)

section \<open>Queue counts\<close>

definition queued :: "TransactionStatus \<Rightarrow> db \<Rightarrow> string \<Rightarrow> nat" where
  "queued st d q = length (filter (\<lambda>r. row_status r = status_to_string st \<and> row_queue r = q) (tx_tbl d))"

lemma count_list_map: "count_list (map f xs) y = length (filter (\<lambda>x. f x = y) xs)"
  by (induction xs) auto

lemma queue_groups_eq:
  "queue_groups st d = map (\<lambda>q. (q, queued st d q)) (remdups (queues_with st d))"
  by (auto simp: queue_groups_def queues_with_def queued_def count_list_map filter_filter
      intro!: map_cong arg_cong [where f = length] filter_cong)

lemma state_of_ok:
  assumes "state_of st d = (Inr ss, d')"
  shows "same_tables d d'" "map ts_queue ss = remdups (queues_with st d)"
    "\<And>q n. (\<exists>s\<in>set ss. ts_queue s = q \<and> unat (ts_count s) = n) \<longleftrightarrow> 0 < queued st d q \<and> n = queued st d q"
proof -
  from assms fetch_rows_ok [of state_from_row "queue_groups st" d ss d'] obtain d1 where
    d1: "same_tables d d1" "d' = d1" "map state_from_row (queue_groups st d1) = map Inr ss"
    by (auto simp: state_of_def sequence_Inr_iff)
  then show "same_tables d d'" by simp
  have g: "queue_groups st d1 = queue_groups st d"
    using d1(1) by (simp add: queue_groups_def queues_with_def same_tables_def)
  have ss: "\<And>gs. map state_from_row gs = map Inr ss \<Longrightarrow>
      map ts_queue ss = map fst gs \<and>
      map (\<lambda>s. (ts_queue s, unat (ts_count s))) ss = gs"
    by (induction ss)
      (auto simp: state_from_row_def Cons_eq_map_conv unat_of_nat split: if_splits)
  from ss [OF d1(3)] g have q: "map ts_queue ss = map fst (queue_groups st d)"
    and c: "map (\<lambda>s. (ts_queue s, unat (ts_count s))) ss = queue_groups st d" by auto
  show "map ts_queue ss = remdups (queues_with st d)" unfolding q by (simp add: queue_groups_eq o_def)
  show "(\<exists>s\<in>set ss. ts_queue s = q \<and> unat (ts_count s) = n) \<longleftrightarrow> 0 < queued st d q \<and> n = queued st d q"
    for q n
  proof -
    have "(\<exists>s\<in>set ss. ts_queue s = q \<and> unat (ts_count s) = n) \<longleftrightarrow> (q, n) \<in> set (queue_groups st d)"
      unfolding c [symmetric] by auto
    also have "\<dots> \<longleftrightarrow> 0 < queued st d q \<and> n = queued st d q"
      by (auto simp: queue_groups_eq queues_with_def queued_def length_greater_0_conv filter_empty_conv)
    finally show ?thesis .
  qed
qed

lemma queued_positive_iff: "0 < queued st d q \<longleftrightarrow> q \<in> set (queues_with st d)"
  by (auto simp: queued_def queues_with_def length_greater_0_conv filter_empty_conv)

lemma state_of_succeeds:
  assumes "no_faults d" "\<And>q. queued st d q < 2 ^ 32"
  shows "\<exists>ss d'. state_of st d = (Inr ss, d') \<and> no_faults d' \<and> same_tables d d'"
proof -
  obtain d1 where d1: "stmt d = (Inr (), d1)" "no_faults d1" "same_tables d d1"
    using assms(1) stmt_no_faults stmt_same_tables by blast
  have "sequence (map state_from_row (queue_groups st d)) =
      Inr (map (\<lambda>p. \<lparr>ts_queue = fst p, ts_count = of_nat (snd p)\<rparr>) (queue_groups st d))"
    using assms(2) by (intro sequence_cong_Inr) (auto simp: state_from_row_def queue_groups_eq)
  moreover have "queue_groups st d1 = queue_groups st d"
    using d1(3) by (simp add: queue_groups_def queues_with_def same_tables_def)
  ultimately show ?thesis
    using d1 by (auto simp: state_of_def fetch_rows_def sx_bind_def)
qed

section \<open>The cursor\<close>

lemma cursor_set_cases:
  assumes "cursor_set c d = (r, d')"
  shows "(\<exists>e. r = Inl e \<and> same_tables d d') \<or>
    r = Inr () \<and> tx_tbl d' = tx_tbl d \<and> dep_tbl d' = dep_tbl d \<and>
      cursor_tbl d' = filter (\<lambda>r. crow_id r \<noteq> 0) (cursor_tbl d) @
         [\<lparr>crow_id = 0, crow_slot = cursor_slot c, crow_hash = cursor_hash c\<rparr>]"
proof -
  obtain r1 d1 where s: "stmt d = (r1, d1)" "same_tables d d1"
    using stmt_same_tables by (metis prod.exhaust)
  with assms show ?thesis
    by (cases r1) (auto simp: cursor_set_def sx_bind_def sx_modify_def same_tables_def)
qed

lemma cursor_set_ok:
  assumes "cursor_set c d = (Inr (), d')" "db_wf d"
  shows "cursor_tbl d' = [\<lparr>crow_id = 0, crow_slot = cursor_slot c, crow_hash = cursor_hash c\<rparr>]"
    "entries d' = entries d" "db_wf d'"
proof -
  have "filter (\<lambda>r. crow_id r \<noteq> 0) (cursor_tbl d) = []"
    using assms(2) by (auto simp: db_wf_def cursor_wf_def filter_empty_conv)
  with cursor_set_cases [OF assms(1)] have c: "tx_tbl d' = tx_tbl d" "dep_tbl d' = dep_tbl d"
    "cursor_tbl d' = [\<lparr>crow_id = 0, crow_slot = cursor_slot c, crow_hash = cursor_hash c\<rparr>]"
    by auto
  then show "cursor_tbl d' = [\<lparr>crow_id = 0, crow_slot = cursor_slot c, crow_hash = cursor_hash c\<rparr>]"
    "entries d' = entries d"
    by (simp_all add: entries_def fun_eq_iff)
  show "db_wf d'"
    using assms(2) c by (simp add: db_wf_def statuses_wf_def dependencies_wf_def cursor_wf_def row_ids_def)
qed

lemma cursor_set_succeeds: "no_faults d \<Longrightarrow> \<exists>d'. cursor_set c d = (Inr (), d') \<and> no_faults d'"
  using stmt_no_faults [of d] by (auto simp: cursor_set_def sx_bind_def sx_modify_def no_faults_def)

section \<open>Properties of the store\<close>

text \<open>
  A small database for the witnesses: two pending transactions and one confirmed at slot 5.
\<close>

definition demo_row :: "string \<Rightarrow> string \<Rightarrow> i64 option \<Rightarrow> string \<Rightarrow> time \<Rightarrow> tx_row" where
  "demo_row i st s q t =
     \<lparr>row_id = i, row_raw = [1], row_status = st, row_slot = s, row_queue = q,
      row_created_at = t, row_updated_at = t\<rparr>"

definition demo_db :: db where
  "demo_db =
     \<lparr>tx_tbl = [demo_row ''a'' ''pending'' None ''default'' 7, demo_row ''b'' ''pending'' None ''default'' 3,
               demo_row ''c'' ''confirmed'' (Some 5) ''banana'' 1],
      dep_tbl = [], cursor_tbl = [], io_faults = [], clock = []\<rparr>"

definition demo_tx :: "string \<Rightarrow> Transaction" where
  "demo_tx i = Transaction_new i [2] 9 9"

lemmas demo_defs = demo_db_def demo_row_def demo_tx_def Transaction_new_def DEFAULT_QUEUE_def

lemma demo_db_wf: "db_wf demo_db" "slots_wf demo_db" "no_faults demo_db"
  by (simp_all add: demo_defs db_defs status_from_str_def slot_small_def no_faults_def)

text \<open>
  C5.  Submission is all or nothing.  Whatever statement fails (the opening of the
  transaction, a duplicate id, an unknown dependency, an input/output error, the commit),
  \<open>create\<close> either appends exactly the given transactions and their dependency edges, or
  returns an error and leaves every table as it was.
\<close>

theorem create_all_or_nothing:
  assumes "create txs d = (r, d')"
  shows "(r = Inr () \<and> tx_tbl d' = tx_tbl d @ map row_of_tx txs \<and>
           dep_tbl d' = dep_tbl d @ dep_edges txs \<and> cursor_tbl d' = cursor_tbl d) \<or>
         ((\<exists>e. r = Inl e) \<and> tx_tbl d' = tx_tbl d \<and> dep_tbl d' = dep_tbl d \<and>
           cursor_tbl d' = cursor_tbl d)"
proof (cases r)
  case (Inl e)
  with assms create_err show ?thesis by (auto simp: same_tables_def)
next
  case (Inr x)
  with assms create_ok [of txs d d'] show ?thesis by simp
qed

theorem create_all_or_nothing_witness:
  "(let d = demo_db\<lparr>io_faults := [False, False, True]\<rparr>;
        res = create [demo_tx ''x'', demo_tx ''y''] d
    in fst res = Inl SqlIo \<and> tx_tbl (snd res) = tx_tbl d)"
proof -
  let ?d = "demo_db\<lparr>io_faults := [False, False, True]\<rparr>"
  have r: "fst (create [demo_tx ''x'', demo_tx ''y''] ?d) = Inl SqlIo"
    by (simp add: create_def in_transaction_def sx_defs stmt_def create_one_def insert_tx_def demo_defs
        restore_tables_def)
  have "create [demo_tx ''x'', demo_tx ''y''] ?d =
     (fst (create [demo_tx ''x'', demo_tx ''y''] ?d), snd (create [demo_tx ''x'', demo_tx ''y''] ?d))"
    by simp
  from create_all_or_nothing [OF this] r show ?thesis by (simp add: Let_def)
qed

text \<open>
  C22.  Every write keeps the database well formed, on success and on every error: transaction
  ids stay unique, every stored status parses, dependency edges stay unique and refer to stored
  transactions, and there is at most one cursor.
\<close>

theorem store_invariant:
  "keeps db_wf (create txs) \<and> keeps db_wf (update_one t) \<and> keeps db_wf (update_batch ts) \<and>
   keeps db_wf (cursor_set c) \<and> db_wf (migrate faults instants)"
proof -
  have "keeps db_wf (cursor_set c)"
    unfolding keeps_def
  proof (intro allI impI)
    fix d assume wf: "db_wf d"
    obtain r d' where eq: "cursor_set c d = (r, d')" by fastforce
    with wf have "db_wf d'"
      using cursor_set_cases [OF eq] cursor_set_ok(3) [of c d d'] same_tables_predicates(1) by blast
    with eq show "db_wf (snd (cursor_set c d))" by simp
  qed
  then show ?thesis
    using create_keeps_wf update_one_keeps_wf update_batch_keeps_wf
    by (simp add: migrate_def db_defs)
qed

text \<open>
  C13.  The table refines a finite map from ids to entries: a successful \<open>create\<close> adds new
  entries, a successful \<open>update\<close> or \<open>update_batch\<close> rewrites bytes, status and slot of the
  entries it names and neither creates nor removes any.
\<close>

theorem store_refines_map:
  "(create txs d = (Inr (), d1) \<longrightarrow> entries d1 = fold map_add_new txs (entries d)) \<and>
   (update_one t d = (Inr (), d2) \<longrightarrow> entries d2 = map_put t (entries d)) \<and>
   (update_batch ts d = (Inr (), d3) \<longrightarrow>
      entries d3 = fold map_put ts (entries d) \<and>
      (\<forall>i. entries d3 i = None \<longleftrightarrow> entries d i = None))"
  using create_entries update_one_entries(1) update_batch_ok(1)
  by (auto simp: tx_put.fold_upd_None_iff)

theorem store_refines_map_witness:
  "\<exists>d'. update_batch [(demo_tx ''a'')\<lparr>tx_status := InFlight, tx_slot := Some 4\<rparr>] demo_db = (Inr (), d') \<and>
     map_option e_status (entries d' ''a'') = Some InFlight \<and> entries d' ''b'' = entries demo_db ''b''"
proof -
  let ?t = "(demo_tx ''a'')\<lparr>tx_status := InFlight, tx_slot := Some 4\<rparr>"
  obtain d' where d': "update_batch [?t] demo_db = (Inr (), d')"
    using update_batch_succeeds [OF demo_db_wf(3)] by blast
  with store_refines_map [of "[]" demo_db demo_db ?t demo_db "[?t]" d']
  have e: "entries d' = map_put ?t (entries demo_db)" by simp
  obtain x where "entries demo_db ''a'' = Some x" by (simp add: demo_defs entries_def row_map_def)
  with e have "map_option e_status (entries d' ''a'') = Some InFlight"
    "entries d' ''b'' = entries demo_db ''b''"
    by (simp_all add: map_put_def put_entry_def demo_tx_def Transaction_new_def)
  with d' show ?thesis by blast
qed

text \<open>
  What was created is found: after a successful \<open>create\<close>, the query for a status returns
  the transactions it returned before followed by the created ones with that status, each with
  its id, bytes and queue, but with neither a slot nor dependencies.
\<close>

theorem create_then_find:
  assumes "db_wf d" "create txs d = (Inr (), d1)" "find_status st d1 = (Inr found, d2)"
  shows "found = map tx_of_row (filter (\<lambda>r. status_of_row r = st) (tx_tbl d)) @
           map (\<lambda>t. t\<lparr>tx_slot := None, tx_dependencies := None\<rparr>) (filter (\<lambda>t. tx_status t = st) txs)"
proof -
  have wf: "db_wf d1" using create_keeps_wf assms(1,2) by (rule keepsD)
  have "tx_of_row (row_of_tx t) = t\<lparr>tx_slot := None, tx_dependencies := None\<rparr>" for t
    by (simp add: tx_of_row_def row_of_tx_def status_of_row_def)
  moreover have "status_of_row (row_of_tx t) = tx_status t" for t
    by (simp add: status_of_row_def row_of_tx_def)
  ultimately show ?thesis
    using find_status_ok(1) [OF assms(3) wf] create_ok [OF assms(2)]
    by (simp add: filter_map o_def)
qed

theorem create_then_find_witness:
  "\<exists>d1 found d2. create [demo_tx ''x''] demo_db = (Inr (), d1) \<and>
     find_status Pending d1 = (Inr found, d2) \<and> map tx_id found = [''a'', ''b'', ''x'']"
proof -
  obtain d1 where d1: "create [demo_tx ''x''] demo_db = (Inr (), d1)"
    using create_succeeds [OF demo_db_wf(3), of "[demo_tx ''x'']"] by (auto simp: demo_defs row_ids_def)
  then have nf: "no_faults d1"
    by (auto simp: create_def in_transaction_def sx_defs stmt_def create_one_def insert_tx_def demo_defs
        no_faults_def)
  have "db_wf d1" "slots_wf d1"
    using keepsD [OF create_keeps_wf demo_db_wf(1) d1] keepsD [OF create_slots demo_db_wf(2) d1] by auto
  with nf obtain found d2 where f: "find_status Pending d1 = (Inr found, d2)"
    using find_status_succeeds by blast
  from create_then_find [OF demo_db_wf(1) d1 f] show ?thesis
    using d1 f by (auto simp: demo_defs status_of_row_def status_from_str_def tx_of_row_def)
qed

text \<open>The part of the batch that belongs to one queue is what its arm of the query selects.\<close>

lemma next_txs_queue_part:
  assumes "next_txs st queues d = (Inr ts, d')" "distinct (map fst queues)" "(q, l) \<in> set queues"
  shows "filter (\<lambda>t. tx_queue t = q) ts = map tx_of_row (next_arm st d (q, l))"
proof -
  note ts = next_txs_ok(1) [OF assms(1)]
  let ?arm = "\<lambda>ql. map tx_of_row (next_arm st d ql)"
  have arm_queue: "\<And>ql t. t \<in> set (?arm ql) \<Longrightarrow> tx_queue t = fst ql"
    using next_arm_subset by auto
  have drop: "\<And>xs. q \<notin> fst ` set xs \<Longrightarrow> filter (\<lambda>t. tx_queue t = q) (concat (map ?arm xs)) = []"
    using arm_queue by (auto simp: filter_empty_conv)
  from assms(2,3) have "filter (\<lambda>t. tx_queue t = q) (concat (map ?arm queues)) = ?arm (q, l)"
  proof (induction queues)
    case (Cons ql qs)
    have hit: "filter (\<lambda>t. tx_queue t = q) (?arm ql) = (if fst ql = q then ?arm ql else [])"
      using arm_queue by (auto simp: filter_empty_conv filter_id_conv)
    show ?case
    proof (cases "fst ql = q")
      case True
      with Cons.prems have "ql = (q, l)" "q \<notin> fst ` set qs" by (auto simp: image_iff)
      with hit drop show ?thesis by simp
    next
      case False
      with Cons hit show ?thesis by auto
    qed
  qed simp
  with ts show ?thesis by simp
qed

text \<open>
  C23.  \<open>next\<close> serves every queue first in, first out: the result holds, for each requested
  queue, as many transactions of the requested status as the limit and the backlog allow, and
  no transaction of that queue and status left behind is older than one that was taken.
\<close>

theorem next_fifo:
  assumes "db_wf d" "next_txs st queues d = (Inr ts, d')" "distinct (map fst queues)"
    "(q, l) \<in> set queues"
  shows "length (filter (\<lambda>t. tx_queue t = q) ts) = min (unat l) (queued st d q) \<and>
    (\<forall>t\<in>set ts. \<forall>r\<in>set (tx_tbl d). tx_queue t = q \<and> row_queue r = q \<and> status_of_row r = st \<and>
       row_id r \<notin> tx_id ` set ts \<longrightarrow> tx_created_at t \<le> row_created_at r)"
proof
  let ?arm = "\<lambda>ql. map tx_of_row (next_arm st d ql)"
  note ts = next_txs_ok(1) [OF assms(2)]
  note f = next_txs_queue_part [OF assms(2,3,4)]
  then show "length (filter (\<lambda>t. tx_queue t = q) ts) = min (unat l) (queued st d q)"
    by (simp add: length_next_arm queued_def)
  show "\<forall>t\<in>set ts. \<forall>r\<in>set (tx_tbl d). tx_queue t = q \<and> row_queue r = q \<and> status_of_row r = st \<and>
       row_id r \<notin> tx_id ` set ts \<longrightarrow> tx_created_at t \<le> row_created_at r"
  proof (intro ballI impI; elim conjE)
    fix t r assume t: "t \<in> set ts" "tx_queue t = q" and r: "r \<in> set (tx_tbl d)" "row_queue r = q"
      "status_of_row r = st" "row_id r \<notin> tx_id ` set ts"
    from t have "t \<in> set (filter (\<lambda>t. tx_queue t = q) ts)" by simp
    with f have "t \<in> set (?arm (q, l))" by simp
    then obtain x where x: "t = tx_of_row x" "x \<in> set (next_arm st d (q, l))" by auto
    have "r \<notin> set (next_arm st d (q, l))"
      using r(4) ts assms(4) by (force simp: image_iff)
    with x r show "tx_created_at t \<le> row_created_at r"
      using next_arm_fifo [of x st d "(q, l)" r] status_of_row_iff [OF assms(1)] by auto
  qed
qed

theorem next_fifo_witness:
  "\<exists>ts d'. next_txs Pending [(''default'', 1), (''banana'', 4)] demo_db = (Inr ts, d') \<and>
     length (filter (\<lambda>t. tx_queue t = ''default'') ts) = 1"
proof -
  obtain ts d' where n: "next_txs Pending [(''default'', 1), (''banana'', 4)] demo_db = (Inr ts, d')"
    using next_txs_succeeds [OF demo_db_wf(3,1,2)] by blast
  from next_fifo [OF demo_db_wf(1) n, of "''default''" 1] n show ?thesis
    by (simp add: queued_def demo_defs)
qed

text \<open>
  A rollback to a slot finds exactly the confirmed transactions with a later slot, as long
  as slots stay below \<open>2^63\<close>, where the signed comparison of the engine agrees with the
  unsigned order of the chain.
\<close>

theorem rollback_query_exact:
  assumes "db_wf d" "slots_wf d" "0 \<le> sint s" "find_to_rollback s d = (Inr ts, d')"
  shows "{(tx_id t, entry_of_tx t) | t. t \<in> set ts} =
         {(i, e). entries d i = Some e \<and> e_status e = Confirmed \<and> (\<exists>w. e_slot e = Some w \<and> s < w)}"
  using find_to_rollback_ok(1) [OF assms(4,1,2,3)] assms(1)
  by (auto simp: Setcompr_eq_image image_image entries_Some_iff) (auto simp: entry_of_row_def)

theorem rollback_query_exact_witness:
  "\<exists>ts d'. find_to_rollback 3 demo_db = (Inr ts, d') \<and>
     {(tx_id t, entry_of_tx t) | t. t \<in> set ts} =
     {(i, e). entries demo_db i = Some e \<and> e_status e = Confirmed \<and> (\<exists>w. e_slot e = Some w \<and> 3 < w)}"
proof -
  obtain ts d' where f: "find_to_rollback 3 demo_db = (Inr ts, d')"
    using find_to_rollback_succeeds [OF demo_db_wf(3,1,2)] by blast
  have "0 \<le> sint (3 :: u64)" by simp
  from rollback_query_exact [OF demo_db_wf(1,2) this f] f show ?thesis by blast
qed

text \<open>
  The cursor survives a restart: what was last set is what is read, for slots below
  \<open>2^63\<close>, however often it was set before.
\<close>

theorem cursor_round_trip:
  assumes "db_wf d" "cursor_set c d = (Inr (), d1)" "0 \<le> sint (cursor_slot c)"
    "cursor_current d1 = (Inr res, d2)"
  shows "res = Some c"
proof -
  have tbl: "cursor_tbl d1 = [\<lparr>crow_id = 0, crow_slot = cursor_slot c, crow_hash = cursor_hash c\<rparr>]"
    using cursor_set_ok(1) [OF assms(2,1)] .
  from assms(4) obtain cs where
    "fetch_rows cursor_from_row (\<lambda>d. take 1 (cursor_tbl d)) d1 = (Inr cs, d2)"
    and res: "res = (case cs of [] \<Rightarrow> None | c # _ \<Rightarrow> Some c)"
    by (auto simp: cursor_current_def sx_bind_def sx_return_def split: prod.splits sum.splits)
  from fetch_rows_ok [OF this(1)] tbl have "sequence (map cursor_from_row
      [\<lparr>crow_id = 0, crow_slot = cursor_slot c, crow_hash = cursor_hash c\<rparr>]) = Inr cs"
    by (auto simp: same_tables_def)
  with assms(3) res show ?thesis
    by (auto simp: cursor_from_row_def decode_u64_def)
qed

theorem cursor_round_trip_witness:
  "\<exists>d1 d2. cursor_set (Cursor_new 9 [1, 2]) demo_db = (Inr (), d1) \<and>
     cursor_current d1 = (Inr (Some (Cursor_new 9 [1, 2])), d2)"
proof -
  let ?c = "Cursor_new 9 [1, 2]"
  have "\<exists>d1 res d2. cursor_set ?c demo_db = (Inr (), d1) \<and> cursor_current d1 = (Inr res, d2)"
    by (simp add: cursor_set_def cursor_current_def fetch_rows_def sx_defs stmt_def demo_defs
        cursor_from_row_def decode_u64_def Cursor_new_def)
  then obtain d1 res d2 where
    c: "cursor_set ?c demo_db = (Inr (), d1)" "cursor_current d1 = (Inr res, d2)" by blast
  have "0 \<le> sint (cursor_slot ?c)" by (simp add: Cursor_new_def)
  from cursor_round_trip [OF demo_db_wf(1) c(1) this c(2)] c show ?thesis by auto
qed

end
