(* ===== verification/Stage_Framework.thy ===== *)
theory Stage_Framework
  imports Sqlite_Store
begin

text \<open>
  What the stages of \<^verbatim>\<open>src/pipeline\<close> use of the \<open>gasket\<close> framework: the error a worker
  returns, the answer of \<open>schedule\<close>, the error conversions, and the retry loop in which the
  runtime calls \<open>execute\<close> again with the same unit of work.  How often it does so is a policy of
  the framework and stays a parameter.
\<close>

section \<open>Workers\<close>

datatype worker_error = WorkerSend | WorkerRecv | WorkerRetry | WorkerRestart | WorkerPanic

type_synonym 'a work = "(db, worker_error fault, 'a) sx"

datatype 'u schedule = Idle | Unit 'u

definition or_retry :: "('s, 'e, 'a) sx \<Rightarrow> ('s, worker_error fault, 'a) sx" where
  "or_retry m = sx_map_err (\<lambda>_. Err WorkerRetry) m"

definition or_restart :: "'e + 'a \<Rightarrow> (worker_error, 'a) outcome" where
  "or_restart r = (case r of Inl _ \<Rightarrow> Inl (Err WorkerRestart) | Inr x \<Rightarrow> Inr x)"

definition or_panic :: "'e + 'a \<Rightarrow> (worker_error, 'a) outcome" where
  "or_panic r = (case r of Inl _ \<Rightarrow> Inl (Err WorkerPanic) | Inr x \<Rightarrow> Inr x)"

text \<open>At most \<open>n\<close> retries after the first attempt.\<close>

fun attempts :: "nat \<Rightarrow> ('s, worker_error fault, 'a) sx \<Rightarrow> ('s, worker_error fault, 'a) sx" where
  "attempts 0 m s = m s"
| "attempts (Suc n) m s =
     (case m s of
        (Inl (Err WorkerRetry), s') \<Rightarrow> attempts n m s'
      | (Inl f, s') \<Rightarrow> (Inl f, s')
      | (Inr x, s') \<Rightarrow> (Inr x, s'))"

text \<open>\<open>into_iter().filter(p).collect()\<close> with a predicate that can panic.\<close>

fun filter_res :: "('a \<Rightarrow> ('e, bool) outcome) \<Rightarrow> 'a list \<Rightarrow> ('e, 'a list) outcome" where
  "filter_res p [] = Inr []"
| "filter_res p (x # xs) =
     res_bind (p x) (\<lambda>b. res_bind (filter_res p xs) (\<lambda>ys. Inr (if b then x # ys else ys)))"

text \<open>Skipping an update when there is nothing to update.\<close>

definition update_unless_empty :: "Transaction list \<Rightarrow> unit work" where
  "update_unless_empty txs = (if txs = [] then sx_return () else or_retry (update_batch txs))"

section \<open>Facts about the combinators\<close>

lemma or_retry_Inr [simp]: "or_retry m s = (Inr x, s') \<longleftrightarrow> m s = (Inr x, s')"
  by (auto simp: or_retry_def sx_map_err_def split: prod.splits sum.splits)

lemma or_retry_Inl: "or_retry m s = (Inl f, s') \<longleftrightarrow> f = Err WorkerRetry \<and> (\<exists>e. m s = (Inl e, s'))"
  by (auto simp: or_retry_def sx_map_err_def split: prod.splits sum.splits)

lemma or_retry_no_panic [simp]: "fst (or_retry m s) \<noteq> Inl Panic"
  by (auto simp: or_retry_def sx_map_err_def split: prod.splits sum.splits)

lemma keeps_or_retry [intro]: "keeps P m \<Longrightarrow> keeps P (or_retry m)"
  unfolding or_retry_def by (rule keeps_map_err)

lemma filter_res_Inr:
  assumes "\<And>x. x \<in> set xs \<Longrightarrow> p x = Inr (b x)"
  shows "filter_res p xs = Inr (filter b xs)"
  using assms by (induction xs) simp_all

lemma filter_res_InrD: "filter_res p xs = Inr ys \<Longrightarrow> \<forall>x\<in>set xs. \<exists>b. p x = Inr b"
  by (induction xs arbitrary: ys) auto

lemma filter_res_Panic:
  assumes "\<And>x. x \<in> set xs \<Longrightarrow> p x = Inl Panic \<or> (\<exists>b. p x = Inr b)"
  shows "filter_res p xs = Inl Panic \<longleftrightarrow> (\<exists>x\<in>set xs. p x = Inl Panic)"
  using assms
proof (induction xs)
  case (Cons x xs)
  then have IH: "filter_res p xs = Inl Panic \<longleftrightarrow> (\<exists>y\<in>set xs. p y = Inl Panic)" by simp
  from Cons.prems [of x] show ?case
  proof
    assume "\<exists>b. p x = Inr b"
    then obtain b where "p x = Inr b" by blast
    then show ?thesis using IH by (cases "filter_res p xs") auto
  qed simp_all
qed simp

lemma keeps_attempts [intro]:
  assumes "keeps P m"
  shows "keeps P (attempts n m)"
proof -
  have "P s \<Longrightarrow> P (snd (attempts n m s))" for s
  proof (induction n arbitrary: s)
    case 0
    then show ?case using assms by (simp add: keeps_def)
  next
    case (Suc n)
    obtain r s1 where r: "m s = (r, s1)" by fastforce
    with Suc.prems assms have "P s1" by (auto dest: keepsD)
    with r Suc.IH show ?case by (auto split: sum.splits fault.splits worker_error.splits)
  qed
  then show ?thesis by (simp add: keeps_def)
qed

lemma attempts_never:
  assumes "\<And>s x s'. m s \<noteq> (Inr x, s')"
  shows "attempts n m s \<noteq> (Inr x, s')"
proof (induction n arbitrary: s)
  case 0
  then show ?case using assms by simp
next
  case (Suc n)
  obtain r s1 where r: "m s = (r, s1)" by fastforce
  with assms show ?case
    using Suc.IH by (auto split: sum.splits fault.splits worker_error.splits)
qed

section \<open>Work that can be retried\<close>

text \<open>
  The contract that makes retrying a unit of work harmless: a failed attempt leaves a state
  from which the whole unit has the same effect as before, and a successful one has had that
  effect.  Then any number of retries does what one undisturbed run does.
\<close>

locale retry_safe =
  fixes body :: "('s, worker_error fault, unit) sx"
    and good :: "'s \<Rightarrow> bool"
    and abs :: "'s \<Rightarrow> 'a"
    and eff :: "'a \<Rightarrow> 'a"
  assumes failed_attempt: "good s \<Longrightarrow> body s = (Inl (Err WorkerRetry), s') \<Longrightarrow>
      good s' \<and> eff (abs s') = eff (abs s)"
    and successful_attempt: "good s \<Longrightarrow> body s = (Inr (), s') \<Longrightarrow> good s' \<and> abs s' = eff (abs s)"
begin

lemma attempts_effect:
  "good s \<Longrightarrow> attempts n body s = (Inr (), s') \<Longrightarrow> good s' \<and> abs s' = eff (abs s)"
proof (induction n arbitrary: s)
  case 0
  then show ?case using successful_attempt by simp
next
  case (Suc n)
  obtain r s1 where r: "body s = (r, s1)" by fastforce
  with Suc.prems(2) consider "r = Inl (Err WorkerRetry)" "attempts n body s1 = (Inr (), s')"
    | "r = Inr ()" "s1 = s'"
    by (auto split: sum.splits fault.splits worker_error.splits)
  then show ?case
  proof cases
    case 1
    with r Suc.prems(1) failed_attempt [of s s1] have "good s1" "eff (abs s1) = eff (abs s)" by simp_all
    with Suc.IH [OF _ 1(2)] show ?thesis by simp
  next
    case 2
    with r Suc.prems(1) successful_attempt show ?thesis by simp
  qed
qed

end

section \<open>Batches as pointwise updates\<close>

text \<open>
  What a stage writes back is what it has read, changed field by field.  On the level of
  entries such a batch rewrites the entries that satisfy a condition and leaves the others.
\<close>

definition upd_where ::
  "(string \<Rightarrow> entry \<Rightarrow> bool) \<Rightarrow> (entry \<Rightarrow> entry) \<Rightarrow> (string \<Rightarrow> entry option) \<Rightarrow> string \<Rightarrow> entry option" where
  "upd_where P g m = (\<lambda>i. map_option (\<lambda>e. if P i e then g e else e) (m i))"

lemma upd_where_none: "(\<And>i e. m i = Some e \<Longrightarrow> \<not> P i e) \<Longrightarrow> upd_where P g m = m"
  by (auto simp: upd_where_def fun_eq_iff map_option_case split: option.splits)

lemma fold_map_put_where:
  assumes "distinct (map tx_id ts)"
    and "\<And>t. t \<in> set ts \<Longrightarrow> m (tx_id t) = Some (entry_of_tx t) \<and> P (tx_id t) (entry_of_tx t)"
    and "\<And>i e. m i = Some e \<Longrightarrow> P i e \<Longrightarrow> i \<in> tx_id ` set ts"
    and "\<And>t. tx_id (f t) = tx_id t" "\<And>t. put_entry (f t) (entry_of_tx t) = g (entry_of_tx t)"
  shows "fold map_put (map f ts) m = upd_where P g m"
proof
  fix i
  show "fold map_put (map f ts) m i = upd_where P g m i"
  proof (cases "i \<in> tx_id ` set ts")
    case True
    then obtain t where t: "t \<in> set ts" "i = tx_id t" by blast
    have "distinct (map tx_id (map f ts))" using assms(1,4) by (simp add: o_def)
    from tx_put.fold_upd_hit [OF this, of "f t" m] t
    have "fold map_put (map f ts) m i = map_option (put_entry (f t)) (m i)"
      by (simp add: assms(4))
    with assms(2) [OF t(1)] t(2) assms(5) [of t] show ?thesis
      by (simp add: upd_where_def)
  next
    case False
    then have "fold map_put (map f ts) m i = m i"
      by (intro tx_put.fold_upd_other) (auto simp: assms(4))
    with False assms(3) [of i] show ?thesis
      by (auto simp: upd_where_def map_option_case split: option.splits)
  qed
qed

lemma update_batch_where:
  assumes "update_batch (map f ts) d = (Inr (), d')"
    and "distinct (map tx_id ts)"
    and "\<And>t. t \<in> set ts \<Longrightarrow> entries d (tx_id t) = Some (entry_of_tx t) \<and> P (tx_id t) (entry_of_tx t)"
    and "\<And>i e. entries d i = Some e \<Longrightarrow> P i e \<Longrightarrow> i \<in> tx_id ` set ts"
    and "\<And>t. tx_id (f t) = tx_id t" "\<And>t. put_entry (f t) (entry_of_tx t) = g (entry_of_tx t)"
  shows "entries d' = upd_where P g (entries d)"
  unfolding update_batch_ok(1) [OF assms(1)] using assms(2-) by (rule fold_map_put_where)

text \<open>The same for a batch that is skipped when it is empty, on success and on failure.\<close>

lemma update_unless_empty_where:
  assumes "update_unless_empty (map f ts) d = (r, d')"
    and "distinct (map tx_id ts)"
    and "\<And>t. t \<in> set ts \<Longrightarrow> entries d (tx_id t) = Some (entry_of_tx t) \<and> P (tx_id t) (entry_of_tx t)"
    and "\<And>i e. entries d i = Some e \<Longrightarrow> P i e \<Longrightarrow> i \<in> tx_id ` set ts"
    and "\<And>t. tx_id (f t) = tx_id t" "\<And>t. put_entry (f t) (entry_of_tx t) = g (entry_of_tx t)"
  shows "r = Inl (Err WorkerRetry) \<and> entries d' = entries d \<and> cursor_tbl d' = cursor_tbl d \<or>
    r = Inr () \<and> entries d' = upd_where P g (entries d) \<and> cursor_tbl d' = cursor_tbl d"
proof (cases "ts = []")
  case True
  with assms(1) have "r = Inr ()" "d' = d" by (simp_all add: update_unless_empty_def sx_return_def)
  moreover have "upd_where P g (entries d) = entries d"
    using True assms(4) by (intro upd_where_none) auto
  ultimately show ?thesis by simp
next
  case False
  with assms(1) have u: "or_retry (update_batch (map f ts)) d = (r, d')"
    by (simp add: update_unless_empty_def)
  show ?thesis
  proof (cases r)
    case (Inl e)
    with u update_batch_err [of "map f ts" d _ d'] show ?thesis
      by (auto simp: or_retry_Inl same_tables_predicates) (auto simp: same_tables_def)
  next
    case (Inr x)
    with u have ok: "update_batch (map f ts) d = (Inr (), d')" by simp
    from update_batch_where [OF ok assms(2-)] update_batch_ok(2) [OF ok] Inr show ?thesis by simp
  qed
qed

lemma update_unless_empty_keeps:
  assumes "\<And>t. t \<in> set ts \<Longrightarrow> slot_small (tx_slot t)"
  shows "keeps db_wf (update_unless_empty ts)" "keeps slots_wf (update_unless_empty ts)"
  using update_batch_keeps_wf update_batch_slots [OF assms]
  by (auto simp: update_unless_empty_def)

lemma update_unless_empty_succeeds:
  "no_faults d \<Longrightarrow> \<exists>d'. update_unless_empty ts d = (Inr (), d') \<and> no_faults d'"
  using update_batch_succeeds [of d ts] by (auto simp: update_unless_empty_def sx_return_def)

end
