(* ===== verification/Ledger_U5c.thy ===== *)
theory Ledger_U5c
  imports Boros_Prelude "HOL-Library.AList"
begin

text \<open>
  The ledger adapters: \<^verbatim>\<open>src/ledger/u5c/mod.rs\<close>, which reads the chain through the UTxO RPC
  service, and \<^verbatim>\<open>src/ledger/relay/mod.rs\<close>.

  The service is a parameter: every operation takes the answer of its remote call (an error or
  a message) as an argument.  Of the messages, only the fields the adapter reads are modelled,
  with the optional ones as options, as the protocol's generated types have them.  A hash is the
  list of its bytes; \<open>to_hash\<close> stands for \<open>Hash::from(&[u8])\<close> of the \<open>pallas\<close> package, with
  \<open>None\<close> for its panic on a wrong length.
\<close>

section \<open>Points and events\<close>

type_synonym point = "u64 \<times> bytes"

text \<open>Of a transaction in a block, the monitor reads the hash only.\<close>

record block_tx =
  btx_hash :: bytes

datatype Event = RollForward point "block_tx list" | Rollback point

fun event_point :: "Event \<Rightarrow> point" where
  "event_point (RollForward p txs) = p"
| "event_point (Rollback p) = p"

datatype Era = Byron | Shelley | Allegra | Mary | Alonzo | Babbage | Conway

datatype u5c_error = RpcFailed | NoTip

type_synonym utxo_ref = "bytes \<times> u32"
type_synonym era_cbor = "Era \<times> bytes"
type_synonym utxo_map = "(utxo_ref \<times> era_cbor) list"

section \<open>The chain stream\<close>

record header =
  h_slot :: u64
  h_hash :: bytes

record block =
  blk_header :: "header option"
  blk_body :: "block_tx list option"

text \<open>The actions of a \<open>FollowTipResponse\<close>; the inner option is the \<open>chain\<close> field.\<close>

datatype tip_action = Apply "block option" | Undo "block option" | Reset point

datatype stream_item = Yield Event | StreamError | StreamPanic

text \<open>
  The body of the \<open>stream!\<close> block.  An error of the remote stream is yielded and ends it, an
  unwrapped \<open>None\<close> panics, an applied block without a body and a reset are skipped.
\<close>

fun chain_events :: "(u5c_error + tip_action option) list \<Rightarrow> stream_item list" where
  "chain_events [] = []"
| "chain_events (Inl e # rest) = [StreamError]"
| "chain_events (Inr None # rest) = chain_events rest"
| "chain_events (Inr (Some (Apply None)) # rest) = [StreamPanic]"
| "chain_events (Inr (Some (Apply (Some b))) # rest) =
     (case blk_body b of
        None \<Rightarrow> chain_events rest
      | Some txs \<Rightarrow>
          (case blk_header b of
             None \<Rightarrow> [StreamPanic]
           | Some h \<Rightarrow> Yield (RollForward (h_slot h, h_hash h) txs) # chain_events rest))"
| "chain_events (Inr (Some (Undo None)) # rest) = [StreamPanic]"
| "chain_events (Inr (Some (Undo (Some b))) # rest) =
     (case blk_header b of
        None \<Rightarrow> [StreamPanic]
      | Some h \<Rightarrow> Yield (Rollback (h_slot h, h_hash h)) # chain_events rest)"
| "chain_events (Inr (Some (Reset p)) # rest) = chain_events rest"

text \<open>The intersection of the \<open>FollowTipRequest\<close>: the stored cursor, or none for the tip.\<close>

definition follow_tip_intersect :: "point option \<Rightarrow> point list" where
  "follow_tip_intersect cursor = (case cursor of Some p \<Rightarrow> [p] | None \<Rightarrow> [])"

section \<open>Queries\<close>

text \<open>
  The interceptor copies the configured metadata into every request and panics on an entry
  that is not a legal metadata key or value, which \<open>legal\<close> decides.
\<close>

definition interceptor :: "(string \<Rightarrow> string \<Rightarrow> bool) \<Rightarrow> (string \<times> string) list \<Rightarrow> ('e, unit) outcome" where
  "interceptor legal metadata = (if \<forall>(k, v)\<in>set metadata. legal k v then Inr () else Inl Panic)"

definition fetch_tip :: "u5c_error + point option \<Rightarrow> (u5c_error, point) outcome" where
  "fetch_tip answer =
     (case answer of
        Inl e \<Rightarrow> Inl (Err e)
      | Inr None \<Rightarrow> Inl (Err NoTip)
      | Inr (Some p) \<Rightarrow> Inr p)"

record any_utxo =
  u_native_bytes :: bytes
  u_txo_ref :: "(bytes \<times> u32) option"

fun collect_utxos ::
  "(bytes \<Rightarrow> bytes option) \<Rightarrow> Era \<Rightarrow> any_utxo list \<Rightarrow> utxo_map \<Rightarrow> (u5c_error, utxo_map) outcome" where
  "collect_utxos to_hash era [] utxos = Inr utxos"
| "collect_utxos to_hash era (u # us) utxos =
     res_bind (option_unwrap (u_txo_ref u)) (\<lambda>(hash, index).
     res_bind (option_unwrap (to_hash hash)) (\<lambda>h.
     collect_utxos to_hash era us (AList.update (h, index) (era, u_native_bytes u) utxos)))"

text \<open>\<open>read_utxos\<close> is the remote query, given the list of references.\<close>

definition fetch_utxos ::
  "(utxo_ref list \<Rightarrow> u5c_error + any_utxo list) \<Rightarrow> (bytes \<Rightarrow> bytes option) \<Rightarrow>
   utxo_ref list \<Rightarrow> Era \<Rightarrow> (u5c_error, utxo_map) outcome" where
  "fetch_utxos read_utxos to_hash utxo_refs era =
     (case read_utxos utxo_refs of
        Inl e \<Rightarrow> Inl (Err e)
      | Inr items \<Rightarrow> collect_utxos to_hash era items [])"

section \<open>Protocol parameters\<close>

text \<open>A rational of the service has a signed 32-bit numerator; the ledger's has two \<open>u64\<close>.\<close>

record rpc_rational =
  rr_numerator :: "32 word"
  rr_denominator :: u32

record rational =
  rn_numerator :: u64
  rn_denominator :: u64

definition map_rational :: "rpc_rational \<Rightarrow> rational" where
  "map_rational r = \<lparr>rn_numerator = scast (rr_numerator r), rn_denominator = ucast (rr_denominator r)\<rparr>"

record ex_units =
  exu_steps :: u64
  exu_memory :: u64

record rpc_cost_models =
  cm_plutus_v1 :: "i64 list option"
  cm_plutus_v2 :: "i64 list option"
  cm_plutus_v3 :: "i64 list option"

record rpc_params =
  p_coins_per_utxo_byte :: u64
  p_max_tx_size :: u64
  p_min_fee_coefficient :: u64
  p_min_fee_constant :: u64
  p_max_block_body_size :: u64
  p_max_block_header_size :: u64
  p_stake_key_deposit :: u64
  p_pool_deposit :: u64
  p_desired_number_of_pools :: u64
  p_pool_influence :: "rpc_rational option"
  p_monetary_expansion :: "rpc_rational option"
  p_treasury_expansion :: "rpc_rational option"
  p_min_pool_cost :: u64
  p_protocol_version :: "(u32 \<times> u32) option"
  p_max_value_size :: u64
  p_collateral_percentage :: u64
  p_max_collateral_inputs :: u64
  p_cost_models :: "rpc_cost_models option"
  p_prices :: "(rpc_rational option \<times> rpc_rational option) option"
  p_max_execution_units_per_transaction :: "ex_units option"
  p_max_execution_units_per_block :: "ex_units option"
  p_min_fee_script_ref_cost_per_byte :: "rpc_rational option"
  p_pool_voting_thresholds :: "rpc_rational list option"
  p_drep_voting_thresholds :: "rpc_rational list option"
  p_min_committee_size :: u32
  p_committee_term_limit :: u64
  p_governance_action_validity_period :: u64
  p_governance_action_deposit :: u64
  p_drep_deposit :: u64
  p_drep_inactivity_period :: u64

record pool_thresholds =
  pvt_motion_no_confidence :: rational
  pvt_committee_normal :: rational
  pvt_committee_no_confidence :: rational
  pvt_hard_fork_initiation :: rational
  pvt_security_voting_threshold :: rational

record drep_thresholds =
  dvt_motion_no_confidence :: rational
  dvt_committee_normal :: rational
  dvt_committee_no_confidence :: rational
  dvt_update_constitution :: rational
  dvt_hard_fork_initiation :: rational
  dvt_pp_network_group :: rational
  dvt_pp_economic_group :: rational
  dvt_pp_technical_group :: rational
  dvt_pp_governance_group :: rational
  dvt_treasury_withdrawal :: rational

record ConwayProtParams =
  c_system_start :: string
  c_epoch_length :: u64
  c_slot_length :: u64
  c_minfee_a :: u32
  c_minfee_b :: u32
  c_max_block_body_size :: u32
  c_max_transaction_size :: u32
  c_max_block_header_size :: u32
  c_key_deposit :: u64
  c_pool_deposit :: u64
  c_desired_number_of_stake_pools :: u32
  c_protocol_version :: "u64 \<times> u64"
  c_min_pool_cost :: u64
  c_ada_per_utxo_byte :: u64
  c_plutus_v1 :: "i64 list option"
  c_plutus_v2 :: "i64 list option"
  c_plutus_v3 :: "i64 list option"
  c_mem_price :: rational
  c_step_price :: rational
  c_max_tx_ex_units :: ex_units
  c_max_block_ex_units :: ex_units
  c_max_value_size :: u32
  c_collateral_percentage :: u32
  c_max_collateral_inputs :: u32
  c_expansion_rate :: rational
  c_treasury_growth_rate :: rational
  c_maximum_epoch :: u64
  c_pool_pledge_influence :: rational
  c_pool_voting_thresholds :: pool_thresholds
  c_drep_voting_thresholds :: drep_thresholds
  c_min_committee_size :: u64
  c_committee_term_limit :: u64
  c_governance_action_validity_period :: u64
  c_governance_action_deposit :: u64
  c_drep_deposit :: u64
  c_drep_inactivity_period :: u64
  c_minfee_refscript_cost_per_byte :: rational

text \<open>Indexing a vector panics beyond its length.\<close>

definition index_vec :: "'a list \<Rightarrow> nat \<Rightarrow> ('e, 'a) outcome" where
  "index_vec xs i = (if i < length xs then Inr (xs ! i) else Inl Panic)"

definition threshold :: "rpc_rational list \<Rightarrow> nat \<Rightarrow> (u5c_error, rational) outcome" where
  "threshold ts i = res_bind (index_vec ts i) (\<lambda>r. Inr (map_rational r))"

definition map_pool_thresholds :: "rpc_rational list \<Rightarrow> (u5c_error, pool_thresholds) outcome" where
  "map_pool_thresholds ts =
     res_bind (threshold ts 0) (\<lambda>t0. res_bind (threshold ts 1) (\<lambda>t1.
     res_bind (threshold ts 2) (\<lambda>t2. res_bind (threshold ts 3) (\<lambda>t3.
     res_bind (threshold ts 4) (\<lambda>t4.
     Inr \<lparr>pvt_motion_no_confidence = t0, pvt_committee_normal = t1,
          pvt_committee_no_confidence = t2, pvt_hard_fork_initiation = t3,
          pvt_security_voting_threshold = t4\<rparr>)))))"

definition map_drep_thresholds :: "rpc_rational list \<Rightarrow> (u5c_error, drep_thresholds) outcome" where
  "map_drep_thresholds ts =
     res_bind (threshold ts 0) (\<lambda>t0. res_bind (threshold ts 1) (\<lambda>t1.
     res_bind (threshold ts 2) (\<lambda>t2. res_bind (threshold ts 3) (\<lambda>t3.
     res_bind (threshold ts 4) (\<lambda>t4. res_bind (threshold ts 5) (\<lambda>t5.
     res_bind (threshold ts 6) (\<lambda>t6. res_bind (threshold ts 7) (\<lambda>t7.
     res_bind (threshold ts 8) (\<lambda>t8. res_bind (threshold ts 9) (\<lambda>t9.
     Inr \<lparr>dvt_motion_no_confidence = t0, dvt_committee_normal = t1,
          dvt_committee_no_confidence = t2, dvt_update_constitution = t3,
          dvt_hard_fork_initiation = t4, dvt_pp_network_group = t5, dvt_pp_economic_group = t6,
          dvt_pp_technical_group = t7, dvt_pp_governance_group = t8,
          dvt_treasury_withdrawal = t9\<rparr>))))))))))"

text \<open>The values of a cost model, an empty list when the service sends none.\<close>

definition cost_values :: "i64 list option \<Rightarrow> i64 list" where
  "cost_values m = (case m of None \<Rightarrow> [] | Some vs \<Rightarrow> vs)"

definition map_conway_pparams :: "rpc_params \<Rightarrow> (u5c_error, ConwayProtParams) outcome" where
  "map_conway_pparams p =
     res_bind (option_unwrap (p_pool_influence p)) (\<lambda>pool_influence.
     res_bind (option_unwrap (p_monetary_expansion p)) (\<lambda>monetary_expansion.
     res_bind (option_unwrap (p_treasury_expansion p)) (\<lambda>treasury_expansion.
     res_bind (option_unwrap (p_prices p)) (\<lambda>(memory, steps).
     res_bind (option_unwrap (p_cost_models p)) (\<lambda>cost_models.
     res_bind (option_unwrap (p_max_execution_units_per_transaction p)) (\<lambda>tx_units.
     res_bind (option_unwrap (p_max_execution_units_per_block p)) (\<lambda>block_units.
     res_bind (option_unwrap (p_pool_voting_thresholds p)) (\<lambda>pool_voting.
     res_bind (option_unwrap (p_drep_voting_thresholds p)) (\<lambda>drep_voting.
     res_bind (option_unwrap (p_min_fee_script_ref_cost_per_byte p)) (\<lambda>ref_cost.
     res_bind (option_unwrap (p_protocol_version p)) (\<lambda>(major, minor).
     res_bind (option_unwrap memory) (\<lambda>mem_price.
     res_bind (option_unwrap steps) (\<lambda>step_price.
     res_bind (map_pool_thresholds pool_voting) (\<lambda>pool_thresholds.
     res_bind (map_drep_thresholds drep_voting) (\<lambda>drep_thresholds.
     Inr \<lparr>c_system_start = ''2022-10-25T00:00:00Z'', c_epoch_length = 86400, c_slot_length = 1,
       c_minfee_a = ucast (p_min_fee_coefficient p), c_minfee_b = ucast (p_min_fee_constant p),
       c_max_block_body_size = ucast (p_max_block_body_size p),
       c_max_transaction_size = ucast (p_max_tx_size p),
       c_max_block_header_size = ucast (p_max_block_header_size p),
       c_key_deposit = p_stake_key_deposit p, c_pool_deposit = p_pool_deposit p,
       c_desired_number_of_stake_pools = ucast (p_desired_number_of_pools p),
       c_protocol_version = (ucast major, ucast minor), c_min_pool_cost = p_min_pool_cost p,
       c_ada_per_utxo_byte = p_coins_per_utxo_byte p,
       c_plutus_v1 = Some (cost_values (cm_plutus_v1 cost_models)),
       c_plutus_v2 = Some (cost_values (cm_plutus_v2 cost_models)),
       c_plutus_v3 = Some (cost_values (cm_plutus_v3 cost_models)),
       c_mem_price = map_rational mem_price, c_step_price = map_rational step_price,
       c_max_tx_ex_units = \<lparr>exu_steps = exu_steps tx_units, exu_memory = exu_memory tx_units\<rparr>,
       c_max_block_ex_units = \<lparr>exu_steps = exu_steps block_units, exu_memory = exu_memory block_units\<rparr>,
       c_max_value_size = ucast (p_max_value_size p),
       c_collateral_percentage = ucast (p_collateral_percentage p),
       c_max_collateral_inputs = ucast (p_max_collateral_inputs p),
       c_expansion_rate = map_rational monetary_expansion,
       c_treasury_growth_rate = map_rational treasury_expansion, c_maximum_epoch = 18,
       c_pool_pledge_influence = map_rational pool_influence,
       c_pool_voting_thresholds = pool_thresholds, c_drep_voting_thresholds = drep_thresholds,
       c_min_committee_size = ucast (p_min_committee_size p),
       c_committee_term_limit = p_committee_term_limit p,
       c_governance_action_validity_period = p_governance_action_validity_period p,
       c_governance_action_deposit = p_governance_action_deposit p,
       c_drep_deposit = p_drep_deposit p, c_drep_inactivity_period = p_drep_inactivity_period p,
       c_minfee_refscript_cost_per_byte = map_rational ref_cost\<rparr>)))))))))))))))"

text \<open>Only the Conway era is supported; any other reaches \<open>unimplemented!\<close> and panics.\<close>

definition map_multi_era_pparams :: "rpc_params \<Rightarrow> Era \<Rightarrow> (u5c_error, ConwayProtParams) outcome" where
  "map_multi_era_pparams p era = (case era of Conway \<Rightarrow> map_conway_pparams p | _ \<Rightarrow> Inl Panic)"

text \<open>The inner options are the fields \<open>values\<close> (defaulting to one without parameters) and \<open>params\<close>.\<close>

definition fetch_pparams ::
  "u5c_error + rpc_params option option \<Rightarrow> Era \<Rightarrow> (u5c_error, ConwayProtParams) outcome" where
  "fetch_pparams answer era =
     (case answer of
        Inl e \<Rightarrow> Inl (Err e)
      | Inr vals \<Rightarrow>
          res_bind (option_unwrap (case vals of None \<Rightarrow> None | Some params \<Rightarrow> params))
            (\<lambda>p. map_multi_era_pparams p era))"

section \<open>The adapter as the stages see it\<close>

text \<open>
  \<open>trait U5cDataAdapter\<close>: what its three queries answer at the moment they are called.
  \<open>u5c_impl\<close> is the implementation over the remote service.
\<close>

record u5c_adapter =
  a_tip :: "(u5c_error, point) outcome"
  a_utxos :: "utxo_ref list \<Rightarrow> Era \<Rightarrow> (u5c_error, utxo_map) outcome"
  a_pparams :: "Era \<Rightarrow> (u5c_error, ConwayProtParams) outcome"

record u5c_service =
  svc_legal :: "string \<Rightarrow> string \<Rightarrow> bool"
  svc_metadata :: "(string \<times> string) list"
  svc_tip :: "u5c_error + point option"
  svc_utxos :: "utxo_ref list \<Rightarrow> u5c_error + any_utxo list"
  svc_params :: "u5c_error + rpc_params option option"
  svc_to_hash :: "bytes \<Rightarrow> bytes option"

definition u5c_impl :: "u5c_service \<Rightarrow> u5c_adapter" where
  "u5c_impl s =
     \<lparr>a_tip = res_bind (interceptor (svc_legal s) (svc_metadata s)) (\<lambda>_. fetch_tip (svc_tip s)),
      a_utxos = (\<lambda>refs era. res_bind (interceptor (svc_legal s) (svc_metadata s))
                   (\<lambda>_. fetch_utxos (svc_utxos s) (svc_to_hash s) refs era)),
      a_pparams = (\<lambda>era. res_bind (interceptor (svc_legal s) (svc_metadata s))
                   (\<lambda>_. fetch_pparams (svc_params s) era))\<rparr>"

section \<open>Relays\<close>

definition mock_relays :: "string list" where
  "mock_relays =
     [''109.205.181.113:7900'', ''194.163.149.210:6000'', ''preview.adastack.net:3001'',
      ''pv-relays.digitalfortress.online:8001'', ''preview-relays.onyxstakepool.com:3001'',
      ''preview.frcan.com:6010'', ''preview.leadstakepool.com:3001'',
      ''preview.leadstakepool.com:3002'', ''relay.preview.cardanostakehouse.com:11000'',
      ''130.162.231.122:6001'']"

definition get_relays :: "string list \<Rightarrow> string list" where
  "get_relays relays = relays"

section \<open>Parameters survive the translation\<close>

text \<open>What the translation unwraps or indexes.\<close>

definition params_complete :: "rpc_params \<Rightarrow> bool" where
  "params_complete p \<longleftrightarrow>
     p_pool_influence p \<noteq> None \<and> p_monetary_expansion p \<noteq> None \<and> p_treasury_expansion p \<noteq> None \<and>
     (\<exists>m s. p_prices p = Some (Some m, Some s)) \<and> p_cost_models p \<noteq> None \<and>
     p_max_execution_units_per_transaction p \<noteq> None \<and> p_max_execution_units_per_block p \<noteq> None \<and>
     (\<exists>ts. p_pool_voting_thresholds p = Some ts \<and> 5 \<le> length ts) \<and>
     (\<exists>ts. p_drep_voting_thresholds p = Some ts \<and> 10 \<le> length ts) \<and>
     p_min_fee_script_ref_cost_per_byte p \<noteq> None \<and> p_protocol_version p \<noteq> None"

lemma threshold_cases: "threshold ts i = (if i < length ts then Inr (map_rational (ts ! i)) else Inl Panic)"
  by (simp add: threshold_def index_vec_def)

lemma map_pool_thresholds_iff:
  "map_pool_thresholds ts =
     (if 5 \<le> length ts
      then Inr \<lparr>pvt_motion_no_confidence = map_rational (ts ! 0), pvt_committee_normal = map_rational (ts ! 1),
          pvt_committee_no_confidence = map_rational (ts ! 2), pvt_hard_fork_initiation = map_rational (ts ! 3),
          pvt_security_voting_threshold = map_rational (ts ! 4)\<rparr>
      else Inl Panic)"
  by (simp add: map_pool_thresholds_def threshold_cases)

lemma map_drep_thresholds_iff:
  "map_drep_thresholds ts =
     (if 10 \<le> length ts
      then Inr \<lparr>dvt_motion_no_confidence = map_rational (ts ! 0), dvt_committee_normal = map_rational (ts ! 1),
          dvt_committee_no_confidence = map_rational (ts ! 2), dvt_update_constitution = map_rational (ts ! 3),
          dvt_hard_fork_initiation = map_rational (ts ! 4), dvt_pp_network_group = map_rational (ts ! 5),
          dvt_pp_economic_group = map_rational (ts ! 6), dvt_pp_technical_group = map_rational (ts ! 7),
          dvt_pp_governance_group = map_rational (ts ! 8), dvt_treasury_withdrawal = map_rational (ts ! 9)\<rparr>
      else Inl Panic)"
  by (simp add: map_drep_thresholds_def threshold_cases)

text \<open>An outcome that can panic but never is an \<open>Err\<close>.\<close>

definition never_err :: "('e, 'a) outcome \<Rightarrow> bool" where
  "never_err r \<longleftrightarrow> (\<forall>e. r \<noteq> Inl (Err e))"

lemma never_err_bind: "never_err r \<Longrightarrow> (\<And>x. never_err (f x)) \<Longrightarrow> never_err (res_bind r f)"
  by (cases r) (auto simp: never_err_def)

lemma never_err_intros:
  "never_err (Inr x)" "never_err (option_unwrap y)" "never_err (map_pool_thresholds ts)"
  "never_err (map_drep_thresholds ts)"
     apply (simp_all add: never_err_def map_pool_thresholds_iff map_drep_thresholds_iff)
  by (cases y) simp_all

lemma never_err_map_conway: "never_err (map_conway_pparams p)"
  unfolding map_conway_pparams_def case_prod_beta
  by (intro never_err_bind never_err_intros)

lemma option_unwrap_Inr [simp]: "option_unwrap x = Inr y \<longleftrightarrow> x = Some y"
  by (cases x) auto

lemma map_conway_pparams_complete: "map_conway_pparams p = Inr c \<Longrightarrow> params_complete p"
  by (auto simp: map_conway_pparams_def params_complete_def map_pool_thresholds_iff
      map_drep_thresholds_iff split: if_splits)

lemma map_conway_pparams_Panic: "\<not> params_complete p \<Longrightarrow> map_conway_pparams p = Inl Panic"
  using map_conway_pparams_complete [of p] never_err_map_conway [of p]
  by (cases "map_conway_pparams p"; cases "projl (map_conway_pparams p)") (auto simp: never_err_def)

lemma map_conway_pparams_ok: "params_complete p \<Longrightarrow> \<exists>c. map_conway_pparams p = Inr c"
  by (auto simp: map_conway_pparams_def params_complete_def map_pool_thresholds_iff
      map_drep_thresholds_iff simp del: res_bind_eq_Inr)

lemma signed_rational_exact:
  assumes "0 \<le> sint (rr_numerator r)"
  shows "uint (rn_numerator (map_rational r)) = sint (rr_numerator r)"
    "uint (rn_denominator (map_rational r)) = uint (rr_denominator r)"
proof -
  have lt: "sint (rr_numerator r) < 2 ^ 31" using sint_lt [of "rr_numerator r"] by simp
  have "uint (scast (rr_numerator r) :: u64) = take_bit 64 (sint (rr_numerator r))"
    unfolding scast_eq by (simp only: unsigned_of_int) simp
  also have "\<dots> = sint (rr_numerator r)"
    using assms lt by (intro take_bit_int_eq_self) simp_all
  finally show "uint (rn_numerator (map_rational r)) = sint (rr_numerator r)"
    by (simp add: map_rational_def)
  have "uint (rr_denominator r) < 2 ^ 32" using uint_lt2p [of "rr_denominator r"] by simp
  then have "take_bit 64 (uint (rr_denominator r)) = uint (rr_denominator r)"
    by (intro take_bit_int_eq_self) simp_all
  then show "uint (rn_denominator (map_rational r)) = uint (rr_denominator r)"
    by (simp add: map_rational_def unsigned_ucast_eq)
qed

section \<open>Collected outputs\<close>

text \<open>The entry an item of the answer contributes, when its reference is readable.\<close>

definition utxo_entry :: "(bytes \<Rightarrow> bytes option) \<Rightarrow> Era \<Rightarrow> any_utxo \<Rightarrow> (utxo_ref \<times> era_cbor) option" where
  "utxo_entry to_hash era u =
     (case u_txo_ref u of
        None \<Rightarrow> None
      | Some (hash, index) \<Rightarrow> map_option (\<lambda>h. ((h, index), (era, u_native_bytes u))) (to_hash hash))"

lemma collect_utxos_ok:
  "collect_utxos to_hash era items m0 = Inr m \<Longrightarrow> distinct (map fst m0) \<Longrightarrow>
   \<exists>es. map (utxo_entry to_hash era) items = map Some es \<and> distinct (map fst m) \<and>
     map_of m = map_of m0 ++ map_of (rev es)"
proof (induction items arbitrary: m0)
  case (Cons u us)
  from Cons.prems(1) obtain hash index h where
    u: "u_txo_ref u = Some (hash, index)" "to_hash hash = Some h"
    and rest: "collect_utxos to_hash era us (AList.update (h, index) (era, u_native_bytes u) m0) = Inr m"
    by auto
  have "distinct (map fst (AList.update (h, index) (era, u_native_bytes u) m0))"
    using Cons.prems(2) by (rule distinct_update)
  from Cons.IH [OF rest this] obtain es where
    es: "map (utxo_entry to_hash era) us = map Some es" "distinct (map fst m)"
      "map_of m = map_of (AList.update (h, index) (era, u_native_bytes u) m0) ++ map_of (rev es)"
    by blast
  let ?e = "((h, index), (era, u_native_bytes u))"
  have "utxo_entry to_hash era u = Some ?e" using u by (simp add: utxo_entry_def)
  moreover have "map_of m = map_of m0 ++ map_of (rev (?e # es))"
    using es(3) by (simp add: update_conv' map_add_assoc)
  ultimately show ?case using es(1,2) by (intro exI [of _ "?e # es"]) simp
qed simp

section \<open>Properties of the ledger adapter\<close>

text \<open>A complete set of parameters for the witnesses.\<close>

definition demo_rational :: rpc_rational where
  "demo_rational = \<lparr>rr_numerator = 3, rr_denominator = 10\<rparr>"

definition demo_params :: rpc_params where
  "demo_params =
     \<lparr>p_coins_per_utxo_byte = 4310, p_max_tx_size = 16384, p_min_fee_coefficient = 44,
      p_min_fee_constant = 155381, p_max_block_body_size = 90112, p_max_block_header_size = 1100,
      p_stake_key_deposit = 2000000, p_pool_deposit = 500000000, p_desired_number_of_pools = 500,
      p_pool_influence = Some demo_rational, p_monetary_expansion = Some demo_rational,
      p_treasury_expansion = Some demo_rational, p_min_pool_cost = 170000000,
      p_protocol_version = Some (9, 0), p_max_value_size = 5000, p_collateral_percentage = 150,
      p_max_collateral_inputs = 3,
      p_cost_models = Some \<lparr>cm_plutus_v1 = Some [1], cm_plutus_v2 = None, cm_plutus_v3 = Some [2]\<rparr>,
      p_prices = Some (Some demo_rational, Some demo_rational),
      p_max_execution_units_per_transaction = Some \<lparr>exu_steps = 10, exu_memory = 14\<rparr>,
      p_max_execution_units_per_block = Some \<lparr>exu_steps = 20, exu_memory = 62\<rparr>,
      p_min_fee_script_ref_cost_per_byte = Some demo_rational,
      p_pool_voting_thresholds = Some (replicate 5 demo_rational),
      p_drep_voting_thresholds = Some (replicate 10 demo_rational), p_min_committee_size = 7,
      p_committee_term_limit = 146, p_governance_action_validity_period = 6,
      p_governance_action_deposit = 100, p_drep_deposit = 500, p_drep_inactivity_period = 20\<rparr>"

text \<open>What the translation has to keep: every value, as a number, that fits the type the ledger has for it.\<close>

definition narrow_is :: "u32 \<Rightarrow> u64 \<Rightarrow> bool" where
  "narrow_is a b \<longleftrightarrow> unat b < 2 ^ 32 \<longrightarrow> unat a = unat b"

definition rational_is :: "rational \<Rightarrow> rpc_rational \<Rightarrow> bool" where
  "rational_is q r \<longleftrightarrow> 0 \<le> sint (rr_numerator r) \<longrightarrow>
     uint (rn_numerator q) = sint (rr_numerator r) \<and> uint (rn_denominator q) = uint (rr_denominator r)"

definition rationals_kept :: "rpc_params \<Rightarrow> ConwayProtParams \<Rightarrow> bool" where
  "rationals_kept p c \<longleftrightarrow>
     rational_is (c_pool_pledge_influence c) (the (p_pool_influence p)) \<and>
     rational_is (c_expansion_rate c) (the (p_monetary_expansion p)) \<and>
     rational_is (c_treasury_growth_rate c) (the (p_treasury_expansion p)) \<and>
     rational_is (c_mem_price c) (the (fst (the (p_prices p)))) \<and>
     rational_is (c_step_price c) (the (snd (the (p_prices p)))) \<and>
     rational_is (c_minfee_refscript_cost_per_byte c) (the (p_min_fee_script_ref_cost_per_byte p))"

definition thresholds_kept :: "rpc_params \<Rightarrow> ConwayProtParams \<Rightarrow> bool" where
  "thresholds_kept p c \<longleftrightarrow>
     (let v = c_pool_voting_thresholds c; w = c_drep_voting_thresholds c in
      list_all2 rational_is
        [pvt_motion_no_confidence v, pvt_committee_normal v, pvt_committee_no_confidence v, pvt_hard_fork_initiation v,
         pvt_security_voting_threshold v] (take 5 (the (p_pool_voting_thresholds p))) \<and>
      list_all2 rational_is
        [dvt_motion_no_confidence w, dvt_committee_normal w, dvt_committee_no_confidence w, dvt_update_constitution w,
         dvt_hard_fork_initiation w, dvt_pp_network_group w, dvt_pp_economic_group w, dvt_pp_technical_group w,
         dvt_pp_governance_group w, dvt_treasury_withdrawal w] (take 10 (the (p_drep_voting_thresholds p))))"

definition integers_kept :: "rpc_params \<Rightarrow> ConwayProtParams \<Rightarrow> bool" where
  "integers_kept p c \<longleftrightarrow>
     narrow_is (c_minfee_a c) (p_min_fee_coefficient p) \<and> narrow_is (c_minfee_b c) (p_min_fee_constant p) \<and>
     narrow_is (c_max_block_body_size c) (p_max_block_body_size p) \<and>
     narrow_is (c_max_transaction_size c) (p_max_tx_size p) \<and>
     narrow_is (c_max_block_header_size c) (p_max_block_header_size p) \<and>
     narrow_is (c_desired_number_of_stake_pools c) (p_desired_number_of_pools p) \<and>
     narrow_is (c_max_value_size c) (p_max_value_size p) \<and>
     narrow_is (c_collateral_percentage c) (p_collateral_percentage p) \<and>
     narrow_is (c_max_collateral_inputs c) (p_max_collateral_inputs p) \<and>
     c_key_deposit c = p_stake_key_deposit p \<and> c_pool_deposit c = p_pool_deposit p \<and>
     c_min_pool_cost c = p_min_pool_cost p \<and> c_ada_per_utxo_byte c = p_coins_per_utxo_byte p \<and>
     unat (c_min_committee_size c) = unat (p_min_committee_size p) \<and>
     c_committee_term_limit c = p_committee_term_limit p \<and>
     c_governance_action_validity_period c = p_governance_action_validity_period p \<and>
     c_governance_action_deposit c = p_governance_action_deposit p \<and>
     c_drep_deposit c = p_drep_deposit p \<and> c_drep_inactivity_period c = p_drep_inactivity_period p \<and>
     map_prod unat unat (c_protocol_version c) = map_prod unat unat (the (p_protocol_version p))"

definition models_kept :: "rpc_params \<Rightarrow> ConwayProtParams \<Rightarrow> bool" where
  "models_kept p c \<longleftrightarrow>
     (let m = the (p_cost_models p) in
      c_plutus_v1 c = Some (cost_values (cm_plutus_v1 m)) \<and> c_plutus_v2 c = Some (cost_values (cm_plutus_v2 m)) \<and>
      c_plutus_v3 c = Some (cost_values (cm_plutus_v3 m))) \<and>
     p_max_execution_units_per_transaction p = Some (c_max_tx_ex_units c) \<and>
     p_max_execution_units_per_block p = Some (c_max_block_ex_units c)"

lemma narrow_is_ucast: "narrow_is (ucast b) b"
  by (simp add: narrow_is_def unat_ucast_mod)

lemma rational_is_map: "rational_is (map_rational r) r"
  using signed_rational_exact [of r] by (simp add: rational_is_def)

lemma wide_ucast: "unat (ucast (w :: u32) :: u64) = unat w"
proof -
  have "unat w < 2 ^ 32" using unsigned_less [of w, where 'a = nat] by simp
  then show ?thesis by (simp add: unat_ucast_mod)
qed

text \<open>The translated parameters, field by field.\<close>

lemma map_conway_pparams_values:
  assumes "map_conway_pparams p = Inr c"
  shows "integers_kept p c" "rationals_kept p c" "thresholds_kept p c" "models_kept p c"
proof -
  from map_conway_pparams_complete [OF assms] obtain infl mon tre mem steps cm txu blk pv dv ref major minor where
    v: "p_pool_influence p = Some infl" "p_monetary_expansion p = Some mon" "p_treasury_expansion p = Some tre"
      "p_prices p = Some (Some mem, Some steps)" "p_cost_models p = Some cm"
      "p_max_execution_units_per_transaction p = Some txu" "p_max_execution_units_per_block p = Some blk"
      "p_pool_voting_thresholds p = Some pv" "5 \<le> length pv" "p_drep_voting_thresholds p = Some dv" "10 \<le> length dv"
      "p_min_fee_script_ref_cost_per_byte p = Some ref" "p_protocol_version p = Some (major, minor)"
    by (auto simp: params_complete_def)
  note defs = map_conway_pparams_def map_pool_thresholds_iff map_drep_thresholds_iff v
  show "integers_kept p c" using assms by (auto simp: defs integers_kept_def narrow_is_ucast wide_ucast)
  show "rationals_kept p c" using assms by (auto simp: defs rationals_kept_def rational_is_map)
  show "models_kept p c" using assms by (auto simp: defs models_kept_def)
  have "take 5 pv = map (\<lambda>i. pv ! i) [0, 1, 2, 3, 4]" "take 10 dv = map (\<lambda>i. dv ! i) [0, 1, 2, 3, 4, 5, 6, 7, 8, 9]"
  proof -
    have "take 5 pv = map (\<lambda>i. pv ! i) [0..<5]" "take 10 dv = map (\<lambda>i. dv ! i) [0..<10]"
      using v(9,11) by (simp_all add: list_eq_iff_nth_eq)
    moreover have "[0..<5] = [0, 1, 2, 3, 4 :: nat]" "[0..<10] = [0, 1, 2, 3, 4, 5, 6, 7, 8, 9 :: nat]" by code_simp+
    ultimately show "take 5 pv = map (\<lambda>i. pv ! i) [0, 1, 2, 3, 4]" "take 10 dv = map (\<lambda>i. dv ! i) [0, 1, 2, 3, 4, 5, 6, 7, 8, 9]"
      by simp_all
  qed
  then show "thresholds_kept p c" using assms by (auto simp: defs thresholds_kept_def rational_is_map Let_def)
qed



text \<open>
  The outputs a query collects are those of the answer: every item was readable, the keys
  are distinct, an output is found under its reference with the bytes of the last item that
  carries it, tagged with the era asked for, and nothing else is found.
\<close>

theorem fetch_utxos_collects:
  assumes "fetch_utxos read_utxos to_hash refs era = Inr m"
  shows "\<exists>items es. read_utxos refs = Inr items \<and> map (utxo_entry to_hash era) items = map Some es \<and>
     distinct (map fst m) \<and> map_of m = map_of (rev es)"
  using assms collect_utxos_ok [of to_hash era _ "[]" m]
  by (auto simp: fetch_utxos_def split: sum.splits)

theorem fetch_utxos_collects_witness:
  "\<exists>m. fetch_utxos (\<lambda>_. Inr [\<lparr>u_native_bytes = [1], u_txo_ref = Some ([7], 0)\<rparr>,
        \<lparr>u_native_bytes = [2], u_txo_ref = Some ([7], 0)\<rparr>]) Some [([7], 0)] Conway = Inr m \<and>
     map_of m ([7], 0) = Some (Conway, [2]) \<and> distinct (map fst m)"
proof -
  let ?items = "[\<lparr>u_native_bytes = [1], u_txo_ref = Some ([7], 0)\<rparr>,
        \<lparr>u_native_bytes = [2], u_txo_ref = Some ([7], 0)\<rparr>] :: any_utxo list"
  obtain m where m: "fetch_utxos (\<lambda>_. Inr ?items) Some [([7], 0)] Conway = Inr m"
    by (simp add: fetch_utxos_def)
  from fetch_utxos_collects [OF m] obtain items es where
    "Inr ?items = (Inr items :: u5c_error + any_utxo list)" "map (utxo_entry Some Conway) items = map Some es"
    "distinct (map fst m)" "map_of m = map_of (rev es)"
    by blast
  with m show ?thesis by (auto simp: utxo_entry_def)
qed

end
