(* ===== verification/Tx_Validation.thy ===== *)
theory Tx_Validation
  imports Ledger_U5c
begin

text \<open>
  Validation and evaluation of a transaction, \<^verbatim>\<open>src/validation/mod.rs\<close>.

  What comes from the \<open>pallas\<close> package is a parameter, the record \<open>pallas\<close>: decoding of bytes, the
  hash, the era and the inputs of a decoded transaction, the network of a magic number, decoding
  of an output, and the two phases of the ledger rules.  A decoded transaction, output and report
  are of arbitrary types.
\<close>

section \<open>What is used of pallas\<close>

record validation_env =
  env_prot_params :: ConwayProtParams
  env_prot_magic :: u32
  env_block_slot :: u64
  env_network_id :: u8

record ('tx, 'out, 'rep) pallas =
  pl_decode :: "bytes \<Rightarrow> 'tx option"
  pl_hash :: "'tx \<Rightarrow> bytes"
  pl_era :: "'tx \<Rightarrow> Era"
  pl_requires :: "'tx \<Rightarrow> (bytes \<times> u64) list"
  pl_network_id :: "u64 \<Rightarrow> u64 option"
  pl_output :: "era_cbor \<Rightarrow> 'out option"
  pl_phase1 :: "'tx \<Rightarrow> validation_env \<Rightarrow> ((bytes \<times> u64) \<times> 'out) list \<Rightarrow> bool"
  pl_phase2 :: "'tx \<Rightarrow> ConwayProtParams \<Rightarrow> (utxo_ref \<times> era_cbor) list \<Rightarrow> 'rep option"

datatype validation_error = AdapterError u5c_error | BadOutput | Phase1Failed | Phase2Failed

section \<open>The two checks\<close>

text \<open>The \<open>?\<close> on an answer of the adapter.\<close>

definition adapter_try :: "(u5c_error, 'a) outcome \<Rightarrow> (validation_error, 'a) outcome" where
  "adapter_try r = (case r of Inl Panic \<Rightarrow> Inl Panic | Inl (Err e) \<Rightarrow> Inl (Err (AdapterError e)) | Inr x \<Rightarrow> Inr x)"

text \<open>The references of the inputs; the index is cut down to 32 bits.\<close>

definition input_refs :: "('tx, 'out, 'rep) pallas \<Rightarrow> 'tx \<Rightarrow> utxo_ref list" where
  "input_refs pl tx = map (\<lambda>(hash, index). (hash, ucast index)) (pl_requires pl tx)"

fun decode_outputs ::
  "('tx, 'out, 'rep) pallas \<Rightarrow> utxo_map \<Rightarrow> (validation_error, ((bytes \<times> u64) \<times> 'out) list) outcome" where
  "decode_outputs pl [] = Inr []"
| "decode_outputs pl (((tx_hash, index), eracbor) # rest) =
     res_bind (ok_or BadOutput (pl_output pl eracbor)) (\<lambda>out.
     res_bind (decode_outputs pl rest) (\<lambda>outs. Inr (((tx_hash, ucast index), out) # outs)))"

definition network_magic :: u32 where
  "network_magic = 2"

definition validate_tx ::
  "('tx, 'out, 'rep) pallas \<Rightarrow> u5c_adapter \<Rightarrow> 'tx \<Rightarrow> (validation_error, unit) outcome" where
  "validate_tx pl a tx =
     res_bind (adapter_try (a_tip a)) (\<lambda>(block_slot, block_hash_vec).
     res_bind (if length block_hash_vec = 32 then Inr () else Inl Panic) (\<lambda>_.
     let era = pl_era pl tx in
     res_bind (adapter_try (a_pparams a era)) (\<lambda>pparams.
     res_bind (option_unwrap (pl_network_id pl (ucast network_magic))) (\<lambda>network_id.
     let env = \<lparr>env_prot_params = pparams, env_prot_magic = network_magic,
                env_block_slot = block_slot, env_network_id = ucast network_id\<rparr> in
     res_bind (adapter_try (a_utxos a (input_refs pl tx) era)) (\<lambda>utxos.
     res_bind (decode_outputs pl utxos) (\<lambda>pallas_utxos.
     if pl_phase1 pl tx env pallas_utxos then Inr () else Inl (Err Phase1Failed)))))))"

definition evaluate_tx ::
  "('tx, 'out, 'rep) pallas \<Rightarrow> u5c_adapter \<Rightarrow> 'tx \<Rightarrow> (validation_error, 'rep) outcome" where
  "evaluate_tx pl a tx =
     (let era = pl_era pl tx in
      res_bind (adapter_try (a_pparams a era)) (\<lambda>pparams.
      res_bind (adapter_try (a_utxos a (input_refs pl tx) era)) (\<lambda>utxos.
      ok_or Phase2Failed (pl_phase2 pl tx pparams utxos))))"

section \<open>When a transaction passes\<close>

lemma adapter_try_Inr [simp]: "adapter_try r = Inr x \<longleftrightarrow> r = Inr x"
  by (auto simp: adapter_try_def split: sum.splits fault.splits)

lemma adapter_try_simps [simp]:
  "adapter_try (Inl Panic) = Inl Panic" "adapter_try (Inr x) = Inr x"
  "adapter_try (Inl (Err e)) = Inl (Err (AdapterError e))"
  by (simp_all add: adapter_try_def)

lemma decode_outputs_ok:
  "decode_outputs pl utxos = Inr outs \<Longrightarrow>
   map fst outs = map (\<lambda>((h, i), _). (h, ucast i)) utxos \<and>
   map (\<lambda>(_, c). pl_output pl c) utxos = map (\<lambda>(_, out). Some out) outs"
proof (induction pl utxos arbitrary: outs rule: decode_outputs.induct)
  case (2 pl h i c rest)
  then obtain out outs' where "pl_output pl c = Some out" "decode_outputs pl rest = Inr outs'"
    "outs = ((h, ucast i), out) # outs'"
    by (cases "pl_output pl c") auto
  with 2 show ?case by simp
qed simp

lemma validate_tx_ok:
  assumes "validate_tx pl a tx = Inr ()"
  obtains slot hash pp net utxos outs where
    "a_tip a = Inr (slot, hash)" "length hash = 32" "a_pparams a (pl_era pl tx) = Inr pp"
    "pl_network_id pl 2 = Some net" "a_utxos a (input_refs pl tx) (pl_era pl tx) = Inr utxos"
    "decode_outputs pl utxos = Inr outs"
    "pl_phase1 pl tx \<lparr>env_prot_params = pp, env_prot_magic = 2, env_block_slot = slot,
       env_network_id = ucast net\<rparr> outs"
proof -
  have n: "(ucast network_magic :: u64) = 2" "network_magic = 2" by (simp_all add: network_magic_def)
  from assms show thesis
    unfolding validate_tx_def Let_def n
    by (auto simp: split: if_splits prod.splits intro!: that)
qed

lemma only_conway:
  assumes "a_pparams (u5c_impl s) era = Inr pp"
  shows "era = Conway"
  using assms
  by (cases era) (auto simp: u5c_impl_def fetch_pparams_def map_multi_era_pparams_def split: sum.splits)

section \<open>Properties of the checks\<close>

text \<open>
  A transaction passes validation only against the chain's own data: the tip has a 32-byte
  hash, the protocol parameters are complete and of the Conway era, every output the service
  returned decodes, and the first phase of the ledger rules accepts the transaction at the slot of
  the tip with exactly the decoded outputs.  Passing evaluation in turn means that the second
  phase has produced a report for the same inputs.
\<close>

theorem validation_sound:
  "(validate_tx pl (u5c_impl s) tx = Inr () \<longrightarrow>
      pl_era pl tx = Conway \<and>
      (\<exists>slot hash pp utxos outs net.
         fetch_tip (svc_tip s) = Inr (slot, hash) \<and> length hash = 32 \<and>
         fetch_pparams (svc_params s) Conway = Inr pp \<and>
         fetch_utxos (svc_utxos s) (svc_to_hash s) (input_refs pl tx) Conway = Inr utxos \<and>
         map (\<lambda>(_, c). pl_output pl c) utxos = map (\<lambda>(_, out). Some out) outs \<and>
         pl_phase1 pl tx \<lparr>env_prot_params = pp, env_prot_magic = 2, env_block_slot = slot,
           env_network_id = net\<rparr> outs)) \<and>
   (evaluate_tx pl (u5c_impl s) tx = Inr rep \<longrightarrow>
      (\<exists>pp utxos. fetch_utxos (svc_utxos s) (svc_to_hash s) (input_refs pl tx) Conway = Inr utxos \<and>
         pl_phase2 pl tx pp utxos = Some rep))"
proof (intro conjI impI)
  assume "validate_tx pl (u5c_impl s) tx = Inr ()"
  then obtain slot hash pp net utxos outs where v:
    "a_tip (u5c_impl s) = Inr (slot, hash)" "length hash = 32" "a_pparams (u5c_impl s) (pl_era pl tx) = Inr pp"
    "a_utxos (u5c_impl s) (input_refs pl tx) (pl_era pl tx) = Inr utxos" "decode_outputs pl utxos = Inr outs"
    "pl_phase1 pl tx \<lparr>env_prot_params = pp, env_prot_magic = 2, env_block_slot = slot,
       env_network_id = ucast net\<rparr> outs" "pl_network_id pl 2 = Some net"
    by (rule validate_tx_ok) blast
  show era: "pl_era pl tx = Conway" using only_conway v(3) .
  show "\<exists>slot hash pp utxos outs net.
         fetch_tip (svc_tip s) = Inr (slot, hash) \<and> length hash = 32 \<and>
         fetch_pparams (svc_params s) Conway = Inr pp \<and>
         fetch_utxos (svc_utxos s) (svc_to_hash s) (input_refs pl tx) Conway = Inr utxos \<and>
         map (\<lambda>(_, c). pl_output pl c) utxos = map (\<lambda>(_, out). Some out) outs \<and>
         pl_phase1 pl tx \<lparr>env_prot_params = pp, env_prot_magic = 2, env_block_slot = slot,
           env_network_id = net\<rparr> outs"
    using v decode_outputs_ok [OF v(5)] unfolding era by (auto simp: u5c_impl_def)
next
  assume "evaluate_tx pl (u5c_impl s) tx = Inr rep"
  then obtain pp utxos where v: "a_pparams (u5c_impl s) (pl_era pl tx) = Inr pp"
    "a_utxos (u5c_impl s) (input_refs pl tx) (pl_era pl tx) = Inr utxos" "pl_phase2 pl tx pp utxos = Some rep"
    by (auto simp: evaluate_tx_def Let_def ok_or_def split: option.splits)
  with only_conway [OF v(1)] show "\<exists>pp utxos.
      fetch_utxos (svc_utxos s) (svc_to_hash s) (input_refs pl tx) Conway = Inr utxos \<and>
      pl_phase2 pl tx pp utxos = Some rep"
    by (auto simp: u5c_impl_def)
qed

text \<open>A service, and a ledger in which a transaction is its number and everything is accepted.\<close>

definition demo_pallas :: "(nat, bytes, nat) pallas" where
  "demo_pallas =
     \<lparr>pl_decode = (\<lambda>b. if b = [] then None else Some (length b)), pl_hash = (\<lambda>n. [of_nat n]),
      pl_era = (\<lambda>n. if n = 9 then Babbage else Conway), pl_requires = (\<lambda>n. [([7], 0)]),
      pl_network_id = (\<lambda>_. Some 0), pl_output = (\<lambda>(_, b). Some b),
      pl_phase1 = (\<lambda>n _ _. n \<noteq> 5), pl_phase2 = (\<lambda>n _ _. if n = 6 then None else Some n)\<rparr>"

definition demo_service :: u5c_service where
  "demo_service =
     \<lparr>svc_legal = (\<lambda>_ _. True), svc_metadata = [], svc_tip = Inr (Some (100, replicate 32 0)),
      svc_utxos = (\<lambda>_. Inr [\<lparr>u_native_bytes = [1], u_txo_ref = Some ([7], 0)\<rparr>]),
      svc_params = Inr (Some (Some demo_params)), svc_to_hash = Some\<rparr>"

lemma demo_pparams: "\<exists>pp. a_pparams (u5c_impl demo_service) Conway = Inr pp"
proof -
  have "params_complete demo_params" by (simp add: params_complete_def demo_params_def)
  then show ?thesis
    using map_conway_pparams_ok [of demo_params]
    by (auto simp: u5c_impl_def demo_service_def interceptor_def fetch_pparams_def map_multi_era_pparams_def)
qed

lemma demo_accepts:
  "n \<noteq> 5 \<Longrightarrow> n \<noteq> 9 \<Longrightarrow> validate_tx demo_pallas (u5c_impl demo_service) n = Inr ()"
  "n \<noteq> 6 \<Longrightarrow> n \<noteq> 9 \<Longrightarrow> evaluate_tx demo_pallas (u5c_impl demo_service) n = Inr n"
proof -
  obtain pp where "a_pparams (u5c_impl demo_service) Conway = Inr pp" using demo_pparams by blast
  moreover have "a_tip (u5c_impl demo_service) = Inr (100, replicate 32 0)"
    "a_utxos (u5c_impl demo_service) refs Conway = Inr [(([7], 0), (Conway, [1]))]" for refs
    by (simp_all add: u5c_impl_def demo_service_def interceptor_def fetch_tip_def fetch_utxos_def)
  ultimately show "n \<noteq> 5 \<Longrightarrow> n \<noteq> 9 \<Longrightarrow> validate_tx demo_pallas (u5c_impl demo_service) n = Inr ()"
    "n \<noteq> 6 \<Longrightarrow> n \<noteq> 9 \<Longrightarrow> evaluate_tx demo_pallas (u5c_impl demo_service) n = Inr n"
    by (simp_all add: validate_tx_def evaluate_tx_def demo_pallas_def Let_def)
qed

theorem validation_sound_witness:
  "\<exists>slot hash. fetch_tip (svc_tip demo_service) = Inr (slot, hash) \<and> length hash = 32 \<and>
     pl_era demo_pallas 3 = Conway"
proof -
  have "validate_tx demo_pallas (u5c_impl demo_service) 3 = Inr ()" by (rule demo_accepts) simp_all
  with validation_sound [of demo_pallas demo_service 3 0] show ?thesis by blast
qed

text \<open>
  A transaction of another era is not rejected but panics, both checks alike, as soon as the
  service answers with a tip and parameters.
\<close>

theorem other_era_panics:
  assumes "pl_era pl tx \<noteq> Conway" "\<forall>(k, v)\<in>set (svc_metadata s). svc_legal s k v"
    "svc_tip s = Inr (Some (slot, hash))" "svc_params s = Inr vals"
  shows "validate_tx pl (u5c_impl s) tx = Inl Panic \<and> evaluate_tx pl (u5c_impl s) tx = Inl Panic"
proof -
  have "a_pparams (u5c_impl s) (pl_era pl tx) = Inl Panic"
    using assms by (cases vals; cases "the vals"; cases "pl_era pl tx")
      (auto simp: u5c_impl_def interceptor_def fetch_pparams_def map_multi_era_pparams_def)
  then show ?thesis
    using assms(2,3)
    by (auto simp: validate_tx_def evaluate_tx_def Let_def u5c_impl_def interceptor_def fetch_tip_def)
qed

theorem other_era_panics_witness:
  "validate_tx demo_pallas (u5c_impl demo_service) 9 = Inl Panic"
  using other_era_panics [of demo_pallas 9 demo_service 100 "replicate 32 0" "Some (Some demo_params)"]
  by (simp add: demo_pallas_def demo_service_def)

end
