(* ===== verification/Signing.thy ===== *)
theory Signing
  imports Tx_Validation
begin

text \<open>
  Server-side signing, \<^verbatim>\<open>src/signing\<close>: the key derivation of \<^verbatim>\<open>key/derive.rs\<close>, the signing of
  \<^verbatim>\<open>key/sign.rs\<close> and the vault client of \<^verbatim>\<open>hashicorp.rs\<close>.

  The cryptographic packages and the vault are parameters: \<open>key_lib\<close> holds the functions the
  code calls (keys, hashes and signatures as bytes), \<open>vault\<close> the answer of the secret store.
\<close>

section \<open>Keys\<close>

record key_lib =
  kl_entropy :: "string \<Rightarrow> bytes option"
  kl_pbkdf2 :: "string \<Rightarrow> bytes \<Rightarrow> u32 \<Rightarrow> bytes"
  kl_normalize :: "bytes \<Rightarrow> bytes"
  kl_derive :: "bytes \<Rightarrow> u32 \<Rightarrow> bytes"
  kl_public :: "bytes \<Rightarrow> bytes"
  kl_extended :: "bytes \<Rightarrow> bytes"
  kl_public_key :: "bytes \<Rightarrow> bytes"
  kl_hash224 :: "bytes \<Rightarrow> bytes"
  kl_verify :: "bytes \<Rightarrow> bytes \<Rightarrow> bytes \<Rightarrow> bool"
  kl_signature :: "bytes \<Rightarrow> bytes option"

datatype signing_error = ClientError | ConfigError | SecretNotFound | Deserialization | Decoding

definition ITER :: u32 where
  "ITER = 4096"

definition from_bip39_mnenomic :: "key_lib \<Rightarrow> string \<Rightarrow> string \<Rightarrow> bytes option" where
  "from_bip39_mnenomic kl mnemonic password =
     map_option (\<lambda>entropy. kl_normalize kl (kl_pbkdf2 kl password entropy ITER)) (kl_entropy kl mnemonic)"

unbundle bit_operations_syntax

text \<open>The hardened indices of the derivation path.\<close>

definition hardened :: "u32 \<Rightarrow> u32" where
  "hardened n = n OR 0x80000000"

definition generate_account_key :: "key_lib \<Rightarrow> string \<Rightarrow> ('e, bytes) outcome" where
  "generate_account_key kl mnemonic =
     res_bind (option_unwrap (from_bip39_mnenomic kl mnemonic [])) (\<lambda>root_key.
     Inr (kl_derive kl (kl_derive kl (kl_derive kl root_key (hardened 1852)) (hardened 1815)) 0x80000000))"

definition generate_payment_keypair :: "key_lib \<Rightarrow> bytes \<Rightarrow> bytes \<times> bytes" where
  "generate_payment_keypair kl account_key =
     (let external_key = kl_derive kl account_key 0;
          private_key = kl_derive kl external_key 0
      in (private_key, kl_public kl private_key))"

definition generate_delegation_keypair :: "key_lib \<Rightarrow> bytes \<Rightarrow> bytes \<times> bytes" where
  "generate_delegation_keypair kl account_key =
     (let delegation_key = kl_derive kl account_key 2;
          private_key = kl_derive kl delegation_key 0
      in (private_key, kl_public kl private_key))"

definition to_ed25519_keypair :: "key_lib \<Rightarrow> bytes \<Rightarrow> bytes \<times> bytes" where
  "to_ed25519_keypair kl private_key =
     (kl_extended kl private_key, kl_public_key kl (kl_extended kl private_key))"

definition get_ed25519_keypair :: "key_lib \<Rightarrow> string \<Rightarrow> ('e, bytes \<times> bytes) outcome" where
  "get_ed25519_keypair kl mnemonic =
     res_bind (generate_account_key kl mnemonic) (\<lambda>account_key.
     Inr (to_ed25519_keypair kl (fst (generate_payment_keypair kl account_key))))"

text \<open>Addresses of the test network, by the hashes of the payment and of the delegation key.\<close>

record address =
  addr_payment :: bytes
  addr_delegation :: "bytes option"

definition generate_address :: "key_lib \<Rightarrow> bytes \<Rightarrow> ('e, address) outcome" where
  "generate_address kl public_key =
     (if 32 \<le> length public_key
      then Inr \<lparr>addr_payment = kl_hash224 kl (take 32 public_key), addr_delegation = None\<rparr>
      else Inl Panic)"

definition generate_address_with_delegation :: "key_lib \<Rightarrow> bytes \<Rightarrow> bytes \<Rightarrow> address" where
  "generate_address_with_delegation kl account_key public_key =
     (let delegation_key = snd (generate_delegation_keypair kl account_key)
      in \<lparr>addr_payment = kl_hash224 kl public_key, addr_delegation = Some (kl_hash224 kl delegation_key)\<rparr>)"

section \<open>Signing a transaction\<close>

text \<open>
  Of a built transaction the hash, the bytes and the signatures are kept.  \<open>build\<close> is the result of
  building an empty Conway transaction, from which the code takes version, era and status, and
  \<open>add_signature\<close> the signing of the transaction builder.
\<close>

record built_tx =
  bt_header :: string
  bt_hash :: bytes
  bt_bytes :: bytes
  bt_signatures :: "(bytes \<times> bytes) list option"

definition to_built_transaction ::
  "string option \<Rightarrow> ('tx \<Rightarrow> bytes) \<Rightarrow> ('tx, 'out, 'rep) pallas \<Rightarrow> 'tx \<Rightarrow> ('e, built_tx) outcome" where
  "to_built_transaction build encode pl tx =
     res_bind (option_unwrap build) (\<lambda>header.
     Inr \<lparr>bt_header = header, bt_hash = pl_hash pl tx, bt_bytes = encode tx, bt_signatures = None\<rparr>)"

definition sign_transaction ::
  "key_lib \<Rightarrow> (built_tx \<Rightarrow> bytes \<Rightarrow> built_tx option) \<Rightarrow> built_tx \<Rightarrow> string \<Rightarrow> ('e, built_tx) outcome" where
  "sign_transaction kl add_signature b mnemonic =
     res_bind (get_ed25519_keypair kl mnemonic) (\<lambda>(signing_key, _).
     option_unwrap (add_signature b signing_key))"

section \<open>The vault client\<close>

text \<open>
  The secret read from the vault is an error or a map from keys to values; \<open>from_value\<close> reads a
  value as a mnemonic.
\<close>

definition get_mnemonic ::
  "signing_error + (string \<Rightarrow> 'json option) \<Rightarrow> ('json \<Rightarrow> string option) \<Rightarrow> string \<Rightarrow>
   (signing_error, string) outcome" where
  "get_mnemonic secret from_value key =
     (case secret of
        Inl _ \<Rightarrow> Inl (Err ClientError)
      | Inr values \<Rightarrow>
          res_bind (ok_or SecretNotFound (values key)) (\<lambda>v. ok_or Deserialization (from_value v)))"

record ('tx, 'json) signer =
  sg_keys :: key_lib
  sg_secret :: "signing_error + (string \<Rightarrow> 'json option)"
  sg_from_value :: "'json \<Rightarrow> string option"
  sg_key :: string
  sg_build :: "string option"
  sg_encode :: "'tx \<Rightarrow> bytes"
  sg_add_signature :: "built_tx \<Rightarrow> bytes \<Rightarrow> built_tx option"

definition vault_sign ::
  "('tx, 'json) signer \<Rightarrow> ('tx, 'out, 'rep) pallas \<Rightarrow> bytes \<Rightarrow> (signing_error, bytes) outcome" where
  "vault_sign sg pl data =
     res_bind (get_mnemonic (sg_secret sg) (sg_from_value sg) (sg_key sg)) (\<lambda>mnemonic.
     res_bind (ok_or Decoding (pl_decode pl data)) (\<lambda>metx.
     res_bind (to_built_transaction (sg_build sg) (sg_encode sg) pl metx) (\<lambda>b.
     res_bind (sign_transaction (sg_keys sg) (sg_add_signature sg) b mnemonic) (\<lambda>signed_tx.
     Inr (bt_bytes signed_tx)))))"

definition vault_verify ::
  "('tx, 'json) signer \<Rightarrow> bytes \<Rightarrow> bytes \<Rightarrow> (signing_error, bool) outcome" where
  "vault_verify sg data signature =
     res_bind (get_mnemonic (sg_secret sg) (sg_from_value sg) (sg_key sg)) (\<lambda>mnemonic.
     res_bind (get_ed25519_keypair (sg_keys sg) mnemonic) (\<lambda>(_, public_key).
     res_bind (ok_or Decoding (kl_signature (sg_keys sg) signature)) (\<lambda>s.
     Inr (kl_verify (sg_keys sg) public_key data s))))"

section \<open>Properties of signing\<close>

text \<open>The key that signs, as a walk along a derivation path.\<close>

definition derivation_path :: "u32 list" where
  "derivation_path = [0x8000073C, 0x80000717, 0x80000000, 0, 0]"

lemma get_ed25519_keypair_path:
  "get_ed25519_keypair kl mnemonic =
     (case from_bip39_mnenomic kl mnemonic [] of
        None \<Rightarrow> Inl Panic
      | Some root_key \<Rightarrow> Inr (to_ed25519_keypair kl (foldl (kl_derive kl) root_key derivation_path)))"
  by (cases "from_bip39_mnenomic kl mnemonic []")
    (simp_all add: get_ed25519_keypair_def generate_account_key_def generate_payment_keypair_def
      hardened_def derivation_path_def Let_def)

lemma vault_sign_Inr:
  assumes "vault_sign sg pl data = Inr signed_tx"
  obtains mnemonic metx header sk pk b where
    "get_mnemonic (sg_secret sg) (sg_from_value sg) (sg_key sg) = Inr mnemonic"
    "pl_decode pl data = Some metx" "get_ed25519_keypair (sg_keys sg) mnemonic = (Inr (sk, pk) :: (signing_error, _) outcome)"
    "sg_add_signature sg \<lparr>bt_header = header, bt_hash = pl_hash pl metx, bt_bytes = sg_encode sg metx,
       bt_signatures = None\<rparr> sk = Some b" "signed_tx = bt_bytes b"
  using assms
  by (auto simp: vault_sign_def to_built_transaction_def sign_transaction_def ok_or_def split: option.splits)

text \<open>A key library in which everything is the identity, and a signer that appends the key.\<close>

definition demo_keys :: key_lib where
  "demo_keys =
     \<lparr>kl_entropy = (\<lambda>m. if m = [] then None else Some [1]), kl_pbkdf2 = (\<lambda>_ e _. e), kl_normalize = id,
      kl_derive = (\<lambda>k i. k @ [ucast i]), kl_public = id, kl_extended = id, kl_public_key = rev,
      kl_hash224 = id, kl_verify = (\<lambda>pk m s. s = rev pk @ m), kl_signature = Some\<rparr>"

definition demo_path_key :: bytes where
  "demo_path_key = [1, 0x3C, 0x17, 0, 0, 0]"

definition demo_signer :: "(nat, string) signer" where
  "demo_signer =
     \<lparr>sg_keys = demo_keys, sg_secret = Inr [''k'' \<mapsto> ''words''], sg_from_value = Some, sg_key = ''k'',
      sg_build = Some ''conway'', sg_encode = (\<lambda>n. replicate n 0),
      sg_add_signature = (\<lambda>b k. if k = demo_path_key then Some (b\<lparr>bt_signatures := Some [(rev k, k @ bt_hash b)]\<rparr>) else None)\<rparr>"

lemma vault_sign_hash:
  assumes "\<And>b k b'. sg_add_signature sg b k = Some b' \<Longrightarrow>
        (\<exists>tx. pl_decode pl (bt_bytes b) = Some tx \<and> pl_hash pl tx = bt_hash b) \<Longrightarrow>
        \<exists>tx'. pl_decode pl (bt_bytes b') = Some tx' \<and> pl_hash pl tx' = bt_hash b"
    and "\<And>tx. \<exists>tx'. pl_decode pl (sg_encode sg tx) = Some tx' \<and> pl_hash pl tx' = pl_hash pl tx"
    and "vault_sign sg pl data = Inr signed_tx"
  shows "\<exists>tx tx'. pl_decode pl data = Some tx \<and> pl_decode pl signed_tx = Some tx' \<and> pl_hash pl tx' = pl_hash pl tx"
  using assms(3)
proof (rule vault_sign_Inr)
  fix mnemonic metx header sk pk b
  assume a: "pl_decode pl data = Some metx" "signed_tx = bt_bytes b"
    "sg_add_signature sg \<lparr>bt_header = header, bt_hash = pl_hash pl metx, bt_bytes = sg_encode sg metx,
       bt_signatures = None\<rparr> sk = Some b"
  with assms(1) [OF a(3)] assms(2) [of metx] show ?thesis by auto
qed

text \<open>The key that signs: derived from the mnemonic of the vault along the path 1852'/1815'/0'/0/0.\<close>

definition signing_key :: "key_lib \<Rightarrow> string \<Rightarrow> bytes option" where
  "signing_key kl mnemonic =
     map_option (\<lambda>root_key. kl_extended kl (foldl (kl_derive kl) root_key derivation_path)) (from_bip39_mnenomic kl mnemonic [])"

lemma keypair_signing_key:
  "get_ed25519_keypair kl mnemonic = Inr (sk, pk) \<longleftrightarrow> signing_key kl mnemonic = Some sk \<and> pk = kl_public_key kl sk"
  by (auto simp: get_ed25519_keypair_path signing_key_def to_ed25519_keypair_def split: option.splits)

text \<open>
  C30.  What the vault client returns is the transaction it was given, signed with the key of the vault.  The
  transaction builder is known to add to a transaction a witness for the key it is called with, a signature of the
  hash that verifies, without changing what the hash covers.  Then the returned bytes decode to a transaction
  with the hash of the one that was given, so the stored id remains its id; it carries a witness for the public key
  that belongs to the secret key at the path 1852'/1815'/0'/0/0 of the mnemonic in the vault; and the \<open>verify\<close> of the
  same client accepts that signature of the hash.
\<close>

theorem vault_sign_signs:
  assumes "\<And>b k b'. sg_add_signature sg b k = Some b' \<Longrightarrow>
        (\<exists>tx. pl_decode pl (bt_bytes b) = Some tx \<and> pl_hash pl tx = bt_hash b) \<Longrightarrow>
        \<exists>tx' sig. pl_decode pl (bt_bytes b') = Some tx' \<and> pl_hash pl tx' = bt_hash b \<and>
          (kl_public_key (sg_keys sg) k, sig) \<in> set (witnesses tx') \<and>
          kl_signature (sg_keys sg) sig = Some sig \<and> kl_verify (sg_keys sg) (kl_public_key (sg_keys sg) k) (bt_hash b) sig"
    and "\<And>tx. \<exists>tx'. pl_decode pl (sg_encode sg tx) = Some tx' \<and> pl_hash pl tx' = pl_hash pl tx"
    and "vault_sign sg pl data = Inr signed_tx"
  shows "\<exists>tx tx' mnemonic sk sig. pl_decode pl data = Some tx \<and> pl_decode pl signed_tx = Some tx' \<and> pl_hash pl tx' = pl_hash pl tx \<and>
    get_mnemonic (sg_secret sg) (sg_from_value sg) (sg_key sg) = Inr mnemonic \<and> signing_key (sg_keys sg) mnemonic = Some sk \<and>
    (kl_public_key (sg_keys sg) sk, sig) \<in> set (witnesses tx') \<and> vault_verify sg (pl_hash pl tx) sig = Inr True"
  using assms(3)
proof (rule vault_sign_Inr)
  fix mnemonic metx header sk pk b
  assume a: "get_mnemonic (sg_secret sg) (sg_from_value sg) (sg_key sg) = Inr mnemonic"
    "pl_decode pl data = Some metx" "signed_tx = bt_bytes b"
    "get_ed25519_keypair (sg_keys sg) mnemonic = (Inr (sk, pk) :: (signing_error, _) outcome)"
    "sg_add_signature sg \<lparr>bt_header = header, bt_hash = pl_hash pl metx, bt_bytes = sg_encode sg metx,
       bt_signatures = None\<rparr> sk = Some b"
  from a(4) have sk: "signing_key (sg_keys sg) mnemonic = Some sk" "pk = kl_public_key (sg_keys sg) sk"
    by (simp_all add: keypair_signing_key)
  from assms(1) [OF a(5)] assms(2) [of metx] obtain tx' sig where t: "pl_decode pl (bt_bytes b) = Some tx'"
    "pl_hash pl tx' = pl_hash pl metx" "(kl_public_key (sg_keys sg) sk, sig) \<in> set (witnesses tx')"
    "kl_signature (sg_keys sg) sig = Some sig" "kl_verify (sg_keys sg) (kl_public_key (sg_keys sg) sk) (pl_hash pl metx) sig"
    by auto
  have "vault_verify sg (pl_hash pl metx) sig = Inr True"
    using a(1,4) sk(2) t(4,5) by (simp add: vault_verify_def)
  with a(1-3) sk(1) t(1-3) show ?thesis by blast
qed

definition demo_ledger :: "(nat, bytes, nat) pallas" where
  "demo_ledger = demo_pallas\<lparr>pl_decode := \<lambda>b. Some (length b)\<rparr>"

theorem vault_sign_signs_witness:
  "\<exists>signed_tx tx' sig. vault_sign demo_signer demo_ledger [1, 2] = Inr signed_tx \<and>
     pl_decode demo_ledger signed_tx = Some tx' \<and> pl_hash demo_ledger tx' = pl_hash demo_ledger 2 \<and>
     vault_verify demo_signer (pl_hash demo_ledger 2) sig = Inr True"
proof -
  have defs: "sg_keys demo_signer = demo_keys" "pl_decode demo_ledger b = Some (length b)" for b
    by (simp_all add: demo_signer_def demo_ledger_def)
  obtain signed_tx where s: "vault_sign demo_signer demo_ledger [1, 2] = Inr signed_tx"
    by (simp add: vault_sign_def demo_signer_def demo_ledger_def get_mnemonic_def to_built_transaction_def
        sign_transaction_def get_ed25519_keypair_path from_bip39_mnenomic_def demo_keys_def
        to_ed25519_keypair_def derivation_path_def demo_path_key_def)
  have "\<exists>tx tx' mnemonic sk sig. pl_decode demo_ledger [1, 2] = Some tx \<and> pl_decode demo_ledger signed_tx = Some tx' \<and>
      pl_hash demo_ledger tx' = pl_hash demo_ledger tx \<and>
      get_mnemonic (sg_secret demo_signer) (sg_from_value demo_signer) (sg_key demo_signer) = Inr mnemonic \<and>
      signing_key (sg_keys demo_signer) mnemonic = Some sk \<and>
      (kl_public_key (sg_keys demo_signer) sk, sig) \<in> set [(rev demo_path_key, demo_path_key @ pl_hash demo_ledger tx')] \<and>
      vault_verify demo_signer (pl_hash demo_ledger tx) sig = Inr True"
    by (rule vault_sign_signs [where witnesses = "\<lambda>tx. [(rev demo_path_key, demo_path_key @ pl_hash demo_ledger tx)]", OF _ _ s])
      (auto simp: defs, auto simp: demo_signer_def demo_keys_def split: if_splits)
  with s show ?thesis by (auto simp: defs numeral_2_eq_2)
qed

text \<open>
  The two halves of the adapter belong together: whatever the vault holds, the key that
  signs is the one at the path 1852'/1815'/0'/0/0, and a signature made with it is accepted by
  \<open>verify\<close>, given a signature scheme whose signatures verify under the matching public key.
\<close>

theorem vault_verify_accepts:
  assumes "\<And>sk m. kl_verify (sg_keys sg) (kl_public_key (sg_keys sg) sk) m (make_signature sk m)"
    and "get_mnemonic (sg_secret sg) (sg_from_value sg) (sg_key sg) = Inr mnemonic"
    and "from_bip39_mnenomic (sg_keys sg) mnemonic [] = Some root_key"
    and "sk = kl_extended (sg_keys sg) (foldl (kl_derive (sg_keys sg)) root_key derivation_path)"
    and "kl_signature (sg_keys sg) raw = Some (make_signature sk data)"
  shows "vault_verify sg data raw = Inr True \<and>
    sign_transaction (sg_keys sg) (sg_add_signature sg) b mnemonic =
      (option_unwrap (sg_add_signature sg b sk) :: (signing_error, built_tx) outcome)"
  using assms
  by (simp add: vault_verify_def sign_transaction_def get_ed25519_keypair_path to_ed25519_keypair_def)

theorem vault_verify_accepts_witness:
  "vault_verify demo_signer [9] ([1, 0x3C, 0x17, 0, 0, 0] @ [9]) = Inr True"
  using vault_verify_accepts [of demo_signer "\<lambda>sk m. sk @ m" "''words''" "[1]" "[1, 0x3C, 0x17, 0, 0, 0]"
      "[1, 0x3C, 0x17, 0, 0, 0] @ [9]" "[9]"]
  by (simp add: demo_signer_def demo_keys_def get_mnemonic_def from_bip39_mnenomic_def derivation_path_def)

end
