(* ===== verification/Float32.thy ===== *)
theory Float32
  imports Boros_Prelude "HOL-Library.Log_Nat"
begin

text \<open>
  The part of IEEE 754 binary32 arithmetic that \<^verbatim>\<open>Priority::quota\<close> of
  \<^verbatim>\<open>src/queue/priority.rs\<close> uses: non-negative values, addition, division, multiplication,
  \<open>round\<close> and the cast to \<open>u16\<close>.  A finite value is the rational number it denotes; every
  operation rounds the exact result to 24 significant bits, ties to even.  The exponent is not
  bounded: the values that occur (weights up to 255, sums and quotients of them, products with
  a \<open>u16\<close>) are far from both the subnormal and the overflow range.
\<close>

section \<open>Rounding to 24 bits\<close>

text \<open>The exponent \<open>e\<close> with \<open>2 ^ e \<le> x < 2 ^ (e + 1)\<close>.\<close>

definition f32_exp :: "rat \<Rightarrow> int" where
  "f32_exp x =
     (let pq = quotient_of x; k = bitlen (fst pq) - bitlen (snd pq)
      in if 2 powi k \<le> x then k else k - 1)"

definition round_half_even :: "rat \<Rightarrow> int" where
  "round_half_even x =
     (let n = \<lfloor>x\<rfloor>; r = x - of_int n
      in if r < 1 / 2 \<or> r = 1 / 2 \<and> even n then n else n + 1)"

definition f32_round :: "rat \<Rightarrow> rat" where
  "f32_round x =
     (if x \<le> 0 then 0
      else let u = 2 powi (f32_exp x - 23) in of_int (round_half_even (x / u)) * u)"

section \<open>Operations\<close>

datatype f32 = F32 rat | NaN | Inf

fun f32_add :: "f32 \<Rightarrow> f32 \<Rightarrow> f32" where
  "f32_add (F32 a) (F32 b) = F32 (f32_round (a + b))"
| "f32_add NaN _ = NaN"
| "f32_add _ NaN = NaN"
| "f32_add _ _ = Inf"

fun f32_div :: "f32 \<Rightarrow> f32 \<Rightarrow> f32" where
  "f32_div (F32 a) (F32 b) = (if b = 0 then (if a = 0 then NaN else Inf) else F32 (f32_round (a / b)))"
| "f32_div NaN _ = NaN"
| "f32_div _ NaN = NaN"
| "f32_div (F32 a) Inf = F32 0"
| "f32_div Inf (F32 b) = Inf"
| "f32_div Inf Inf = NaN"

fun f32_mul :: "f32 \<Rightarrow> f32 \<Rightarrow> f32" where
  "f32_mul (F32 a) (F32 b) = F32 (f32_round (a * b))"
| "f32_mul NaN _ = NaN"
| "f32_mul _ NaN = NaN"
| "f32_mul (F32 a) Inf = (if a = 0 then NaN else Inf)"
| "f32_mul Inf (F32 b) = (if b = 0 then NaN else Inf)"
| "f32_mul Inf Inf = Inf"

text \<open>\<open>f32::round\<close>: to the nearest integer, halves away from zero (upwards here).\<close>

fun f32_to_int :: "f32 \<Rightarrow> f32" where
  "f32_to_int (F32 a) = F32 (of_int \<lfloor>a + 1 / 2\<rfloor>)"
| "f32_to_int x = x"

text \<open>The saturating cast \<open>as u16\<close>: truncation, NaN becomes 0.\<close>

fun f32_as_u16 :: "f32 \<Rightarrow> u16" where
  "f32_as_u16 (F32 a) = of_int (min 65535 (max 0 \<lfloor>a\<rfloor>))"
| "f32_as_u16 NaN = 0"
| "f32_as_u16 Inf = 65535"

definition f32_of_nat :: "nat \<Rightarrow> f32" where
  "f32_of_nat n = F32 (of_nat n)"

section \<open>The exponent\<close>

lemma powi_pos [simp]: "0 < (2 :: rat) powi k"
  by (simp add: zero_less_power_int)

lemma powi_succ: "(2 :: rat) powi (k + 1) = 2 * 2 powi k"
  by (simp add: power_int_add)

lemma powi_mono: "j \<le> k \<Longrightarrow> (2 :: rat) powi j \<le> 2 powi k"
  by (simp add: power_int_increasing)

lemma bitlen_powi:
  assumes "0 < p"
  shows "2 powi (bitlen p - 1) \<le> (of_int p :: rat)" "(of_int p :: rat) < 2 powi bitlen p"
proof -
  have b: "0 < bitlen p" using assms bitlen_nonneg [of p] bitlen_eq_zero_iff [of p] by linarith
  have "(of_int (2 ^ nat (bitlen p - 1)) :: rat) \<le> of_int p"
    using bitlen_bounds [OF assms] by (simp only: of_int_le_iff)
  then show "2 powi (bitlen p - 1) \<le> (of_int p :: rat)"
    using b by (simp add: power_int_def)
  have "(of_int p :: rat) < of_int (2 ^ nat (bitlen p))"
    using bitlen_bounds [OF assms] by (simp only: of_int_less_iff)
  then show "(of_int p :: rat) < 2 powi bitlen p"
    using b by (simp add: power_int_def)
qed

lemma f32_exp_bounds:
  assumes "0 < x"
  shows "2 powi f32_exp x \<le> x \<and> x < 2 powi (f32_exp x + 1)"
proof -
  obtain p q where pq: "quotient_of x = (p, q)" by fastforce
  then have q: "0 < q" and x: "x = of_int p / of_int q"
    by (auto simp: quotient_of_denom_pos quotient_of_div)
  with assms have p: "0 < p" by (simp add: zero_less_divide_iff)
  let ?k = "bitlen p - bitlen q"
  have "x < 2 powi bitlen p / 2 powi (bitlen q - 1)"
    unfolding x using bitlen_powi [OF p] bitlen_powi [OF q] p q by (intro frac_less) auto
  also have "\<dots> = 2 powi (?k + 1)" by (simp add: power_int_diff [symmetric] algebra_simps)
  finally have up: "x < 2 powi (?k + 1)" .
  have "2 powi (?k - 1) = (2 :: rat) powi (bitlen p - 1) / 2 powi bitlen q"
    by (simp add: power_int_diff [symmetric] algebra_simps)
  also have "\<dots> \<le> x"
    unfolding x using bitlen_powi [OF p] bitlen_powi [OF q] p q by (intro frac_le) auto
  finally have "2 powi (?k - 1) \<le> x" .
  with up show ?thesis by (auto simp: f32_exp_def pq Let_def)
qed

lemma f32_exp_mono:
  assumes "0 < x" "x \<le> y"
  shows "f32_exp x \<le> f32_exp y"
proof (rule ccontr)
  assume "\<not> f32_exp x \<le> f32_exp y"
  then have "(2 :: rat) powi (f32_exp y + 1) \<le> 2 powi f32_exp x" by (intro powi_mono) simp
  with f32_exp_bounds [of x] f32_exp_bounds [of y] assms show False by linarith
qed

section \<open>Rounding: error, monotonicity, exactness\<close>

lemma round_half_even_err: "\<bar>of_int (round_half_even x) - x\<bar> \<le> 1 / 2"
proof -
  have "of_int \<lfloor>x\<rfloor> \<le> x" "x < of_int \<lfloor>x\<rfloor> + 1" by linarith+
  then show ?thesis by (auto simp: round_half_even_def Let_def abs_le_iff)
qed

lemma round_half_even_mono:
  assumes "x \<le> y"
  shows "round_half_even x \<le> round_half_even y"
proof (cases "\<lfloor>x\<rfloor> = \<lfloor>y\<rfloor>")
  case True
  with assms show ?thesis by (auto simp: round_half_even_def Let_def)
next
  case False
  with assms have "\<lfloor>x\<rfloor> + 1 \<le> \<lfloor>y\<rfloor>" using floor_mono [OF assms] by linarith
  moreover have "round_half_even x \<le> \<lfloor>x\<rfloor> + 1" "\<lfloor>y\<rfloor> \<le> round_half_even y"
    by (auto simp: round_half_even_def Let_def)
  ultimately show ?thesis by linarith
qed

lemma round_half_even_of_int [simp]: "round_half_even (of_int n) = n"
  by (simp add: round_half_even_def)

lemma f32_round_0 [simp]: "f32_round 0 = 0"
  by (simp add: f32_round_def)

lemma powi_24: "(2 :: rat) powi (e + 1) / 2 powi (e - 23) = 16777216"
  by (simp add: power_int_diff [symmetric])

lemma powi_23: "(2 :: rat) powi e / 2 powi (e - 23) = 8388608"
  by (simp add: power_int_diff [symmetric])

lemma f32_round_bounds:
  assumes "0 < x"
  shows "2 powi f32_exp x \<le> f32_round x" "f32_round x \<le> 2 powi (f32_exp x + 1)"
proof -
  let ?u = "(2 :: rat) powi (f32_exp x - 23)"
  note b = f32_exp_bounds [OF assms]
  have "of_int 8388608 \<le> x / ?u"
    using divide_right_mono [OF conjunct1 [OF b], of ?u] by (simp add: powi_23 less_imp_le)
  then have lo: "8388608 \<le> round_half_even (x / ?u)"
    using round_half_even_mono [of "of_int 8388608" "x / ?u"] by (simp only: round_half_even_of_int)
  have "x / ?u \<le> of_int 16777216"
    using divide_right_mono [OF less_imp_le [OF conjunct2 [OF b]], of ?u]
    by (simp add: powi_24 less_imp_le)
  then have hi: "round_half_even (x / ?u) \<le> 16777216"
    using round_half_even_mono [of "x / ?u" "of_int 16777216"] by (simp only: round_half_even_of_int)
  have u: "2 powi f32_exp x = 8388608 * ?u" "2 powi (f32_exp x + 1) = 16777216 * ?u"
    using powi_23 [of "f32_exp x"] powi_24 [of "f32_exp x"] by (simp_all add: field_simps)
  have "of_int 8388608 * ?u \<le> of_int (round_half_even (x / ?u)) * ?u"
    using lo by (intro mult_right_mono) (simp_all only: of_int_le_iff less_imp_le powi_pos)
  then show "2 powi f32_exp x \<le> f32_round x" using assms u by (simp add: f32_round_def Let_def)
  have "of_int (round_half_even (x / ?u)) * ?u \<le> of_int 16777216 * ?u"
    using hi by (intro mult_right_mono) (simp_all only: of_int_le_iff less_imp_le powi_pos)
  then show "f32_round x \<le> 2 powi (f32_exp x + 1)" using assms u by (simp add: f32_round_def Let_def)
qed

lemma f32_round_nonneg: "0 \<le> f32_round x"
proof (cases "x \<le> 0")
  case False
  then have "0 < x" by simp
  then show ?thesis using f32_round_bounds(1) [of x] powi_pos less_imp_le order_trans by blast
qed (simp add: f32_round_def)

text \<open>Half a unit in the last place: a relative error of at most \<open>2 ^ - 24\<close>.\<close>

lemma f32_round_err:
  assumes "0 \<le> x"
  shows "\<bar>f32_round x - x\<bar> \<le> x / 16777216"
proof (cases "x = 0")
  case False
  with assms have x: "0 < x" by simp
  let ?u = "(2 :: rat) powi (f32_exp x - 23)"
  have "f32_round x - x = (of_int (round_half_even (x / ?u)) - x / ?u) * ?u"
    using x by (simp add: f32_round_def Let_def algebra_simps)
  then have "\<bar>f32_round x - x\<bar> = \<bar>of_int (round_half_even (x / ?u)) - x / ?u\<bar> * ?u"
    by (simp add: abs_mult less_imp_le)
  also have "\<dots> \<le> 1 / 2 * ?u"
    by (intro mult_right_mono round_half_even_err) (simp add: less_imp_le)
  also have "\<dots> = 2 powi f32_exp x / 16777216"
    using powi_23 [of "f32_exp x"] by (simp add: field_simps)
  also have "\<dots> \<le> x / 16777216"
    using f32_exp_bounds [OF x] by simp
  finally show ?thesis .
qed simp

lemma f32_round_mono:
  assumes "x \<le> y"
  shows "f32_round x \<le> f32_round y"
proof (cases "x \<le> 0")
  case True
  then show ?thesis using f32_round_nonneg [of y] by (simp add: f32_round_def [of x])
next
  case False
  then have x: "0 < x" and y: "0 < y" using assms by simp_all
  show ?thesis
  proof (cases "f32_exp x = f32_exp y")
    case True
    then have "round_half_even (x / 2 powi (f32_exp x - 23)) \<le> round_half_even (y / 2 powi (f32_exp y - 23))"
      using assms by (intro round_half_even_mono) (simp add: divide_right_mono less_imp_le)
    with True x y show ?thesis
      by (simp add: f32_round_def Let_def mult_right_mono less_imp_le)
  next
    case False
    with f32_exp_mono [OF x assms] have "(2 :: rat) powi (f32_exp x + 1) \<le> 2 powi f32_exp y"
      by (intro powi_mono) simp
    with f32_round_bounds [OF x] f32_round_bounds [OF y] show ?thesis by linarith
  qed
qed

lemma f32_round_of_nat:
  assumes "n < 2 ^ 24"
  shows "f32_round (of_nat n) = of_nat n"
proof (cases "n = 0")
  case False
  then have pos: "(0 :: rat) < of_nat n" by simp
  let ?e = "f32_exp (of_nat n)"
  have "(2 :: rat) powi ?e < 2 powi 24"
    using f32_exp_bounds [OF pos] assms
    by (metis (mono_tags, lifting) of_nat_less_iff of_nat_numeral of_nat_power order_le_less_trans
        power_int_numeral)
  then have "?e < 24" by (metis not_le powi_mono)
  define k where "k = nat (23 - ?e)"
  have u: "(2 :: rat) powi (?e - 23) = inverse (2 ^ k)"
    using \<open>?e < 24\<close> by (simp add: k_def power_int_def power_one_over inverse_eq_divide)
  have "of_nat n / (2 :: rat) powi (?e - 23) = of_int (int n * 2 ^ k)"
    unfolding u by (simp add: field_simps)
  then have "round_half_even (of_nat n / 2 powi (?e - 23)) = int n * 2 ^ k"
    by (simp only: round_half_even_of_int)
  then show ?thesis using pos u by (simp add: f32_round_def Let_def)
qed simp

text \<open>
  The properties of the rounding that the quota computation rests on, as an interface: it is
  monotone, non-negative, fixes zero and has a bounded relative error.
\<close>

locale rounding =
  fixes rnd :: "rat \<Rightarrow> rat" and eps :: rat
  assumes rnd_mono: "x \<le> y \<Longrightarrow> rnd x \<le> rnd y"
    and rnd_zero: "rnd 0 = 0"
    and rnd_err: "0 \<le> x \<Longrightarrow> \<bar>rnd x - x\<bar> \<le> x * eps"
    and eps_bounds: "0 \<le> eps" "eps \<le> 1"
begin

lemma rnd_nonneg: "0 \<le> x \<Longrightarrow> 0 \<le> rnd x"
  using rnd_mono [of 0 x] rnd_zero by simp

text \<open>Two roundings in a row, as in a rounded quotient multiplied with a rounded product.\<close>

lemma rnd_twice_err:
  assumes "0 \<le> x" "0 \<le> c"
  shows "\<bar>rnd (rnd x * c) - x * c\<bar> \<le> x * c * (2 * eps + eps * eps)"
proof -
  have r: "\<bar>rnd x - x\<bar> \<le> x * eps" using rnd_err assms(1) .
  have "\<bar>rnd x * c - x * c\<bar> = \<bar>rnd x - x\<bar> * c"
    using assms(2) by (simp add: left_diff_distrib [symmetric] abs_mult)
  also have "\<dots> \<le> x * eps * c" using r assms(2) by (rule mult_right_mono)
  finally have a: "\<bar>rnd x * c - x * c\<bar> \<le> x * eps * c" .
  have nn: "0 \<le> rnd x * c" using rnd_nonneg assms by simp
  have "\<bar>rnd (rnd x * c) - rnd x * c\<bar> \<le> rnd x * c * eps" using rnd_err [OF nn] .
  also have "\<dots> \<le> (x * c + x * eps * c) * eps"
    using a eps_bounds(1) by (intro mult_right_mono) (simp_all add: abs_le_iff)
  finally have b: "\<bar>rnd (rnd x * c) - rnd x * c\<bar> \<le> (x * c + x * eps * c) * eps" .
  have "\<bar>rnd (rnd x * c) - x * c\<bar> \<le> \<bar>rnd (rnd x * c) - rnd x * c\<bar> + \<bar>rnd x * c - x * c\<bar>"
    by linarith
  also have "\<dots> \<le> (x * c + x * eps * c) * eps + x * eps * c" using a b by linarith
  finally show ?thesis by (simp add: algebra_simps)
qed

end

interpretation f32: rounding f32_round "1 / 16777216"
  using f32_round_mono f32_round_err by unfold_locales simp_all

end
