(* ===== verification/Priority_Queue.thy ===== *)
theory Priority_Queue
  imports Sqlite_Store Float32
begin

text \<open>
  Queues and their priorities: \<^verbatim>\<open>src/queue/mod.rs\<close> and \<^verbatim>\<open>src/queue/priority.rs\<close>.

  A \<open>HashSet<Config>\<close>, whose equality and hash look at the name only, is a list of
  configurations with distinct names.  A \<open>HashMap\<close> is an association list with distinct keys;
  the order in which Rust iterates over it is not specified, so the two maps \<open>next\<close> iterates
  over are passed through the parameters \<open>iter_w\<close> and \<open>iter_q\<close>, arbitrary functions that
  permute their argument.
\<close>

section \<open>Queue configurations\<close>

definition DEFAULT_WEIGHT :: u8 where
  "DEFAULT_WEIGHT = 1"

record queue_config =
  qc_name :: string
  qc_weight :: u8
  qc_chained :: bool
  qc_server_signing :: bool

definition queue_config_default :: queue_config where
  "queue_config_default =
     \<lparr>qc_name = DEFAULT_QUEUE, qc_weight = DEFAULT_WEIGHT, qc_chained = False,
      qc_server_signing = False\<rparr>"

text \<open>\<open>PartialEq for Config\<close>: the name alone decides.\<close>

definition queue_config_eq :: "queue_config \<Rightarrow> queue_config \<Rightarrow> bool" where
  "queue_config_eq a b \<longleftrightarrow> qc_name a = qc_name b"

type_synonym queue_set = "queue_config list"

text \<open>\<open>HashSet::get\<close> through \<open>Borrow<String>\<close>, and \<open>HashSet::insert\<close>, which keeps a present element.\<close>

definition queues_get :: "queue_set \<Rightarrow> string \<Rightarrow> queue_config option" where
  "queues_get qs name = find (\<lambda>c. qc_name c = name) qs"

definition queues_insert :: "queue_config \<Rightarrow> queue_set \<Rightarrow> queue_set" where
  "queues_insert c qs = (if \<exists>q\<in>set qs. queue_config_eq q c then qs else qs @ [c])"

definition queues_wf :: "queue_set \<Rightarrow> bool" where
  "queues_wf qs \<longleftrightarrow> distinct (map qc_name qs)"

section \<open>\<open>Priority\<close>\<close>

definition total_weight :: "(string \<times> u8) list \<Rightarrow> f32" where
  "total_weight queues = foldl f32_add (F32 0) (map (\<lambda>(_, w). f32_of_nat (unat w)) queues)"

definition quota_of :: "f32 \<Rightarrow> u16 \<Rightarrow> u8 \<Rightarrow> u16" where
  "quota_of tot cap w =
     f32_as_u16 (f32_to_int (f32_mul (f32_div (f32_of_nat (unat w)) tot) (f32_of_nat (unat cap))))"

text \<open>
  \<open>Priority::quota\<close>.  The pairs are sorted by descending quota and then collected into a
  \<open>HashMap\<close>, so the order of the list is not what the caller iterates over.
\<close>

definition quota :: "(string \<times> u8) list \<Rightarrow> u16 \<Rightarrow> (string \<times> u16) list" where
  "quota queues cap =
     (let tot = total_weight queues
      in sort_key (\<lambda>p. - int (unat (snd p)))
           (map (\<lambda>(name, w). (name, quota_of tot cap w)) queues))"

text \<open>
  The loop of \<open>next\<close> that turns quotas into limits: a queue gets its quota plus what the queues
  before it left over, but not more than it holds.
\<close>

fun spread ::
  "bool \<Rightarrow> TransactionState list \<Rightarrow> (string \<times> u16) list \<Rightarrow> u16 \<Rightarrow> (sql_error, (string \<times> u16) list) outcome"
  where
  "spread oc state [] leftover = Inr []"
| "spread oc state ((q, n) # rest) leftover =
     res_bind (add_oc oc n leftover) (\<lambda>current_quota.
     res_bind (option_unwrap (find (\<lambda>s. ts_queue s = q) state)) (\<lambda>current_state.
     let used_quota = ucast (min (ts_count current_state) (ucast current_quota :: u32)) :: u16
     in res_bind (sub_oc oc current_quota used_quota) (\<lambda>leftover'.
        res_bind (spread oc state rest leftover') (\<lambda>limits.
        Inr ((q, used_quota) # limits)))))"

definition weight_of :: "queue_set \<Rightarrow> string \<Rightarrow> u8" where
  "weight_of queues q = (case queues_get queues q of Some c \<Rightarrow> qc_weight c | None \<Rightarrow> DEFAULT_WEIGHT)"

text \<open>\<open>Priority::next\<close>\<close>

definition priority_next ::
  "bool \<Rightarrow> ((string \<times> u8) list \<Rightarrow> (string \<times> u8) list) \<Rightarrow> ((string \<times> u16) list \<Rightarrow> (string \<times> u16) list) \<Rightarrow>
   queue_set \<Rightarrow> TransactionStatus \<Rightarrow> u16 \<Rightarrow> (db, sql_error fault, Transaction list) sx" where
  "priority_next oc iter_w iter_q queues st cap =
     sx_bind (sx_map_err Err (state_of st)) (\<lambda>state.
     if state = [] then sx_return []
     else
       let state_queues = iter_w (map (\<lambda>s. (ts_queue s, weight_of queues (ts_queue s))) state)
       in sx_bind (sx_lift (spread oc state (iter_q (quota state_queues cap)) 0)) (\<lambda>queue_limit.
          sx_map_err Err (next_txs st (iter_q queue_limit))))"

definition iter_ok :: "('a list \<Rightarrow> 'a list) \<Rightarrow> bool" where
  "iter_ok it \<longleftrightarrow> (\<forall>xs. mset (it xs) = mset xs)"

section \<open>Configuration sets\<close>

lemma queues_get_Some: "queues_get qs name = Some c \<Longrightarrow> c \<in> set qs \<and> qc_name c = name"
  by (auto simp: queues_get_def find_Some_iff)

lemma queues_get_None_iff: "queues_get qs name = None \<longleftrightarrow> name \<notin> qc_name ` set qs"
  by (auto simp: queues_get_def find_None_iff)

lemma queues_get_wf: "queues_wf qs \<Longrightarrow> c \<in> set qs \<Longrightarrow> queues_get qs (qc_name c) = Some c"
  by (induction qs) (auto simp: queues_get_def queues_wf_def)

lemma queues_insert_wf: "queues_wf qs \<Longrightarrow> queues_wf (queues_insert c qs)"
  by (auto simp: queues_wf_def queues_insert_def queue_config_eq_def)

section \<open>The quota as rational arithmetic\<close>

definition weight_sum :: "(string \<times> u8) list \<Rightarrow> nat" where
  "weight_sum queues = sum_list (map (\<lambda>p. unat (snd p)) queues)"

lemma foldl_f32_add_exact:
  "a + sum_list ns < 2 ^ 24 \<Longrightarrow>
   foldl f32_add (F32 (of_nat a)) (map f32_of_nat ns) = F32 (of_nat (a + sum_list ns))"
proof (induction ns arbitrary: a)
  case (Cons n ns)
  then have "f32_round (of_nat (a + n)) = (of_nat (a + n) :: rat)" by (intro f32_round_of_nat) simp
  then have "f32_add (F32 (of_nat a)) (f32_of_nat n) = F32 (of_nat (a + n))"
    by (simp add: f32_of_nat_def)
  with Cons.IH [of "a + n"] Cons.prems show ?case by (simp add: add.assoc)
qed simp

lemma total_weight_exact:
  assumes "weight_sum queues < 2 ^ 24"
  shows "total_weight queues = F32 (of_nat (weight_sum queues))"
proof -
  have "map (\<lambda>(_, w). f32_of_nat (unat w)) queues = map f32_of_nat (map (\<lambda>p. unat (snd p)) queues)"
    by (simp add: case_prod_beta)
  then have "total_weight queues = foldl f32_add (F32 (of_nat 0)) (map f32_of_nat (map (\<lambda>p. unat (snd p)) queues))"
    by (simp only: total_weight_def semiring_1_class.of_nat_0)
  with foldl_f32_add_exact [of 0 "map (\<lambda>p. unat (snd p)) queues"] assms show ?thesis
    by (simp only: weight_sum_def add_0)
qed

text \<open>The value before the last rounding to an integer, for weight \<open>n\<close>, sum \<open>tot\<close> and capacity \<open>c\<close>.\<close>

definition share32 :: "nat \<Rightarrow> nat \<Rightarrow> nat \<Rightarrow> rat" where
  "share32 tot c n = f32_round (f32_round (of_nat n / of_nat tot) * of_nat c)"

lemma share32_nonneg: "0 \<le> share32 tot c n"
  by (simp add: share32_def f32_round_nonneg)

lemma share32_le_cap:
  assumes "n \<le> tot" "0 < tot" "c < 2 ^ 24"
  shows "share32 tot c n \<le> of_nat c"
proof -
  have "f32_round (of_nat n / of_nat tot) \<le> f32_round 1"
    using assms by (intro f32_round_mono) simp
  also have "f32_round 1 = 1" using f32_round_of_nat [of 1] by simp
  finally have "f32_round (of_nat n / of_nat tot) * of_nat c \<le> 1 * of_nat c"
    by (intro mult_right_mono) simp_all
  then have "share32 tot c n \<le> f32_round (of_nat c)"
    unfolding share32_def by (intro f32_round_mono) simp
  then show ?thesis using f32_round_of_nat [OF assms(3)] by simp
qed

lemma share32_mono: "n \<le> m \<Longrightarrow> share32 tot c n \<le> share32 tot c m"
  unfolding share32_def by (intro f32_round_mono mult_right_mono divide_right_mono) simp_all

text \<open>The rounded share is within a relative error of one eight-millionth of the exact one.\<close>

lemma share32_err:
  "\<bar>share32 tot c n - of_nat n / of_nat tot * of_nat c\<bar> \<le> of_nat n / of_nat tot * of_nat c / 8000000"
proof -
  let ?x = "of_nat n / of_nat tot :: rat" and ?c = "of_nat c :: rat"
  have "\<bar>share32 tot c n - ?x * ?c\<bar> \<le> ?x * ?c * (2 * (1 / 16777216) + 1 / 16777216 * (1 / 16777216))"
    unfolding share32_def by (rule f32.rnd_twice_err) simp_all
  also have "\<dots> \<le> ?x * ?c * (1 / 8000000)"
    by (intro mult_left_mono) simp_all
  finally show ?thesis by simp
qed

lemma u16_small: "unat (cap :: u16) < 65536"
  using unsigned_less [of cap] by simp

lemma quota_of_share:
  assumes "unat w \<le> tot" "0 < tot"
  shows "int (unat (quota_of (F32 (of_nat tot)) cap w)) = \<lfloor>share32 tot (unat cap) (unat w) + 1 / 2\<rfloor>"
proof -
  define n c where "n = unat w" and "c = unat cap"
  have c: "c < 65536" by (simp add: c_def u16_small)
  let ?n = "\<lfloor>share32 tot c n + 1 / 2\<rfloor>"
  have lo: "0 \<le> ?n" using share32_nonneg [of tot c n] by (simp add: le_floor_iff)
  have "share32 tot c n \<le> of_nat c"
    using assms c by (intro share32_le_cap) (simp_all add: n_def)
  then have "?n \<le> int c" by (simp add: floor_le_iff)
  with c have hi: "?n \<le> 65535" by linarith
  have "quota_of (F32 (of_nat tot)) cap w = of_int ?n"
    unfolding quota_of_def n_def [symmetric] c_def [symmetric]
    using assms(2) lo hi by (simp add: f32_of_nat_def share32_def)
  with lo hi show ?thesis
    unfolding n_def [symmetric] c_def [symmetric]
    by (simp add: unat_eq_nat_uint uint_word_of_int take_bit_int_eq_self)
qed

lemma quota_of_zero: "quota_of (F32 0) cap 0 = 0"
  by (simp add: quota_of_def f32_of_nat_def)

text \<open>Hence the quota is the proportional share, rounded, up to a hundredth.\<close>

lemma quota_of_err:
  assumes "unat w \<le> tot" "0 < tot"
  shows "\<bar>of_nat (unat (quota_of (F32 (of_nat tot)) cap w)) -
            of_nat (unat w) / of_nat tot * (of_nat (unat cap) :: rat)\<bar>
         \<le> 1 / 2 + of_nat (unat w) / of_nat tot / 100"
proof -
  define n c q where "n = unat w" and "c = unat cap" and "q = unat (quota_of (F32 (of_nat tot)) cap w)"
  have c: "c < 65536" by (simp add: c_def u16_small)
  let ?x = "of_nat n / of_nat tot :: rat"
  have q: "int q = \<lfloor>share32 tot c n + 1 / 2\<rfloor>"
    unfolding q_def n_def c_def using quota_of_share [OF assms] .
  then have "of_int (int q) \<le> share32 tot c n + 1 / 2" "share32 tot c n + 1 / 2 < of_int (int q) + 1"
    by linarith+
  then have a: "\<bar>of_nat q - share32 tot c n\<bar> \<le> (1 / 2 :: rat)"
    unfolding of_int_of_nat_eq by linarith
  have "?x * of_nat c \<le> ?x * 65536"
    using c by (intro mult_left_mono) simp_all
  then have "?x * of_nat c / 8000000 \<le> ?x * 65536 / 8000000" by (rule divide_right_mono) simp
  moreover have scale: "x * 65536 / 8000000 \<le> x / 100" if "0 \<le> x" for x :: rat
    using that by simp
  have "?x * 65536 / 8000000 \<le> ?x / 100"
    by (rule scale) simp
  ultimately have "\<bar>share32 tot c n - ?x * of_nat c\<bar> \<le> ?x / 100"
    using share32_err [of tot c n] by (meson order_trans)
  with a have "\<bar>of_nat q - ?x * of_nat c\<bar> \<le> 1 / 2 + ?x / 100" by linarith
  then show ?thesis unfolding q_def n_def c_def .
qed

section \<open>All quotas together\<close>

lemma weight_le_sum: "p \<in> set queues \<Longrightarrow> unat (snd p) \<le> weight_sum queues"
  unfolding weight_sum_def by (intro member_le_sum_list) auto

definition quota_sum :: "(string \<times> u16) list \<Rightarrow> nat" where
  "quota_sum qs = sum_list (map (\<lambda>p. unat (snd p)) qs)"

lemma quota_sum_mset: "mset xs = mset ys \<Longrightarrow> quota_sum xs = quota_sum ys"
  unfolding quota_sum_def by (rule sum_list_map_mset_cong)

lemma weight_sum_mset: "mset xs = mset ys \<Longrightarrow> weight_sum xs = weight_sum ys"
  unfolding weight_sum_def by (rule sum_list_map_mset_cong)

lemma mset_quota:
  "mset (quota queues cap) = mset (map (\<lambda>(q, w). (q, quota_of (total_weight queues) cap w)) queues)"
  by (simp add: quota_def)

lemma quota_sum_quota:
  "quota_sum (quota queues cap) =
     sum_list (map (\<lambda>p. unat (quota_of (total_weight queues) cap (snd p))) queues)"
proof -
  have "quota_sum (quota queues cap) =
        quota_sum (map (\<lambda>(q, w). (q, quota_of (total_weight queues) cap w)) queues)"
    by (rule quota_sum_mset) (rule mset_quota)
  then show ?thesis by (simp add: quota_sum_def case_prod_beta o_def)
qed

lemma sum_list_deviation:
  fixes f g h :: "'a \<Rightarrow> rat"
  assumes "\<And>x. x \<in> set xs \<Longrightarrow> \<bar>f x - g x\<bar> \<le> h x"
  shows "\<bar>sum_list (map f xs) - sum_list (map g xs)\<bar> \<le> sum_list (map h xs)"
  using assms
proof (induction xs)
  case (Cons x xs)
  then have "\<bar>f x - g x\<bar> \<le> h x" "\<bar>sum_list (map f xs) - sum_list (map g xs)\<bar> \<le> sum_list (map h xs)"
    by auto
  then show ?case by simp
qed simp

text \<open>
  Rounding every share on its own loses or gains at most half a transaction per queue: the sum
  of the quotas misses the capacity by at most half the number of queues.
\<close>

lemma quota_sum_near_cap:
  assumes "0 < weight_sum queues" "weight_sum queues < 2 ^ 24"
  shows "2 * quota_sum (quota queues cap) \<le> 2 * unat cap + length queues"
    "2 * unat cap \<le> 2 * quota_sum (quota queues cap) + length queues"
proof -
  define W where "W = (of_nat (weight_sum queues) :: rat)"
  define C where "C = (of_nat (unat cap) :: rat)"
  have W: "0 < W" using assms(1) by (simp add: W_def)
  let ?w = "\<lambda>p :: string \<times> u8. of_nat (unat (snd p)) :: rat"
  let ?f = "\<lambda>p :: string \<times> u8. of_nat (unat (quota_of (total_weight queues) cap (snd p))) :: rat"
  have "\<bar>?f p - ?w p / W * C\<bar> \<le> 1 / 2 + ?w p / W / 100" if "p \<in> set queues" for p
    unfolding total_weight_exact [OF assms(2)] W_def C_def
    using that assms(1) by (intro quota_of_err weight_le_sum)
  then have "\<bar>sum_list (map ?f queues) - sum_list (map (\<lambda>p. ?w p / W * C) queues)\<bar>
      \<le> sum_list (map (\<lambda>p. 1 / 2 + ?w p / W / 100) queues)"
    by (rule sum_list_deviation)
  moreover have ws: "sum_list (map (\<lambda>p. ?w p) queues) = W"
    unfolding W_def weight_sum_def of_nat_sum_list_map ..
  have "(\<lambda>p. ?w p / W * C) = (\<lambda>p. ?w p * (C / W))" by (simp add: fun_eq_iff)
  then have "sum_list (map (\<lambda>p. ?w p / W * C) queues) = sum_list (map (\<lambda>p. ?w p) queues) * (C / W)"
    by (simp only: sum_list_mult_const)
  then have "sum_list (map (\<lambda>p. ?w p / W * C) queues) = C"
    using W unfolding ws by simp
  moreover have "(\<lambda>p. 1 / 2 + ?w p / W / 100) = (\<lambda>p. 1 / 2 + ?w p * (1 / (100 * W)))"
    by (simp add: fun_eq_iff)
  then have "sum_list (map (\<lambda>p. 1 / 2 + ?w p / W / 100) queues) =
      of_nat (length queues) * (1 / 2) + sum_list (map (\<lambda>p. ?w p) queues) * (1 / (100 * W))"
    by (simp only: sum_list_addf sum_list_mult_const sum_list_triv)
  then have "sum_list (map (\<lambda>p. 1 / 2 + ?w p / W / 100) queues) = of_nat (length queues) / 2 + 1 / 100"
    using W unfolding ws by simp
  moreover have "sum_list (map ?f queues) = of_nat (quota_sum (quota queues cap))"
    unfolding quota_sum_quota of_nat_sum_list_map ..
  ultimately have "\<bar>of_nat (quota_sum (quota queues cap)) - C\<bar> \<le> of_nat (length queues) / 2 + 1 / 100"
    by simp
  then have "of_nat (2 * quota_sum (quota queues cap)) < (of_nat (2 * unat cap + length queues + 1) :: rat)"
    "of_nat (2 * unat cap) < (of_nat (2 * quota_sum (quota queues cap) + length queues + 1) :: rat)"
    unfolding C_def by (simp_all add: abs_le_iff)
  then show "2 * quota_sum (quota queues cap) \<le> 2 * unat cap + length queues"
    "2 * unat cap \<le> 2 * quota_sum (quota queues cap) + length queues"
    unfolding of_nat_less_iff by linarith+
qed

section \<open>Spreading the quotas\<close>

definition state_count :: "TransactionState list \<Rightarrow> string \<Rightarrow> nat" where
  "state_count state q = (case find (\<lambda>s. ts_queue s = q) state of None \<Rightarrow> 0 | Some s \<Rightarrow> unat (ts_count s))"

lemma find_queue:
  assumes "q \<in> ts_queue ` set state"
  obtains s where "find (\<lambda>s. ts_queue s = q) state = Some s" "unat (ts_count s) = state_count state q"
  using assms by (cases "find (\<lambda>s. ts_queue s = q) state") (auto simp: find_None_iff state_count_def)

lemma unat_used_quota:
  "unat (ucast (min (c :: u32) (ucast (k :: u16))) :: u16) = min (unat c) (unat k)"
proof -
  have k: "unat (ucast k :: u32) = unat k"
    using u16_small [of k] by (simp add: unat_ucast_mod)
  have m: "unat (min c (ucast k)) = min (unat c) (unat k)"
    using k by (simp add: min_def word_le_nat_alt)
  have "min (unat c) (unat k) < 65536" using u16_small [of k] by simp
  with m show ?thesis by (simp add: unat_ucast_mod)
qed

text \<open>
  As long as the quotas and the leftover fit into a \<open>u16\<close>, the loop neither panics nor wraps;
  every queue of the map gets a limit between its own quota and its backlog, and together the
  limits use no more than was there to distribute.
\<close>

lemma spread_ok:
  assumes "quota_sum qs + unat leftover < 65536" "fst ` set qs \<subseteq> ts_queue ` set state"
  shows "\<exists>lims. spread oc state qs leftover = Inr lims \<and> map fst lims = map fst qs \<and>
     quota_sum lims \<le> quota_sum qs + unat leftover \<and>
     (\<forall>p\<in>set lims. unat (snd p) \<le> state_count state (fst p)) \<and>
     (\<forall>i<length qs. min (state_count state (fst (qs ! i))) (unat (snd (qs ! i))) \<le> unat (snd (lims ! i)))"
  using assms
proof (induction qs arbitrary: leftover)
  case Nil
  then show ?case by (simp add: quota_sum_def)
next
  case (Cons qn qs)
  obtain q n where qn: "qn = (q, n)" by fastforce
  from Cons.prems(2) qn obtain s where
    s: "find (\<lambda>s. ts_queue s = q) state = Some s" "unat (ts_count s) = state_count state q"
    using find_queue [of q state] by (metis fst_conv image_eqI list.set_intros(1) subsetD)
  let ?cur = "n + leftover"
  let ?used = "ucast (min (ts_count s) (ucast ?cur :: u32)) :: u16"
  have fits: "unat n + unat leftover < 2 ^ LENGTH(16)"
    using Cons.prems(1) qn by (simp add: quota_sum_def)
  have cur: "unat ?cur = unat n + unat leftover" using fits by (rule unat_add_exact)
  have used: "unat ?used = min (state_count state q) (unat ?cur)"
    using unat_used_quota [of "ts_count s" ?cur] s(2) by simp
  then have le: "?used \<le> ?cur" by (simp add: word_le_nat_alt)
  have left: "unat (?cur - ?used) = unat ?cur - unat ?used" using le by (rule unat_sub_exact)
  have "quota_sum qs + unat (?cur - ?used) < 65536"
    using Cons.prems(1) qn left cur by (simp add: quota_sum_def)
  with Cons.IH [of "?cur - ?used"] Cons.prems(2) obtain lims where
    lims: "spread oc state qs (?cur - ?used) = Inr lims" "map fst lims = map fst qs"
      "quota_sum lims \<le> quota_sum qs + unat (?cur - ?used)"
      "\<forall>p\<in>set lims. unat (snd p) \<le> state_count state (fst p)"
      "\<forall>i<length qs. min (state_count state (fst (qs ! i))) (unat (snd (qs ! i))) \<le> unat (snd (lims ! i))"
    by auto
  have "spread oc state (qn # qs) leftover = Inr ((q, ?used) # lims)"
    using lims(1) s(1) le fits by (simp add: qn Let_def)
  moreover have "quota_sum ((q, ?used) # lims) \<le> quota_sum (qn # qs) + unat leftover"
    using lims(3) left cur used qn by (simp add: quota_sum_def)
  moreover have "min (state_count state q) (unat n) \<le> unat ?used" using used cur by simp
  ultimately show ?case
    using lims(2,4,5) used qn by (auto simp: All_less_Suc2 nth_Cons split: nat.splits)
qed

section \<open>The next batch\<close>

lemma iter_okD: "iter_ok it \<Longrightarrow> mset (it xs) = mset xs" "iter_ok it \<Longrightarrow> set (it xs) = set xs"
    "iter_ok it \<Longrightarrow> length (it xs) = length xs"
  by (auto simp: iter_ok_def dest: spec mset_eq_setD mset_eq_length)

lemma set_fst_quota: "fst ` set (quota queues cap) = fst ` set queues"
proof -
  have "set (quota queues cap) = set (map (\<lambda>(q, w). (q, quota_of (total_weight queues) cap w)) queues)"
    using mset_quota by (rule mset_eq_setD)
  then show ?thesis by (simp add: image_image case_prod_beta)
qed

lemma state_count_queued:
  assumes "state_of st d = (Inr state, d')" "q \<in> ts_queue ` set state"
  shows "state_count state q = queued st d q"
proof -
  obtain s where s: "find (\<lambda>s. ts_queue s = q) state = Some s" "unat (ts_count s) = state_count state q"
    using assms(2) by (rule find_queue)
  then have "s \<in> set state" "ts_queue s = q" by (auto simp: find_Some_iff)
  with state_of_ok(3) [OF assms(1), of q "state_count state q"] s show ?thesis by blast
qed

text \<open>The queues that hold transactions of a status, with their weights.\<close>

definition backlog :: "queue_set \<Rightarrow> TransactionStatus \<Rightarrow> db \<Rightarrow> (string \<times> u8) list" where
  "backlog queues st d = map (\<lambda>q. (q, weight_of queues q)) (remdups (queues_with st d))"

lemma quota_sum_upper:
  assumes "weight_sum queues < 2 ^ 24"
  shows "2 * quota_sum (quota queues cap) \<le> 2 * unat cap + length queues"
proof (cases "weight_sum queues = 0")
  case True
  then have "\<forall>p\<in>set queues. snd p = 0"
    by (auto simp: weight_sum_def unat_eq_zero)
  then have "\<forall>p\<in>set queues. quota_of (total_weight queues) cap (snd p) = 0"
    using total_weight_exact [OF assms] True by (simp add: quota_of_zero)
  then have "quota_sum (quota queues cap) = 0"
    unfolding quota_sum_quota by (simp add: sum_list_eq_0_iff)
  then show ?thesis by simp
next
  case False
  with quota_sum_near_cap(1) [OF _ assms] show ?thesis by simp
qed

lemma quota_keys:
  assumes "state_of st d = (Inr state, d1)" "iter_ok iter_w" "iter_ok iter_q"
  shows "mset (map fst (iter_q (quota (iter_w (map (\<lambda>s. (ts_queue s, weight_of queues (ts_queue s))) state)) cap))) =
    mset (remdups (queues_with st d))"
proof -
  let ?sq = "iter_w (map (\<lambda>s. (ts_queue s, weight_of queues (ts_queue s))) state)"
  have "map (\<lambda>s. (ts_queue s, weight_of queues (ts_queue s))) state = backlog queues st d"
    unfolding backlog_def state_of_ok(2) [OF assms(1), symmetric] by simp
  then have sq: "mset ?sq = mset (backlog queues st d)" using iter_okD(1) [OF assms(2)] by simp
  have "mset (map fst (iter_q (quota ?sq cap))) = image_mset fst (mset (quota ?sq cap))"
    using iter_okD(1) [OF assms(3)] by simp
  also have "\<dots> = image_mset fst (mset ?sq)" by (simp add: mset_quota case_prod_beta o_def image_mset.compositionality)
  also have "\<dots> = mset (remdups (queues_with st d))"
    unfolding sq by (simp add: backlog_def image_mset.compositionality o_def)
  finally show ?thesis .
qed

lemma spread_keys: "spread oc state qs leftover = Inr lims \<Longrightarrow> map fst lims = map fst qs"
  by (induction oc state qs leftover arbitrary: lims rule: spread.induct) (auto simp: Let_def)

lemma limits_of_state:
  assumes "state_of st d = (Inr state, d1)" "iter_ok iter_w" "iter_ok iter_q"
    "weight_sum (backlog queues st d) < 2 ^ 24"
    "unat cap + length (backlog queues st d) < 65536"
  defines "sq \<equiv> iter_w (map (\<lambda>s. (ts_queue s, weight_of queues (ts_queue s))) state)"
  shows "\<exists>lims. spread oc state (iter_q (quota sq cap)) 0 = Inr lims \<and>
      map fst lims = map fst (iter_q (quota sq cap)) \<and>
      mset (map fst lims) = mset (remdups (queues_with st d)) \<and>
      2 * quota_sum lims \<le> 2 * unat cap + length (backlog queues st d) \<and>
      (\<forall>p\<in>set lims. unat (snd p) \<le> queued st d (fst p)) \<and>
      (\<forall>i<length lims. min (queued st d (fst (iter_q (quota sq cap) ! i)))
         (unat (snd (iter_q (quota sq cap) ! i))) \<le> unat (snd (lims ! i)))"
proof -
  have "map (\<lambda>s. (ts_queue s, weight_of queues (ts_queue s))) state = backlog queues st d"
    unfolding backlog_def state_of_ok(2) [OF assms(1), symmetric] by simp
  then have sq: "mset sq = mset (backlog queues st d)"
    using iter_okD(1) [OF assms(2)] by (simp add: sq_def)
  have len: "length sq = length (backlog queues st d)" "weight_sum sq < 2 ^ 24"
    using sq weight_sum_mset [OF sq] assms(4) by (auto dest: mset_eq_length)
  let ?qs = "iter_q (quota sq cap)"
  have qs: "mset ?qs = mset (quota sq cap)" using iter_okD(1) [OF assms(3)] .
  have up: "2 * quota_sum ?qs \<le> 2 * unat cap + length (backlog queues st d)"
    using quota_sum_upper [OF len(2), of cap] quota_sum_mset [OF qs] len(1) by simp
  with assms(5) have fits: "quota_sum ?qs + unat (0 :: u16) < 65536" by simp
  have keys: "mset (map fst ?qs) = mset (remdups (queues_with st d))"
    unfolding sq_def by (rule quota_keys [OF assms(1-3)])
  then have sub: "fst ` set ?qs \<subseteq> ts_queue ` set state"
    using state_of_ok(2) [OF assms(1)] by (metis list.set_map mset_eq_setD order_refl)
  from spread_ok [OF fits sub, of oc] obtain lims where
    lims: "spread oc state ?qs 0 = Inr lims" "map fst lims = map fst ?qs"
      "quota_sum lims \<le> quota_sum ?qs" "\<forall>p\<in>set lims. unat (snd p) \<le> state_count state (fst p)"
      "\<forall>i<length ?qs. min (state_count state (fst (?qs ! i))) (unat (snd (?qs ! i))) \<le> unat (snd (lims ! i))"
    by auto
  have cnt: "state_count state q = queued st d q" if "q \<in> fst ` set ?qs" for q
    using state_count_queued [OF assms(1)] that sub by blast
  have len: "length lims = length ?qs" using lims(2) by (metis length_map)
  have fs: "fst ` set lims = fst ` set ?qs" using lims(2) by (metis list.set_map)
  have "unat (snd p) \<le> queued st d (fst p)" if "p \<in> set lims" for p
    using lims(4) that fs cnt [of "fst p"] by fastforce
  moreover have "min (queued st d (fst (?qs ! i))) (unat (snd (?qs ! i))) \<le> unat (snd (lims ! i))"
    if "i < length lims" for i
  proof -
    have "state_count state (fst (?qs ! i)) = queued st d (fst (?qs ! i))"
      using that len by (intro cnt) simp
    with lims(5) that len show ?thesis by metis
  qed
  ultimately show ?thesis
    using lims(1,2,3) up keys by (intro exI [of _ lims]) auto
qed

lemma length_next_le:
  assumes "next_txs st lims d = (Inr ts, d')"
  shows "length ts \<le> quota_sum lims"
proof -
  have "length (next_arm st d ql) \<le> unat (snd ql)" for ql by (simp add: length_next_arm)
  then have "sum_list (map (\<lambda>ql. length (next_arm st d ql)) lims) \<le> sum_list (map (\<lambda>ql. unat (snd ql)) lims)"
    by (intro sum_list_mono) simp
  then show ?thesis
    using next_txs_ok(1) [OF assms] by (simp add: length_concat o_def quota_sum_def)
qed

lemma next_txs_members:
  assumes "db_wf d" "next_txs st lims d = (Inr ts, d')" "t \<in> set ts"
  shows "tx_status t = st" "entries d (tx_id t) = Some (entry_of_tx t)" "tx_queue t \<in> fst ` set lims"
proof -
  obtain ql r where r: "ql \<in> set lims" "r \<in> set (next_arm st d ql)" "t = tx_of_row r"
    using assms(3) next_txs_ok(1) [OF assms(2)] by auto
  note m = next_arm_subset [OF r(2)]
  show "tx_status t = st" using m r(3) status_of_row_iff [OF assms(1), of r st] by simp
  show "entries d (tx_id t) = Some (entry_of_tx t)"
    using m r(3) entries_Some_iff [OF assms(1)] by auto
  show "tx_queue t \<in> fst ` set lims" using m r by auto
qed

lemma distinct_concat_arms:
  assumes "db_wf d" "distinct (map fst lims)"
  shows "distinct (map row_id (concat (map (next_arm st d) lims)))"
  using assms(2)
proof (induction lims)
  case (Cons ql lims)
  have inj: "inj_on row_id (set (tx_tbl d))" using assms(1) by (simp add: db_wf_def distinct_map)
  have "distinct (filter (\<lambda>r. row_status r = status_to_string st \<and> row_queue r = fst ql) (tx_tbl d))"
    using assms(1) by (simp add: db_wf_def distinct_map)
  then have arm: "distinct (next_arm st d ql)" by (simp add: next_arm_def)
  have a: "distinct (map row_id (next_arm st d ql))"
    using arm inj by (auto simp: distinct_map inj_on_def dest: next_arm_subset)
  have "row_id x \<noteq> row_id y" if "x \<in> set (next_arm st d ql)" "y \<in> set (next_arm st d ql')"
    "ql' \<in> set lims" for x y ql'
  proof
    assume "row_id x = row_id y"
    with inj that have "x = y" by (auto simp: inj_on_def dest: next_arm_subset)
    with that have "fst ql = fst ql'" using next_arm_subset by metis
    with Cons.prems that(3) show False by (auto simp: image_iff)
  qed
  with a Cons show ?case by auto
qed simp

lemma priority_next_cases:
  assumes "priority_next oc iter_w iter_q queues st cap d = (r, d')"
  obtains (sql) e where "r = Inl (Err e)" "same_tables d d'"
  | (none) d1 where "state_of st d = (Inr [], d1)" "r = Inr []" "d' = d1"
  | (limits) state d1 sr where "state_of st d = (Inr state, d1)" "state \<noteq> []"
      "sr = spread oc state (iter_q (quota (iter_w (map (\<lambda>s. (ts_queue s, weight_of queues (ts_queue s))) state)) cap)) 0"
      "(\<exists>f. sr = Inl f \<and> r = Inl f \<and> d' = d1) \<or>
       (\<exists>lims ts. sr = Inr lims \<and> next_txs st (iter_q lims) d1 = (Inr ts, d') \<and> r = Inr ts)"
proof -
  obtain sr1 d1 where s: "state_of st d = (sr1, d1)" by fastforce
  then have same: "same_tables d d1" by (auto simp: state_of_def dest: fetch_rows_same_tables)
  show thesis
  proof (cases sr1)
    case (Inl e)
    with assms s same show thesis by (intro sql) (auto simp: priority_next_def sx_defs)
  next
    case (Inr state)
    show thesis
    proof (cases "state = []")
      case True
      with Inr assms s show thesis by (intro none) (auto simp: priority_next_def sx_defs)
    next
      case False
      let ?sr = "spread oc state (iter_q (quota (iter_w (map (\<lambda>s. (ts_queue s, weight_of queues (ts_queue s))) state)) cap)) 0"
      show thesis
      proof (cases ?sr)
        case (Inl f)
        with False Inr assms s show thesis
          by (intro limits [of state d1 ?sr]) (auto simp: priority_next_def sx_defs Let_def)
      next
        case (Inr lims)
        obtain nr d2 where n: "next_txs st (iter_q lims) d1 = (nr, d2)" by fastforce
        then have "same_tables d1 d2" by (auto simp: next_txs_def dest: fetch_rows_same_tables)
        with same have "same_tables d d2" by (rule same_tables_trans)
        moreover have "priority_next oc iter_w iter_q queues st cap d =
            (case nr of Inl e \<Rightarrow> (Inl (Err e), d2) | Inr ts \<Rightarrow> (Inr ts, d2))"
          using \<open>sr1 = Inr state\<close> False Inr s n
          by (auto simp: priority_next_def sx_defs Let_def split: sum.splits)
        ultimately show thesis
          using assms \<open>sr1 = Inr state\<close> False Inr s n
          by (cases nr) (auto intro: sql limits [of state d1 ?sr])
      qed
    qed
  qed
qed

text \<open>What a successful call returns, whatever the weights and the capacity.\<close>

lemma priority_next_members:
  assumes "db_wf d" "iter_ok iter_w" "iter_ok iter_q"
    "priority_next oc iter_w iter_q queues st cap d = (Inr ts, d')"
  shows "same_tables d d' \<and> distinct (map tx_id ts) \<and>
    (\<forall>t\<in>set ts. tx_status t = st \<and> entries d (tx_id t) = Some (entry_of_tx t))"
  using assms(4)
proof (cases rule: priority_next_cases)
  case (none d1)
  then show ?thesis using state_of_ok(1) by auto
next
  case (limits state d1 sr)
  then obtain lims where l: "sr = Inr lims" "next_txs st (iter_q lims) d1 = (Inr ts, d')" by auto
  have same: "same_tables d d1" using state_of_ok(1) [OF limits(1)] .
  then have wf: "db_wf d1" "entries d1 = entries d"
    using assms(1) by (simp_all add: same_tables_predicates)
  have keys: "mset (map fst lims) = mset (remdups (queues_with st d))"
    using quota_keys [OF limits(1) assms(2,3), of queues cap]
      spread_keys [OF trans [OF limits(3) [symmetric] l(1)]] by simp
  have il: "mset (iter_q lims) = mset lims" using iter_okD(1) [OF assms(3)] .
  have "distinct (map fst (iter_q lims))"
    using keys il by (metis distinct_remdups mset_eq_imp_distinct_iff mset_map)
  from distinct_concat_arms [OF wf(1) this, of st] next_txs_ok(1) [OF l(2)]
  have "distinct (map tx_id ts)" by (simp add: map_concat o_def)
  then show ?thesis
    using next_txs_members(1,2) [OF wf(1) l(2)] wf(2) next_txs_ok(2) [OF l(2)] same same_tables_trans by auto
qed simp_all

lemma priority_next_same_tables:
  assumes "priority_next oc iter_w iter_q queues st cap d = (r, d')"
  shows "same_tables d d'"
  using assms
proof (cases rule: priority_next_cases)
  case (none d1)
  then show ?thesis using state_of_ok(1) by auto
next
  case (limits state d1 sr)
  then show ?thesis using state_of_ok(1) [OF limits(1)] next_txs_ok(2) same_tables_trans by blast
qed simp_all

section \<open>Properties of the priority queue\<close>

text \<open>
  Three queues with one pending transaction each, none of them configured: a database for the
  witnesses, and the iteration order in which the maps are built.
\<close>

definition three_queues :: db where
  "three_queues = demo_db\<lparr>tx_tbl := [demo_row ''a'' ''pending'' None ''x'' 1,
     demo_row ''b'' ''pending'' None ''y'' 2, demo_row ''c'' ''pending'' None ''z'' 3]\<rparr>"

lemma three_queues_wf: "db_wf three_queues" "slots_wf three_queues" "no_faults three_queues"
  by (simp_all add: three_queues_def demo_defs db_defs status_from_str_def slot_small_def no_faults_def)

lemma three_queues_backlog:
  "backlog [] Pending three_queues = [(''x'', 1), (''y'', 1), (''z'', 1)]"
  "queues_with Pending three_queues = [''x'', ''y'', ''z'']"
  by (simp_all add: backlog_def queues_with_def three_queues_def demo_defs weight_of_def
      queues_get_def DEFAULT_WEIGHT_def)

lemma iter_ok_id [simp]: "iter_ok id" "iter_ok (\<lambda>xs. xs)"
  by (simp_all add: iter_ok_def)

lemma priority_next_bounded_lemma:
  assumes "db_wf d" "iter_ok iter_w" "iter_ok iter_q"
    "weight_sum (backlog queues st d) < 2 ^ 24"
    "unat cap + length (backlog queues st d) < 65536"
    "priority_next oc iter_w iter_q queues st cap d = (r, d')"
  shows "r \<noteq> Inl Panic \<and> (\<forall>ts. r = Inr ts \<longrightarrow>
      2 * length ts \<le> 2 * unat cap + length (backlog queues st d) \<and> distinct (map tx_id ts) \<and>
      (\<forall>t\<in>set ts. tx_status t = st \<and> entries d (tx_id t) = Some (entry_of_tx t)))"
  using assms(6)
proof (cases rule: priority_next_cases)
  case (limits state d1 sr)
  from limits_of_state [OF limits(1) assms(2,3,4,5), of oc] limits(3) obtain lims where
    lims: "sr = Inr lims" "2 * quota_sum lims \<le> 2 * unat cap + length (backlog queues st d)"
    by auto
  with limits(4) obtain ts where ts: "next_txs st (iter_q lims) d1 = (Inr ts, d')" "r = Inr ts"
    by auto
  have "mset (iter_q lims) = mset lims" using iter_okD(1) [OF assms(3)] .
  from length_next_le [OF ts(1)] quota_sum_mset [OF this] lims(2)
  have "2 * length ts \<le> 2 * unat cap + length (backlog queues st d)" by simp
  with priority_next_members [OF assms(1-3) assms(6) [unfolded ts(2)]] ts(2) show ?thesis by simp
qed simp_all

text \<open>
  C14.  The next batch respects its capacity up to rounding.  In either build, for every
  iteration order of the maps, when the weights sum up to less than \<open>2^24\<close> and the capacity
  leaves room for the rounding, \<open>Priority::next\<close> does not panic, and what it returns are
  distinct transactions of the requested status, as stored, at most half the number of waiting
  queues more than the capacity.
\<close>

theorem priority_next_bounded:
  assumes "db_wf d" "iter_ok iter_w" "iter_ok iter_q"
    "weight_sum (backlog queues st d) < 2 ^ 24"
    "unat cap + length (backlog queues st d) < 65536"
    "priority_next oc iter_w iter_q queues st cap d = (r, d')"
  shows "r \<noteq> Inl Panic \<and> (\<forall>ts. r = Inr ts \<longrightarrow>
      2 * length ts \<le> 2 * unat cap + length (backlog queues st d) \<and> distinct (map tx_id ts) \<and>
      (\<forall>t\<in>set ts. tx_status t = st \<and> entries d (tx_id t) = Some (entry_of_tx t)))"
  using assms by (rule priority_next_bounded_lemma)

theorem priority_next_bounded_witness:
  "fst (priority_next True id id [] Pending 10 three_queues) \<noteq> Inl Panic"
proof -
  have s: "weight_sum (backlog [] Pending three_queues) < 2 ^ 24"
    "unat (10 :: u16) + length (backlog [] Pending three_queues) < 65536"
    by (simp_all add: three_queues_backlog weight_sum_def)
  have "priority_next True id id [] Pending 10 three_queues =
    (fst (priority_next True id id [] Pending 10 three_queues),
     snd (priority_next True id id [] Pending 10 three_queues))" by simp
  from priority_next_bounded [OF three_queues_wf(1) iter_ok_id(1) iter_ok_id(1) s this]
  show ?thesis by blast
qed

lemma heaviest_quota:
  assumes "0 < weight_sum queues" "weight_sum queues < 2 ^ 24" "length queues \<le> unat cap"
  shows "\<exists>p\<in>set queues. 1 \<le> unat (quota_of (total_weight queues) cap (snd p))"
proof (rule ccontr)
  assume "\<not> ?thesis"
  then have "\<forall>p\<in>set queues. unat (quota_of (total_weight queues) cap (snd p)) = 0" by auto
  then have "quota_sum (quota queues cap) = 0" unfolding quota_sum_quota by (simp add: sum_list_eq_0_iff)
  with quota_sum_near_cap(2) [OF assms(1,2), of cap] assms(3) have "length queues = 0" by linarith
  with assms(1) show False by (simp add: weight_sum_def)
qed

lemma positive_limit:
  assumes "state_of st d = (Inr state, d1)" "iter_ok iter_w" "iter_ok iter_q"
    "0 < weight_sum (backlog queues st d)" "weight_sum (backlog queues st d) < 2 ^ 24"
    "length (backlog queues st d) \<le> unat cap" "unat cap + length (backlog queues st d) < 65536"
  defines "sq \<equiv> iter_w (map (\<lambda>s. (ts_queue s, weight_of queues (ts_queue s))) state)"
  shows "\<exists>lims q l. spread oc state (iter_q (quota sq cap)) 0 = Inr lims \<and> (q, l) \<in> set lims \<and>
    1 \<le> unat l \<and> 0 < queued st d q"
proof -
  let ?qs = "iter_q (quota sq cap)"
  from limits_of_state [OF assms(1-3,5,7), of oc] obtain lims where
    lims: "spread oc state ?qs 0 = Inr lims" "map fst lims = map fst ?qs"
      "\<forall>i<length lims. min (queued st d (fst (?qs ! i))) (unat (snd (?qs ! i))) \<le> unat (snd (lims ! i))"
    unfolding sq_def by blast
  have "map (\<lambda>s. (ts_queue s, weight_of queues (ts_queue s))) state = backlog queues st d"
    unfolding backlog_def state_of_ok(2) [OF assms(1), symmetric] by simp
  then have sq: "mset sq = mset (backlog queues st d)"
    using iter_okD(1) [OF assms(2)] by (simp add: sq_def)
  obtain p where p: "p \<in> set sq" "1 \<le> unat (quota_of (total_weight sq) cap (snd p))"
    using heaviest_quota [of sq cap] assms(4-6) weight_sum_mset [OF sq] mset_eq_length [OF sq] by auto
  have "(fst p, quota_of (total_weight sq) cap (snd p)) \<in> set (quota sq cap)"
    using p(1) mset_eq_setD [OF mset_quota [of sq cap]] by (auto simp: case_prod_beta)
  then have "(fst p, quota_of (total_weight sq) cap (snd p)) \<in> set ?qs"
    using iter_okD(2) [OF assms(3)] by simp
  then obtain i where i: "i < length ?qs" "?qs ! i = (fst p, quota_of (total_weight sq) cap (snd p))"
    by (auto simp: in_set_conv_nth)
  have len: "length lims = length ?qs" using lims(2) by (metis length_map)
  have fi: "fst (lims ! i) = fst p" using lims(2) i len by (metis fst_conv nth_map)
  have q: "0 < queued st d (fst p)"
    using p(1) mset_eq_setD [OF sq] by (auto simp: backlog_def queued_positive_iff)
  have "min (queued st d (fst p)) (unat (snd (?qs ! i))) \<le> unat (snd (lims ! i))"
    using lims(3) i len by (metis fst_conv)
  with q p(2) i(2) have "1 \<le> unat (snd (lims ! i))" by simp
  moreover have "(fst p, snd (lims ! i)) \<in> set lims" using i len fi by (metis nth_mem prod.collapse)
  ultimately show ?thesis using lims(1) q by blast
qed

lemma priority_next_progress_lemma:
  assumes "db_wf d" "slots_wf d" "no_faults d" "\<forall>q. queued st d q < 2 ^ 32"
    "iter_ok iter_w" "iter_ok iter_q"
    "0 < weight_sum (backlog queues st d)" "weight_sum (backlog queues st d) < 2 ^ 24"
    "length (backlog queues st d) \<le> unat cap" "unat cap + length (backlog queues st d) < 65536"
  shows "\<exists>ts d'. priority_next oc iter_w iter_q queues st cap d = (Inr ts, d') \<and> ts \<noteq> [] \<and> no_faults d'"
proof -
  obtain state d1 where s: "state_of st d = (Inr state, d1)" "no_faults d1" "same_tables d d1"
    using state_of_succeeds assms(3,4) by blast
  have ne: "state \<noteq> []"
    using state_of_ok(2) [OF s(1)] assms(7) by (auto simp: backlog_def weight_sum_def)
  obtain lims q l where lims:
    "spread oc state (iter_q (quota (iter_w (map (\<lambda>s. (ts_queue s, weight_of queues (ts_queue s))) state)) cap)) 0 = Inr lims"
    "(q, l) \<in> set lims" "1 \<le> unat l" "0 < queued st d q"
    using positive_limit [OF s(1) assms(5-10), of oc] by blast
  have wf: "db_wf d1" "slots_wf d1" using assms(1,2) s(3) by (simp_all add: same_tables_predicates)
  obtain ts d' where ts: "next_txs st (iter_q lims) d1 = (Inr ts, d')" "no_faults d'"
    using next_txs_succeeds [OF s(2) wf] by blast
  have mem: "(q, l) \<in> set (iter_q lims)" using lims(2) iter_okD(2) [OF assms(6)] by simp
  have "next_arm st d1 (q, l) \<noteq> []"
    using lims(3,4) s(3) length_next_arm [of st d1 "(q, l)"]
    by (auto simp: queued_def same_tables_def min_def split: if_splits)
  with mem next_txs_ok(1) [OF ts(1)] have "ts \<noteq> []" by fastforce
  moreover have "priority_next oc iter_w iter_q queues st cap d = (Inr ts, d')"
    using s(1) ne lims(1) ts(1) by (simp add: priority_next_def sx_defs Let_def)
  ultimately show ?thesis using ts(2) by blast
qed

text \<open>
  C24.  The scheduler makes progress.  Without storage faults, as long as the capacity is at
  least the number of waiting queues, not all weights are zero and the sums stay in range,
  \<open>Priority::next\<close> returns a non-empty batch.
\<close>

theorem priority_next_progress:
  assumes "db_wf d" "slots_wf d" "no_faults d" "\<forall>q. queued st d q < 2 ^ 32"
    "iter_ok iter_w" "iter_ok iter_q"
    "0 < weight_sum (backlog queues st d)" "weight_sum (backlog queues st d) < 2 ^ 24"
    "length (backlog queues st d) \<le> unat cap" "unat cap + length (backlog queues st d) < 65536"
  shows "\<exists>ts d'. priority_next oc iter_w iter_q queues st cap d = (Inr ts, d') \<and> ts \<noteq> []"
  using priority_next_progress_lemma [OF assms] by blast

theorem priority_next_progress_witness:
  "\<exists>ts d'. priority_next False rev id [] Pending 3 three_queues = (Inr ts, d') \<and> ts \<noteq> []"
proof (rule priority_next_progress)
  show "\<forall>q. queued Pending three_queues q < 2 ^ 32"
  proof
    fix q
    have "queued Pending three_queues q \<le> length (tx_tbl three_queues)"
      unfolding queued_def by (rule length_filter_le)
    then show "queued Pending three_queues q < 2 ^ 32" by (simp add: three_queues_def)
  qed
qed (simp_all add: three_queues_wf three_queues_backlog weight_sum_def iter_ok_def)

text \<open>
  C25.  Quotas follow the weights.  Every queue of the map gets the share of the capacity that
  its weight is of the sum, up to one half (the rounding) and a hundredth (the single
  precision), and a queue of at least the same weight gets at least the same quota.
\<close>

theorem quota_proportional:
  assumes "0 < weight_sum queues" "weight_sum queues < 2 ^ 24" "(q, w) \<in> set queues"
  shows "\<exists>n. (q, n) \<in> set (quota queues cap) \<and>
      \<bar>of_nat (unat n) - of_nat (unat w) * of_nat (unat cap) / (of_nat (weight_sum queues) :: rat)\<bar>
        \<le> 51 / 100 \<and>
      (\<forall>q' w'. (q', w') \<in> set queues \<and> w \<le> w' \<longrightarrow>
         (\<exists>n'. (q', n') \<in> set (quota queues cap) \<and> n \<le> n'))"
proof -
  let ?n = "\<lambda>w. quota_of (total_weight queues) cap w"
  have mem: "(p, ?n v) \<in> set (quota queues cap)" if "(p, v) \<in> set queues" for p v
    using that mset_eq_setD [OF mset_quota [of queues cap]] by force
  have le: "unat v \<le> weight_sum queues" if "(p, v) \<in> set queues" for p v
    using weight_le_sum [OF that] by simp
  have fl: "int (unat (?n v)) = \<lfloor>share32 (weight_sum queues) (unat cap) (unat v) + 1 / 2\<rfloor>"
    if "(p, v) \<in> set queues" for p v
    unfolding total_weight_exact [OF assms(2)] using le [OF that] assms(1) by (rule quota_of_share)
  have mono: "?n w \<le> ?n w'" if "(q', w') \<in> set queues" "w \<le> w'" for q' w'
  proof -
    have "int (unat (?n w)) \<le> int (unat (?n w'))"
      unfolding fl [OF assms(3)] fl [OF that(1)] using that(2)
      by (intro floor_mono add_right_mono share32_mono) (simp add: word_le_nat_alt)
    then show ?thesis unfolding word_le_nat_alt of_nat_le_iff .
  qed
  define x where "x = (of_nat (unat w) / of_nat (weight_sum queues) :: rat)"
  define c where "c = (of_nat (unat cap) :: rat)"
  have "x \<le> 1" using le [OF assms(3)] assms(1) unfolding x_def by (simp only: divide_le_eq_1 of_nat_le_iff of_nat_0_less_iff)  simp
  have "\<bar>of_nat (unat (?n w)) - x * c\<bar> \<le> 1 / 2 + x / 100"
    unfolding total_weight_exact [OF assms(2)] x_def c_def using le [OF assms(3)] assms(1) by (rule quota_of_err)
  also have "\<dots> \<le> 51 / 100" using \<open>x \<le> 1\<close> by simp
  finally have "\<bar>of_nat (unat (?n w)) -
      of_nat (unat w) * of_nat (unat cap) / (of_nat (weight_sum queues) :: rat)\<bar> \<le> 51 / 100"
    unfolding x_def c_def by (simp only: times_divide_eq_left)
  with mem [OF assms(3)] mem mono show ?thesis by blast
qed

theorem quota_proportional_witness:
  "\<exists>n. (''banana'', n) \<in> set (quota [(''default'', 1), (''banana'', 2), (''orange'', 2)] 10) \<and>
     \<bar>of_nat (unat n) - (4 :: rat)\<bar> \<le> 51 / 100"
proof -
  have W: "weight_sum [(''default'', 1), (''banana'', 2), (''orange'', 2)] = 5"
    by (simp add: weight_sum_def)
  from quota_proportional [of "[(''default'', 1), (''banana'', 2), (''orange'', 2)]" "''banana''" 2 10]
  show ?thesis unfolding W by auto
qed

text \<open>
  The quotas of the repository's own test, and two consequences of rounding every share on its
  own: three equal queues share a capacity of 50 as 51, and of a capacity of 1 none of them
  gets anything, so \<open>next\<close> takes nothing although all of them wait.
\<close>

lemma quota_test_case:
  "mset (quota [(''default'', 1), (''banana'', 2), (''orange'', 2)] 10) =
   {#(''default'', 2), (''banana'', 4), (''orange'', 4)#}"
  unfolding mset_quota by code_simp

lemma quota_exceeds_cap: "quota_sum (quota [(''a'', 1), (''b'', 1), (''c'', 1)] 50) = 51"
  unfolding quota_sum_quota by code_simp

lemma quota_starves: "quota_sum (quota [(''a'', 1), (''b'', 1), (''c'', 1)] 1) = 0"
  unfolding quota_sum_quota by code_simp

end
