(* ===== verification/Ingest_Stage.thy ===== *)
theory Ingest_Stage
  imports Stage_Framework Signing Priority_Queue
begin

text \<open>
  The ingest stage, \<^verbatim>\<open>src/pipeline/ingest.rs\<close>: it takes the next batch of pending transactions,
  signs those of queues with server signing, validates and evaluates each one, broadcasts the
  accepted ones to the peers and records them as in flight.

  The state is the database, the messages sent so far on the broadcast channel, and a counter of
  the transactions looked at.  Whatever the surroundings answer while the stage looks at its
  \<open>k\<close>-th transaction (the signer, the ledger, the channel, the tip) is \<open>env k\<close>; a transaction
  that is tried again is looked at with other answers.
\<close>

section \<open>The worker\<close>

record tx_env =
  te_sign :: "bytes \<Rightarrow> (signing_error, bytes) outcome"
  te_validate :: u5c_adapter
  te_evaluate :: u5c_adapter
  te_send_ok :: bool
  te_tip :: "(u5c_error, point) outcome"

record ingest_state =
  is_db :: db
  is_sent :: "bytes list"
  is_now :: nat

type_synonym 'a ingest = "(ingest_state, worker_error fault, 'a) sx"

definition on_db :: "(db, 'e, 'a) sx \<Rightarrow> (ingest_state, 'e, 'a) sx" where
  "on_db m s = (case m (is_db s) of (r, d) \<Rightarrow> (r, s\<lparr>is_db := d\<rparr>))"

definition look :: "(nat \<Rightarrow> tx_env) \<Rightarrow> tx_env ingest" where
  "look env s = (Inr (env (is_now s)), s\<lparr>is_now := Suc (is_now s)\<rparr>)"

text \<open>\<open>or_retry\<close> on the outcome of a call that touches neither database nor channel.\<close>

definition retry_outcome :: "('e, 'a) outcome \<Rightarrow> (worker_error, 'a) outcome" where
  "retry_outcome r = (case r of Inl Panic \<Rightarrow> Inl Panic | Inl (Err _) \<Rightarrow> Inl (Err WorkerRetry) | Inr x \<Rightarrow> Inr x)"

definition CAP :: u16 where
  "CAP = 50"

text \<open>\<open>schedule\<close>; \<open>queued_len\<close> is the length of the output channel.\<close>

definition ingest_schedule ::
  "bool \<Rightarrow> ((string \<times> u8) list \<Rightarrow> (string \<times> u8) list) \<Rightarrow> ((string \<times> u16) list \<Rightarrow> (string \<times> u16) list) \<Rightarrow>
   queue_set \<Rightarrow> usize \<Rightarrow> (Transaction list schedule) work" where
  "ingest_schedule oc iter_w iter_q queues queued_len =
     sx_bind (sx_lift (sub_oc oc CAP (ucast queued_len))) (\<lambda>current_cap.
     if current_cap = 0 then sx_return Idle
     else
       sx_bind (sx_map_err (\<lambda>f. case f of Panic \<Rightarrow> Panic | Err _ \<Rightarrow> Err WorkerRetry)
                 (priority_next oc iter_w iter_q queues Pending current_cap)) (\<lambda>transactions.
       if transactions \<noteq> [] then sx_return (Unit transactions) else sx_return Idle))"

definition sign_if :: "bool \<Rightarrow> bool \<Rightarrow> tx_env \<Rightarrow> Transaction \<Rightarrow> (worker_error, Transaction) outcome" where
  "sign_if should_sign has_signer e tx =
     (if should_sign then
        if has_signer
        then res_bind (retry_outcome (te_sign e (tx_raw tx))) (\<lambda>raw. Inr (tx\<lparr>tx_raw := raw\<rparr>))
        else Inl (Err WorkerRetry)
      else Inr tx)"

definition mark_failed :: "Transaction \<Rightarrow> unit ingest" where
  "mark_failed tx = on_db (or_retry (update_one (tx\<lparr>tx_status := Failed\<rparr>)))"

definition broadcast :: "tx_env \<Rightarrow> Transaction \<Rightarrow> unit ingest" where
  "broadcast e tx =
     (if te_send_ok e then
        sx_bind (sx_modify (\<lambda>s. s\<lparr>is_sent := is_sent s @ [tx_raw tx]\<rparr>)) (\<lambda>_.
        sx_bind (sx_lift (retry_outcome (te_tip e))) (\<lambda>tip.
        on_db (or_retry (update_one (tx\<lparr>tx_status := InFlight, tx_slot := Some (fst tip)\<rparr>)))))
      else sx_return ())"

text \<open>The body of the loop of \<open>execute\<close>, for one transaction of the unit.\<close>

definition ingest_tx ::
  "('tx, 'out, 'rep) pallas \<Rightarrow> queue_set \<Rightarrow> bool \<Rightarrow> (nat \<Rightarrow> tx_env) \<Rightarrow> Transaction \<Rightarrow> unit ingest" where
  "ingest_tx pl queues has_signer env tx =
     sx_bind (look env) (\<lambda>e.
     sx_bind (sx_lift (ok_or WorkerRetry (queues_get queues (tx_queue tx)))) (\<lambda>cfg.
     sx_bind (sx_lift (sign_if (qc_server_signing cfg) has_signer e tx)) (\<lambda>tx.
     sx_bind (sx_lift (ok_or WorkerRecv (pl_decode pl (tx_raw tx)))) (\<lambda>metx.
     case validate_tx pl (te_validate e) metx of
       Inl Panic \<Rightarrow> sx_throw Panic
     | Inl (Err _) \<Rightarrow> mark_failed tx
     | Inr _ \<Rightarrow>
         (case evaluate_tx pl (te_evaluate e) metx of
            Inl Panic \<Rightarrow> sx_throw Panic
          | Inl (Err _) \<Rightarrow> mark_failed tx
          | Inr _ \<Rightarrow> broadcast e tx)))))"

definition ingest_execute ::
  "('tx, 'out, 'rep) pallas \<Rightarrow> queue_set \<Rightarrow> bool \<Rightarrow> (nat \<Rightarrow> tx_env) \<Rightarrow> Transaction list \<Rightarrow> unit ingest" where
  "ingest_execute pl queues has_signer env txs = sx_iter (ingest_tx pl queues has_signer env) txs"

section \<open>The decision about one transaction\<close>

text \<open>
  What is decided before anything is written or sent: the stage stops with a fault, or rejects the
  transaction, or accepts it; the bytes are those after signing.
\<close>

datatype verdict = Blocked "worker_error fault" | Rejected bytes | Accepted bytes

definition judge ::
  "('tx, 'out, 'rep) pallas \<Rightarrow> queue_set \<Rightarrow> bool \<Rightarrow> tx_env \<Rightarrow> Transaction \<Rightarrow> verdict" where
  "judge pl queues has_signer e tx =
     (case queues_get queues (tx_queue tx) of
        None \<Rightarrow> Blocked (Err WorkerRetry)
      | Some cfg \<Rightarrow>
          (case sign_if (qc_server_signing cfg) has_signer e tx of
             Inl f \<Rightarrow> Blocked f
           | Inr tx' \<Rightarrow>
               (case pl_decode pl (tx_raw tx') of
                  None \<Rightarrow> Blocked (Err WorkerRecv)
                | Some metx \<Rightarrow>
                    (case validate_tx pl (te_validate e) metx of
                       Inl Panic \<Rightarrow> Blocked Panic
                     | Inl (Err _) \<Rightarrow> Rejected (tx_raw tx')
                     | Inr _ \<Rightarrow>
                         (case evaluate_tx pl (te_evaluate e) metx of
                            Inl Panic \<Rightarrow> Blocked Panic
                          | Inl (Err _) \<Rightarrow> Rejected (tx_raw tx')
                          | Inr _ \<Rightarrow> Accepted (tx_raw tx'))))))"

lemma sign_if_tx:
  "sign_if b h e tx = Inr tx' \<Longrightarrow> tx' = tx\<lparr>tx_raw := tx_raw tx'\<rparr>"
  by (auto simp: sign_if_def split: if_splits)

lemma ingest_tx_judge:
  "ingest_tx pl queues has_signer env tx s =
     (let e = env (is_now s); s1 = s\<lparr>is_now := Suc (is_now s)\<rparr> in
      case judge pl queues has_signer e tx of
        Blocked f \<Rightarrow> (Inl f, s1)
      | Rejected raw \<Rightarrow> mark_failed (tx\<lparr>tx_raw := raw\<rparr>) s1
      | Accepted raw \<Rightarrow> broadcast e (tx\<lparr>tx_raw := raw\<rparr>) s1)"
proof (cases "queues_get queues (tx_queue tx)")
  case None
  then show ?thesis by (simp add: ingest_tx_def judge_def look_def sx_defs)
next
  case (Some cfg)
  show ?thesis
  proof (cases "sign_if (qc_server_signing cfg) has_signer (env (is_now s)) tx")
    case (Inl f)
    with Some show ?thesis by (simp add: ingest_tx_def judge_def look_def sx_defs)
  next
    case (Inr tx')
    note eq = sign_if_tx [OF Inr]
    show ?thesis
      unfolding ingest_tx_def judge_def look_def sx_defs Let_def
      using Some Inr eq [symmetric]
      by (auto simp: ok_or_def sx_throw_def split: option.splits sum.splits fault.splits)
  qed
qed

lemma on_db_update:
  assumes "on_db (or_retry (update_one t)) s = (r, s')"
  shows "s' = s\<lparr>is_db := is_db s'\<rparr> \<and>
    (r = Inr () \<and> entries (is_db s') = map_put t (entries (is_db s)) \<or>
     r = Inl (Err WorkerRetry) \<and> entries (is_db s') = entries (is_db s))"
proof -
  obtain r0 d where u: "update_one t (is_db s) = (r0, d)" by fastforce
  show ?thesis
  proof (cases r0)
    case (Inl e)
    with u assms update_one_cases [OF u] show ?thesis
      by (auto simp: on_db_def or_retry_def sx_map_err_def same_tables_predicates)
  next
    case (Inr x)
    with u assms update_one_entries(1) [of t "is_db s" d] show ?thesis
      by (auto simp: on_db_def or_retry_def sx_map_err_def)
  qed
qed

text \<open>Every way in which one transaction can be handled.\<close>

lemma ingest_tx_cases:
  assumes "ingest_tx pl queues has_signer env tx s = (r, s')"
  defines "e \<equiv> env (is_now s)" and "m \<equiv> entries (is_db s)" and "m' \<equiv> entries (is_db s')"
  shows "case judge pl queues has_signer e tx of
      Blocked f \<Rightarrow> r = Inl f \<and> m' = m \<and> is_sent s' = is_sent s
    | Rejected raw \<Rightarrow> is_sent s' = is_sent s \<and>
        (r = Inr () \<and> m' = map_put (tx\<lparr>tx_raw := raw, tx_status := Failed\<rparr>) m \<or>
         r = Inl (Err WorkerRetry) \<and> m' = m)
    | Accepted raw \<Rightarrow>
        if te_send_ok e
        then is_sent s' = is_sent s @ [raw] \<and>
          ((\<exists>tip. te_tip e = Inr tip \<and> r = Inr () \<and>
              m' = map_put (tx\<lparr>tx_raw := raw, tx_status := InFlight, tx_slot := Some (fst tip)\<rparr>) m) \<or>
           (\<exists>f. r = Inl f) \<and> m' = m)
        else r = Inr () \<and> m' = m \<and> is_sent s' = is_sent s"
proof (cases "judge pl queues has_signer e tx")
  case (Blocked f)
  with assms show ?thesis by (auto simp: ingest_tx_judge Let_def)
next
  case (Rejected raw)
  let ?s1 = "s\<lparr>is_now := Suc (is_now s)\<rparr>"
  from Rejected assms(1) have "on_db (or_retry (update_one (tx\<lparr>tx_raw := raw, tx_status := Failed\<rparr>))) ?s1 = (r, s')"
    by (simp add: ingest_tx_judge e_def mark_failed_def Let_def)
  from on_db_update [OF this] Rejected show ?thesis
    by (cases s') (auto simp: m_def m'_def)
next
  case (Accepted raw)
  let ?s1 = "s\<lparr>is_now := Suc (is_now s)\<rparr>"
  let ?s2 = "?s1\<lparr>is_sent := is_sent s @ [raw]\<rparr>"
  from Accepted assms(1) have b: "broadcast e (tx\<lparr>tx_raw := raw\<rparr>) ?s1 = (r, s')"
    by (simp add: ingest_tx_judge e_def Let_def)
  show ?thesis
  proof (cases "te_send_ok e")
    case False
    with b Accepted show ?thesis by (auto simp: broadcast_def sx_return_def m_def m'_def)
  next
    case True
    show ?thesis
    proof (cases "te_tip e")
      case (Inl f)
      with b True Accepted show ?thesis
        by (cases f) (auto simp: broadcast_def sx_defs retry_outcome_def m_def m'_def)
    next
      case (Inr tip)
      with b True have "on_db (or_retry (update_one (tx\<lparr>tx_raw := raw, tx_status := InFlight,
          tx_slot := Some (fst tip)\<rparr>))) ?s2 = (r, s')"
        by (simp add: broadcast_def sx_defs retry_outcome_def)
      from on_db_update [OF this] Accepted True Inr show ?thesis
        by (cases s') (auto simp: m_def m'_def)
    qed
  qed
qed

section \<open>What holds over a whole unit and all its attempts\<close>

text \<open>A message that was found valid, with the answers of some moment.\<close>

definition checked ::
  "('tx, 'out, 'rep) pallas \<Rightarrow> (nat \<Rightarrow> tx_env) \<Rightarrow> bytes \<Rightarrow> bool" where
  "checked pl env raw \<longleftrightarrow> (\<exists>k metx rep. pl_decode pl raw = Some metx \<and>
     validate_tx pl (te_validate (env k)) metx = Inr () \<and> evaluate_tx pl (te_evaluate (env k)) metx = Inr rep)"

lemma judge_accepted:
  "judge pl queues has_signer (env k) tx = Accepted raw \<Longrightarrow> checked pl env raw"
  by (force simp: judge_def checked_def split: option.splits sum.splits fault.splits)

lemma judge_unknown_queue:
  "queues_get queues (tx_queue tx) = None \<Longrightarrow> judge pl queues has_signer e tx = Blocked (Err WorkerRetry)"
  by (simp add: judge_def)

lemma sent_checked_step:
  "keeps (\<lambda>s. \<exists>ms. is_sent s = sent0 @ ms \<and> (\<forall>m\<in>set ms. checked pl env m)) (ingest_tx pl queues has_signer env tx)"
  unfolding keeps_def
proof (intro allI impI)
  fix s :: ingest_state assume "\<exists>ms. is_sent s = sent0 @ ms \<and> (\<forall>m\<in>set ms. checked pl env m)"
  then obtain ms where ms: "is_sent s = sent0 @ ms" "\<forall>m\<in>set ms. checked pl env m" by blast
  obtain r s' where x: "ingest_tx pl queues has_signer env tx s = (r, s')" by fastforce
  from ingest_tx_cases [OF x] have "is_sent s' = is_sent s \<or> (\<exists>raw. is_sent s' = is_sent s @ [raw] \<and> checked pl env raw)"
    by (auto split: verdict.splits if_splits dest: judge_accepted)
  with ms x show "\<exists>ms. is_sent (snd (ingest_tx pl queues has_signer env tx s)) = sent0 @ ms \<and>
      (\<forall>m\<in>set ms. checked pl env m)"
    by auto
qed

text \<open>An entry in flight was so before, or its bytes were sent.\<close>

definition flight_ok :: "(string \<Rightarrow> entry option) \<Rightarrow> ingest_state \<Rightarrow> bool" where
  "flight_ok m0 s \<longleftrightarrow> (\<forall>i e. entries (is_db s) i = Some e \<and> e_status e = InFlight \<longrightarrow>
     m0 i = Some e \<or> e_raw e \<in> set (is_sent s))"

lemma map_put_Some:
  "map_put t m i = Some e \<Longrightarrow> m i = Some e \<or> e_raw e = tx_raw t \<and> e_status e = tx_status t"
  by (auto simp: map_put_def put_entry_def split: if_splits)

lemma flight_ok_step: "keeps (flight_ok m0) (ingest_tx pl queues has_signer env tx)"
  unfolding keeps_def
proof (intro allI impI)
  fix s assume ok: "flight_ok m0 s"
  obtain r s' where x: "ingest_tx pl queues has_signer env tx s = (r, s')" by fastforce
  note c = ingest_tx_cases [OF x]
  have sub: "set (is_sent s) \<subseteq> set (is_sent s')" using c by (auto split: verdict.splits if_splits)
  have "entries (is_db s') = entries (is_db s) \<or> (\<exists>t. entries (is_db s') = map_put t (entries (is_db s)) \<and>
      (tx_status t = InFlight \<longrightarrow> tx_raw t \<in> set (is_sent s')))"
  proof (cases "judge pl queues has_signer (env (is_now s)) tx")
    case (Rejected raw)
    with c show ?thesis
      by (auto intro!: exI [of _ "tx\<lparr>tx_raw := raw, tx_status := Failed\<rparr>"])
  next
    case (Accepted raw)
    have "tx_raw (tx\<lparr>tx_raw := raw, tx_status := InFlight, tx_slot := sl\<rparr>) = raw" for sl by simp
    with c Accepted show ?thesis by (fastforce split: if_splits)
  qed (use c in simp)
  with sub consider
      (same) "entries (is_db s') = entries (is_db s)" "set (is_sent s) \<subseteq> set (is_sent s')"
    | (put) t where "entries (is_db s') = map_put t (entries (is_db s))" "set (is_sent s) \<subseteq> set (is_sent s')"
        "tx_status t = InFlight \<longrightarrow> tx_raw t \<in> set (is_sent s')"
    by blast
  then have "flight_ok m0 s'"
  proof cases
    case same
    with ok show ?thesis by (auto simp: flight_ok_def)
  next
    case put
    show ?thesis
      unfolding flight_ok_def
    proof (intro allI impI)
      fix i e assume "entries (is_db s') i = Some e \<and> e_status e = InFlight"
      with map_put_Some [of t "entries (is_db s)" i e] put ok show "m0 i = Some e \<or> e_raw e \<in> set (is_sent s')"
        unfolding flight_ok_def by (metis subsetD)
    qed
  qed
  with x show "flight_ok m0 (snd (ingest_tx pl queues has_signer env tx s))" by simp
qed

lemma ingest_keeps_wf: "keeps (\<lambda>s. db_wf (is_db s)) (ingest_tx pl queues has_signer env tx)"
proof -
  have db: "keeps (\<lambda>s. db_wf (is_db s)) (on_db (or_retry (update_one t)))" for t
    using keeps_or_retry [OF update_one_keeps_wf [of t]] by (auto simp: keeps_def on_db_def split: prod.splits)
  then have "db_wf (is_db s) \<Longrightarrow> db_wf (is_db (snd (broadcast e t s)))" for e t s
    by (auto simp: broadcast_def sx_defs keeps_def split: sum.splits)
  with db show ?thesis
    by (auto simp: keeps_def ingest_tx_judge Let_def mark_failed_def split: verdict.splits)
qed

section \<open>Units that finish\<close>

lemma update_one_no_faults:
  "no_faults (is_db s) \<Longrightarrow> \<exists>s'. on_db (or_retry (update_one t)) s = (Inr (), s') \<and> no_faults (is_db s')"
  using update_one_succeeds [of "is_db s" t] by (auto simp: on_db_def or_retry_def sx_map_err_def)

lemma ingest_tx_finishes:
  assumes "no_faults (is_db s)" "\<And>f. judge pl queues has_signer (env (is_now s)) tx \<noteq> Blocked f"
    "te_send_ok (env (is_now s))" "te_tip (env (is_now s)) = Inr tip"
  shows "\<exists>s'. ingest_tx pl queues has_signer env tx s = (Inr (), s') \<and> no_faults (is_db s')"
  using assms update_one_no_faults
  by (cases "judge pl queues has_signer (env (is_now s)) tx")
    (auto simp: ingest_tx_judge Let_def mark_failed_def broadcast_def sx_defs retry_outcome_def)

lemma ingest_tx_settles:
  assumes "ingest_tx pl queues has_signer env tx s = (Inr (), s')" "te_send_ok (env (is_now s))"
    "entries (is_db s) (tx_id tx) \<noteq> None"
  shows "\<exists>e. entries (is_db s') (tx_id tx) = Some e \<and> e_status e \<in> {Failed, InFlight}"
    "i \<noteq> tx_id tx \<Longrightarrow> entries (is_db s') i = entries (is_db s) i"
  using ingest_tx_cases [OF assms(1)] assms(2,3)
  by (auto simp: map_put_def put_entry_def split: verdict.splits)

lemma ingest_execute_finishes:
  assumes "no_faults (is_db s)" "distinct (map tx_id txs)"
    "\<And>k tx f. tx \<in> set txs \<Longrightarrow> judge pl queues has_signer (env k) tx \<noteq> Blocked f"
    "\<And>k. te_send_ok (env k)" "\<And>k. \<exists>tip. te_tip (env k) = Inr tip"
    "\<And>tx. tx \<in> set txs \<Longrightarrow> entries (is_db s) (tx_id tx) \<noteq> None"
  shows "\<exists>s'. ingest_execute pl queues has_signer env txs s = (Inr (), s') \<and>
    (\<forall>tx\<in>set txs. \<exists>e. entries (is_db s') (tx_id tx) = Some e \<and> e_status e \<in> {Failed, InFlight}) \<and>
    (\<forall>i. i \<notin> tx_id ` set txs \<longrightarrow> entries (is_db s') i = entries (is_db s) i)"
  using assms
proof (induction txs arbitrary: s)
  case Nil
  then show ?case by (simp add: ingest_execute_def sx_return_def)
next
  case (Cons tx txs)
  from Cons.prems(5) obtain tip where tip: "te_tip (env (is_now s)) = Inr tip" by blast
  have nb: "judge pl queues has_signer (env (is_now s)) tx \<noteq> Blocked f" for f using Cons.prems(3) by simp
  obtain s1 where s1: "ingest_tx pl queues has_signer env tx s = (Inr (), s1)" "no_faults (is_db s1)"
    using ingest_tx_finishes [where s = s and env = env, OF Cons.prems(1) nb _ tip] Cons.prems(4) by blast
  have "entries (is_db s) (tx_id tx) \<noteq> None" using Cons.prems(6) by simp
  note st = ingest_tx_settles [OF s1(1) Cons.prems(4) [of "is_now s"] this]
  have "entries (is_db s1) (tx_id t) \<noteq> None" if "t \<in> set txs" for t
    using that st(2) [of "tx_id t"] Cons.prems(2,6) by (auto simp: image_iff)
  with Cons.IH [OF s1(2)] Cons.prems obtain s' where s': "ingest_execute pl queues has_signer env txs s1 = (Inr (), s')"
    "\<forall>t\<in>set txs. \<exists>e. entries (is_db s') (tx_id t) = Some e \<and> e_status e \<in> {Failed, InFlight}"
    "\<forall>i. i \<notin> tx_id ` set txs \<longrightarrow> entries (is_db s') i = entries (is_db s1) i"
    by auto
  have "ingest_execute pl queues has_signer env (tx # txs) s = (Inr (), s')"
    using s1(1) s'(1) by (simp add: ingest_execute_def sx_bind_def)
  moreover have "tx_id tx \<notin> tx_id ` set txs" using Cons.prems(2) by simp
  ultimately show ?case using s'(2,3) st by auto
qed

text \<open>A unit with a transaction of an unknown queue does not finish.\<close>

lemma unknown_queue_not_done:
  assumes "tx \<in> set txs" "queues_get queues (tx_queue tx) = None"
  shows "ingest_execute pl queues has_signer env txs s \<noteq> (Inr x, s')"
  using assms
proof (induction txs arbitrary: s)
  case (Cons t txs)
  show ?case
  proof (cases "t = tx")
    case True
    with Cons.prems show ?thesis
      by (simp add: ingest_execute_def sx_bind_def ingest_tx_judge judge_unknown_queue Let_def)
  next
    case False
    with Cons show ?thesis
      by (auto simp: ingest_execute_def sx_bind_def split: prod.splits sum.splits)
  qed
qed simp

lemma unknown_queue_untouched:
  assumes "tx \<in> set txs" "queues_get queues (tx_queue tx) = None" "distinct (map tx_id txs)"
  shows "keeps (\<lambda>s. entries (is_db s) (tx_id tx) = e0) (ingest_execute pl queues has_signer env txs)"
  unfolding ingest_execute_def
proof (rule keeps_iter)
  fix t assume t: "t \<in> set txs"
  show "keeps (\<lambda>s. entries (is_db s) (tx_id tx) = e0) (ingest_tx pl queues has_signer env t)"
    unfolding keeps_def
  proof (intro allI impI)
    fix s :: ingest_state assume e0: "entries (is_db s) (tx_id tx) = e0"
    obtain r s' where x: "ingest_tx pl queues has_signer env t s = (r, s')" by fastforce
    have "t = tx \<or> tx_id t \<noteq> tx_id tx" using t assms(1,3) by (auto simp: distinct_map inj_on_def)
    then have "entries (is_db s') (tx_id tx) = e0"
      using ingest_tx_cases [OF x] e0
        judge_unknown_queue [OF assms(2), of pl has_signer "env (is_now s)"]
      by (auto simp: map_put_def split: verdict.splits if_splits)
    with x show "entries (is_db (snd (ingest_tx pl queues has_signer env t s))) (tx_id tx) = e0" by simp
  qed
qed

section \<open>Scheduling\<close>

lemma current_cap:
  assumes "unat queued_len \<le> 50"
  shows "\<exists>cap. sub_oc oc CAP (ucast (queued_len :: usize)) = (Inr cap :: (worker_error, u16) outcome) \<and>
    unat cap = 50 - unat queued_len"
proof -
  have q: "unat (ucast queued_len :: u16) = unat queued_len" using assms by (simp only: unat_ucast_mod) simp
  then have le: "(ucast queued_len :: u16) \<le> CAP" using assms by (simp add: word_le_nat_alt CAP_def)
  then have "sub_oc oc CAP (ucast queued_len) = (Inr (CAP - ucast queued_len) :: (worker_error, u16) outcome)" by simp
  moreover have "unat (CAP - ucast queued_len) = 50 - unat queued_len"
    using unat_sub_exact [OF le] q by (simp add: CAP_def)
  ultimately show ?thesis by blast
qed

section \<open>Properties of the ingest stage\<close>

text \<open>Two pending transactions, a configuration with the default queue only, and a friendly environment.\<close>

definition demo_env :: tx_env where
  "demo_env =
     \<lparr>te_sign = Inr, te_validate = u5c_impl demo_service, te_evaluate = u5c_impl demo_service,
      te_send_ok = True, te_tip = Inr (100, [])\<rparr>"

definition demo_start :: ingest_state where
  "demo_start = \<lparr>is_db = demo_db, is_sent = [], is_now = 0\<rparr>"

definition demo_unit :: "Transaction list" where
  "demo_unit = map tx_of_row [demo_row ''a'' ''pending'' None ''default'' 7, demo_row ''b'' ''pending'' None ''default'' 3]"

lemma demo_judge:
  "tx \<in> set demo_unit \<Longrightarrow> judge demo_pallas [queue_config_default] h demo_env tx = Accepted [1]"
  by (auto simp: demo_unit_def judge_def queues_get_def queue_config_default_def demo_row_def DEFAULT_QUEUE_def
      sign_if_def demo_env_def demo_accepts demo_pallas_def [THEN arg_cong, of pl_decode])

lemma demo_start_entries:
  "no_faults (is_db demo_start)" "distinct (map tx_id demo_unit)"
  "tx \<in> set demo_unit \<Longrightarrow> entries (is_db demo_start) (tx_id tx) \<noteq> None"
  by (auto simp: demo_start_def no_faults_def demo_unit_def demo_row_def entries_None_iff row_ids_def demo_db_def)

text \<open>
  C11.  What happens to one transaction, on every branch.  If its queue is unknown, the signer is
  missing or fails, the bytes do not decode or a check panics, the stage stops and neither database
  nor channel has changed.  If a check rejects it, it is recorded as failed and nothing is sent.
  If it is accepted, its (signed) bytes are sent, and only after that it is recorded as in flight
  at the slot of the tip; when nobody listens it stays as it is.
\<close>

theorem ingest_tx_effect:
  assumes "ingest_tx pl queues has_signer env tx s = (r, s')"
  shows "case judge pl queues has_signer (env (is_now s)) tx of
      Blocked f \<Rightarrow> r = Inl f \<and> entries (is_db s') = entries (is_db s) \<and> is_sent s' = is_sent s
    | Rejected raw \<Rightarrow> is_sent s' = is_sent s \<and>
        (r = Inr () \<and> entries (is_db s') = map_put (tx\<lparr>tx_raw := raw, tx_status := Failed\<rparr>) (entries (is_db s)) \<or>
         r = Inl (Err WorkerRetry) \<and> entries (is_db s') = entries (is_db s))
    | Accepted raw \<Rightarrow>
        if te_send_ok (env (is_now s))
        then is_sent s' = is_sent s @ [raw] \<and>
          ((\<exists>tip. te_tip (env (is_now s)) = Inr tip \<and> r = Inr () \<and>
              entries (is_db s') = map_put (tx\<lparr>tx_raw := raw, tx_status := InFlight,
                 tx_slot := Some (fst tip)\<rparr>) (entries (is_db s))) \<or>
           (\<exists>f. r = Inl f) \<and> entries (is_db s') = entries (is_db s))
        else r = Inr () \<and> entries (is_db s') = entries (is_db s) \<and> is_sent s' = is_sent s"
  using assms by (rule ingest_tx_cases)

theorem ingest_tx_effect_witness:
  "is_sent (snd (ingest_tx demo_pallas [queue_config_default] False (\<lambda>_. demo_env) (demo_unit ! 0) demo_start)) = [[1]]"
proof -
  obtain r s' where x: "ingest_tx demo_pallas [queue_config_default] False (\<lambda>_. demo_env) (demo_unit ! 0) demo_start = (r, s')"
    by fastforce
  have "demo_unit ! 0 \<in> set demo_unit" by (simp add: demo_unit_def)
  from ingest_tx_effect [OF x] demo_judge [OF this] x show ?thesis
    by (simp add: demo_env_def demo_start_def)
qed

text \<open>
  Only checked transactions reach the peers.  Whatever the surroundings answer and however
  often a unit is retried, everything the stage adds to the channel decodes and has passed both
  checks.
\<close>

theorem broadcast_only_checked:
  assumes "attempts n (ingest_execute pl queues has_signer env txs) s = (r, s')"
  shows "\<exists>ms. is_sent s' = is_sent s @ ms \<and> (\<forall>m\<in>set ms. checked pl env m)"
proof -
  have "keeps (\<lambda>u. \<exists>ms. is_sent u = is_sent s @ ms \<and> (\<forall>m\<in>set ms. checked pl env m))
      (attempts n (ingest_execute pl queues has_signer env txs))"
    unfolding ingest_execute_def by (intro keeps_attempts keeps_iter sent_checked_step)
  from keepsD [OF this _ assms] show ?thesis by auto
qed

theorem broadcast_only_checked_witness:
  "\<exists>ms. is_sent (snd (attempts 2 (ingest_execute demo_pallas [queue_config_default] False (\<lambda>_. demo_env) demo_unit)
       demo_start)) = ms \<and> (\<forall>m\<in>set ms. checked demo_pallas (\<lambda>_. demo_env) m)"
proof -
  let ?x = "attempts 2 (ingest_execute demo_pallas [queue_config_default] False (\<lambda>_. demo_env) demo_unit) demo_start"
  have "?x = (fst ?x, snd ?x)" by simp
  from broadcast_only_checked [OF this] show ?thesis by (simp add: demo_start_def)
qed

text \<open>
  A transaction is recorded as in flight only after its bytes were sent: in every state that
  any number of attempts can leave behind, failed ones included, an entry in flight is the one
  that was there before, or its bytes are among the sent messages.
\<close>

theorem inflight_was_broadcast:
  assumes "attempts n (ingest_execute pl queues has_signer env txs) s = (r, s')"
    "entries (is_db s') i = Some e" "e_status e = InFlight"
  shows "entries (is_db s) i = Some e \<or> e_raw e \<in> set (is_sent s')"
proof -
  have "keeps (flight_ok (entries (is_db s))) (attempts n (ingest_execute pl queues has_signer env txs))"
    unfolding ingest_execute_def by (intro keeps_attempts keeps_iter flight_ok_step)
  from keepsD [OF this _ assms(1)] assms(2,3) show ?thesis by (auto simp: flight_ok_def)
qed

theorem inflight_was_broadcast_witness:
  "\<exists>s'. ingest_execute demo_pallas [queue_config_default] False (\<lambda>_. demo_env) demo_unit demo_start = (Inr (), s') \<and>
     (\<forall>e. entries (is_db s') ''a'' = Some e \<and> e_status e = InFlight \<longrightarrow>
        entries (is_db demo_start) ''a'' = Some e \<or> e_raw e \<in> set (is_sent s'))"
proof -
  obtain s' where x: "ingest_execute demo_pallas [queue_config_default] False (\<lambda>_. demo_env) demo_unit demo_start = (Inr (), s')"
    using ingest_execute_finishes [of demo_start demo_unit demo_pallas "[queue_config_default]" False "\<lambda>_. demo_env"]
      demo_start_entries demo_judge by (auto simp: demo_env_def)
  then have "attempts 0 (ingest_execute demo_pallas [queue_config_default] False (\<lambda>_. demo_env) demo_unit) demo_start = (Inr (), s')"
    by simp
  from inflight_was_broadcast [OF this] x show ?thesis by blast
qed

text \<open>
  With working surroundings a unit is settled.  When storage does not fail, no transaction is
  blocked, and channel and tip answer, \<open>execute\<close> returns, every transaction of the unit is failed
  or in flight, and no other transaction has changed.
\<close>

theorem ingest_settles_unit:
  assumes "no_faults (is_db s)" "distinct (map tx_id txs)"
    "\<forall>tx\<in>set txs. entries (is_db s) (tx_id tx) \<noteq> None \<and> (\<forall>k f. judge pl queues has_signer (env k) tx \<noteq> Blocked f)"
    "\<forall>k. te_send_ok (env k) \<and> (\<exists>tip. te_tip (env k) = Inr tip)"
  shows "\<exists>s'. ingest_execute pl queues has_signer env txs s = (Inr (), s') \<and>
    (\<forall>tx\<in>set txs. \<exists>e. entries (is_db s') (tx_id tx) = Some e \<and> e_status e \<in> {Failed, InFlight}) \<and>
    (\<forall>i. i \<notin> tx_id ` set txs \<longrightarrow> entries (is_db s') i = entries (is_db s) i)"
  using assms by (intro ingest_execute_finishes) auto

theorem ingest_settles_unit_witness:
  "\<exists>s'. ingest_execute demo_pallas [queue_config_default] False (\<lambda>_. demo_env) demo_unit demo_start = (Inr (), s') \<and>
    (\<forall>tx\<in>set demo_unit. \<exists>e. entries (is_db s') (tx_id tx) = Some e \<and> e_status e \<in> {Failed, InFlight})"
proof -
  have a: "\<forall>tx\<in>set demo_unit. entries (is_db demo_start) (tx_id tx) \<noteq> None \<and>
      (\<forall>k f. judge demo_pallas [queue_config_default] False ((\<lambda>_. demo_env) k) tx \<noteq> Blocked f)"
    using demo_start_entries(3) demo_judge by auto
  have b: "\<forall>k. te_send_ok ((\<lambda>_::nat. demo_env) k) \<and> (\<exists>tip. te_tip ((\<lambda>_::nat. demo_env) k) = Inr tip)"
    by (simp add: demo_env_def)
  from ingest_settles_unit [OF demo_start_entries(1,2) a b] show ?thesis by blast
qed

text \<open>
  A transaction of a queue that is not configured blocks the stage.  The submission accepts
  it and the scheduler gives it the default weight, but \<open>execute\<close> asks for a retry: no number of
  attempts completes a unit that contains it, and its entry never changes.
\<close>

theorem unknown_queue_blocks_unit:
  assumes "tx \<in> set txs" "queues_get queues (tx_queue tx) = None" "distinct (map tx_id txs)"
    "attempts n (ingest_execute pl queues has_signer env txs) s = (r, s')"
  shows "r \<noteq> Inr () \<and> entries (is_db s') (tx_id tx) = entries (is_db s) (tx_id tx)"
proof -
  have "keeps (\<lambda>u. entries (is_db u) (tx_id tx) = entries (is_db s) (tx_id tx))
      (attempts n (ingest_execute pl queues has_signer env txs))"
    by (intro keeps_attempts unknown_queue_untouched assms)
  from keepsD [OF this _ assms(4)] have "entries (is_db s') (tx_id tx) = entries (is_db s) (tx_id tx)" by simp
  moreover have "attempts n (ingest_execute pl queues has_signer env txs) s \<noteq> (Inr (), s')"
    by (rule attempts_never) (rule unknown_queue_not_done [OF assms(1,2)])
  ultimately show ?thesis using assms(4) by auto
qed

theorem unknown_queue_blocks_unit_witness:
  "fst (attempts 20 (ingest_execute demo_pallas [] False (\<lambda>_. demo_env) demo_unit) demo_start) \<noteq> Inr ()"
proof -
  let ?x = "attempts 20 (ingest_execute demo_pallas [] False (\<lambda>_. demo_env) demo_unit) demo_start"
  have m: "demo_unit ! 0 \<in> set demo_unit" "queues_get [] (tx_queue (demo_unit ! 0)) = None"
    by (simp_all add: demo_unit_def queues_get_def)
  have "?x = (fst ?x, snd ?x)" by simp
  from unknown_queue_blocks_unit [OF m demo_start_entries(2) this] show ?thesis by blast
qed

text \<open>
  The stage never schedules into a full channel, and what it schedules is a non-empty batch of
  distinct pending transactions within the free capacity up to rounding.  As long as the channel
  holds at most 50 messages it does not panic.
\<close>

theorem ingest_schedule_sound:
  assumes "db_wf d" "iter_ok iter_w" "iter_ok iter_q" "unat queued_len \<le> 50"
    "weight_sum (backlog queues Pending d) < 2 ^ 24" "length (backlog queues Pending d) < 65000"
    "ingest_schedule oc iter_w iter_q queues queued_len d = (r, d')"
  shows "r \<noteq> Inl Panic \<and> (unat queued_len = 50 \<longrightarrow> r = Inr Idle \<and> d' = d) \<and>
    (\<forall>txs. r = Inr (Unit txs) \<longrightarrow> txs \<noteq> [] \<and> distinct (map tx_id txs) \<and>
       2 * length txs \<le> 2 * (50 - unat queued_len) + length (backlog queues Pending d) \<and>
       (\<forall>t\<in>set txs. tx_status t = Pending \<and> entries d (tx_id t) = Some (entry_of_tx t)))"
proof -
  obtain cap where cap: "sub_oc oc CAP (ucast queued_len) = (Inr cap :: (worker_error, u16) outcome)"
    "unat cap = 50 - unat queued_len"
    using current_cap [OF assms(4)] by blast
  show ?thesis
  proof (cases "cap = 0")
    case True
    with cap assms(7) show ?thesis by (auto simp: ingest_schedule_def sx_defs)
  next
    case False
    then have "unat cap \<noteq> 0" by (simp add: unat_eq_0)
    obtain pr d1 where p: "priority_next oc iter_w iter_q queues Pending cap d = (pr, d1)" by fastforce
    have "unat cap + length (backlog queues Pending d) < 65536" using cap(2) assms(6) by simp
    note b = priority_next_bounded_lemma [OF assms(1-3,5) this p]
    from False cap p assms(7) have "r = (case pr of Inl Panic \<Rightarrow> Inl Panic | Inl (Err _) \<Rightarrow> Inl (Err WorkerRetry)
        | Inr txs \<Rightarrow> Inr (if txs \<noteq> [] then Unit txs else Idle))"
      by (auto simp: ingest_schedule_def sx_defs split: sum.splits fault.splits)
    with b \<open>unat cap \<noteq> 0\<close> cap(2) show ?thesis
      by (auto split: sum.splits fault.splits if_splits)
  qed
qed

theorem ingest_schedule_sound_witness:
  "fst (ingest_schedule True id id [] 50 three_queues) = Inr Idle"
proof -
  have s: "weight_sum (backlog [] Pending three_queues) < 2 ^ 24"
    "length (backlog [] Pending three_queues) < 65000"
    by (simp_all add: three_queues_backlog weight_sum_def)
  let ?x = "ingest_schedule True id id [] 50 three_queues"
  have "unat (50 :: usize) \<le> 50" "?x = (fst ?x, snd ?x)" by simp_all
  from ingest_schedule_sound [OF three_queues_wf(1) iter_ok_id(1) iter_ok_id(1) this(1) s this(2)]
  show ?thesis by simp
qed

text \<open>An outage of the ledger service is taken for an invalid transaction.  When the tip cannot be fetched
  while the stage looks at a transaction of a known queue that decodes, the transaction is marked failed and
  not tried again, although nothing is wrong with it.\<close>

theorem outage_fails_transaction:
  assumes "queues_get queues (tx_queue tx) = Some cfg" "\<not> qc_server_signing cfg"
    and "pl_decode pl (tx_raw tx) = Some metx" "a_tip (te_validate (env (is_now s))) = Inl (Err err)"
    and "no_faults (is_db s)" "entries (is_db s) (tx_id tx) = Some e"
  shows "\<exists>s'. ingest_tx pl queues has_signer env tx s = (Inr (), s') \<and> is_sent s' = is_sent s \<and>
    entries (is_db s') = (entries (is_db s))(tx_id tx \<mapsto> e\<lparr>e_raw := tx_raw tx, e_status := Failed, e_slot := tx_slot tx\<rparr>)"
proof -
  let ?s1 = "s\<lparr>is_now := Suc (is_now s)\<rparr>" and ?t = "tx\<lparr>tx_status := Failed\<rparr>"
  have "validate_tx pl (te_validate (env (is_now s))) metx = Inl (Err (AdapterError err))"
    using assms(4) by (simp add: validate_tx_def adapter_try_def)
  then have "judge pl queues has_signer (env (is_now s)) tx = Rejected (tx_raw tx)"
    using assms(1-3) by (simp add: judge_def sign_if_def)
  then have "ingest_tx pl queues has_signer env tx s = on_db (or_retry (update_one ?t)) ?s1"
    by (simp add: ingest_tx_judge Let_def mark_failed_def)
  moreover obtain s' where u: "on_db (or_retry (update_one ?t)) ?s1 = (Inr (), s')"
    using update_one_no_faults [of ?s1 ?t] assms(5) by auto
  ultimately show ?thesis
    using on_db_update [OF u] assms(6) by (cases s') (auto simp: map_put_def put_entry_def)
qed

theorem outage_fails_transaction_witness:
  "\<exists>s' e. ingest_tx demo_pallas [queue_config_default] False
      (\<lambda>_. demo_env\<lparr>te_validate := u5c_impl (demo_service\<lparr>svc_tip := Inl RpcFailed\<rparr>)\<rparr>) (demo_unit ! 0) demo_start = (Inr (), s') \<and>
     entries (is_db s') ''a'' = Some e \<and> e_status e = Failed"
proof -
  let ?tx = "demo_unit ! 0"
  have t: "tx_id ?tx = ''a''" "tx_raw ?tx = [1]" "queues_get [queue_config_default] (tx_queue ?tx) = Some queue_config_default"
    by (simp_all add: demo_unit_def demo_row_def queues_get_def queue_config_default_def DEFAULT_QUEUE_def)
  have "?tx \<in> set demo_unit" by (simp add: demo_unit_def)
  from demo_start_entries(3) [OF this] obtain e where e: "entries (is_db demo_start) (tx_id ?tx) = Some e" by blast
  have f: "a_tip (u5c_impl (demo_service\<lparr>svc_tip := Inl RpcFailed\<rparr>)) = Inl (Err RpcFailed)"
    "\<not> qc_server_signing queue_config_default" "pl_decode demo_pallas (tx_raw ?tx) = Some 1"
    by (simp_all add: u5c_impl_def demo_service_def interceptor_def fetch_tip_def queue_config_default_def t
        demo_pallas_def)
  have "a_tip (te_validate ((\<lambda>_. demo_env\<lparr>te_validate := u5c_impl (demo_service\<lparr>svc_tip := Inl RpcFailed\<rparr>)\<rparr>)
      (is_now demo_start))) = Inl (Err RpcFailed)" using f(1) by simp
  from outage_fails_transaction [OF t(3) f(2,3) this demo_start_entries(1) e, of False] t(1) show ?thesis by auto
qed

end
