(* ===== verification/Tx_Chaining.thy ===== *)
theory Tx_Chaining
  imports Priority_Queue
begin

text \<open>
  Chained queues, \<^verbatim>\<open>src/queue/chaining.rs\<close>.  Every chained queue has a task of its own that hands
  out one lock at a time: it takes a request from its channel, issues a token, answers with the
  latest transaction of the queue, and then waits for an unlock message or for the timeout.

  A queue is a state machine whose steps are the moves of that task and of its surroundings (a
  request arriving, an unlock message arriving, a second passing).  The fields \<open>cq_arrived\<close> and
  \<open>cq_issued\<close> are histories, which no step reads.
\<close>

section \<open>The state of a chained queue\<close>

type_synonym client = nat

datatype reply = Granted string "bytes option" | InternalError

text \<open>The phases of the loop body; \<open>Holding\<close> carries the seconds since the lock was handed out.\<close>

datatype phase = Waiting | Serving client string | Holding client string nat

record chain_queue =
  cq_requests :: "client list"
  cq_unlocks :: nat
  cq_phase :: phase
  cq_token :: "string option"
  cq_replies :: "(client \<times> reply) list"
  cq_arrived :: "client list"
  cq_issued :: "(client \<times> string) list"

definition LOCK_TIMEOUT :: nat where
  "LOCK_TIMEOUT = 30"

definition LOCK_BUFFER :: nat where
  "LOCK_BUFFER = 256"

definition UNLOCK_BUFFER :: nat where
  "UNLOCK_BUFFER = 64"

definition chain_queue_new :: chain_queue where
  "chain_queue_new =
     \<lparr>cq_requests = [], cq_unlocks = 0, cq_phase = Waiting, cq_token = None, cq_replies = [],
      cq_arrived = [], cq_issued = []\<rparr>"

text \<open>The answer sent to the client, from the result of \<open>SqliteTransaction::latest\<close>.\<close>

definition lock_reply :: "string \<Rightarrow> sql_error + Transaction option \<Rightarrow> reply" where
  "lock_reply token latest_transaction =
     (case latest_transaction of
        Inl _ \<Rightarrow> InternalError
      | Inr t \<Rightarrow> Granted token (map_option tx_raw t))"

section \<open>The task\<close>

datatype chain_action =
  Request client | UnlockMsg | Issue string | Serve "sql_error + Transaction option" bool
  | Tick | Release | Timeout

text \<open>
  A send into a full channel waits, so the two sends are guarded by the capacity of their
  channels.  \<open>Serve res open\<close> is the middle of the loop body: \<open>res\<close> is what the storage answered
  and \<open>open\<close> says whether the client still listens.  After a storage error or a send to a client
  that is gone the loop continues, and the token stays in the map.
\<close>

inductive chain_step :: "chain_action \<Rightarrow> chain_queue \<Rightarrow> chain_queue \<Rightarrow> bool" where
  request: "length (cq_requests s) < LOCK_BUFFER \<Longrightarrow>
    chain_step (Request c) s (s\<lparr>cq_requests := cq_requests s @ [c], cq_arrived := cq_arrived s @ [c]\<rparr>)"
| unlock_msg: "cq_unlocks s < UNLOCK_BUFFER \<Longrightarrow>
    chain_step UnlockMsg s (s\<lparr>cq_unlocks := cq_unlocks s + 1\<rparr>)"
| issue: "cq_phase s = Waiting \<Longrightarrow> cq_requests s = c # cs \<Longrightarrow> length t = 8 \<Longrightarrow>
    chain_step (Issue t) s (s\<lparr>cq_requests := cs, cq_token := Some t, cq_phase := Serving c t,
      cq_issued := cq_issued s @ [(c, t)]\<rparr>)"
| serve_failed: "cq_phase s = Serving c t \<Longrightarrow> res = Inl e \<Longrightarrow>
    chain_step (Serve res client_open) s (s\<lparr>cq_phase := Waiting,
      cq_replies := (if client_open then cq_replies s @ [(c, lock_reply t res)] else cq_replies s)\<rparr>)"
| serve_gone: "cq_phase s = Serving c t \<Longrightarrow> res = Inr tx \<Longrightarrow>
    chain_step (Serve res False) s (s\<lparr>cq_phase := Waiting\<rparr>)"
| serve_ok: "cq_phase s = Serving c t \<Longrightarrow> res = Inr tx \<Longrightarrow>
    chain_step (Serve res True) s (s\<lparr>cq_phase := Holding c t 0,
      cq_replies := cq_replies s @ [(c, lock_reply t res)]\<rparr>)"
| tick: "cq_phase s = Holding c t n \<Longrightarrow>
    chain_step Tick s (s\<lparr>cq_phase := Holding c t (n + 1)\<rparr>)"
| release: "cq_phase s = Holding c t n \<Longrightarrow> 0 < cq_unlocks s \<Longrightarrow>
    chain_step Release s (s\<lparr>cq_phase := Waiting, cq_token := None, cq_unlocks := cq_unlocks s - 1\<rparr>)"
| timeout: "cq_phase s = Holding c t n \<Longrightarrow> LOCK_TIMEOUT \<le> n \<Longrightarrow>
    chain_step Timeout s (s\<lparr>cq_phase := Waiting, cq_token := None\<rparr>)"

inductive_cases chain_stepE: "chain_step a s s'"

inductive_simps chain_step_simps:
  "chain_step (Request c) s s'" "chain_step UnlockMsg s s'" "chain_step (Issue t) s s'"
  "chain_step (Serve res op) s s'" "chain_step Tick s s'" "chain_step Release s s'"
  "chain_step Timeout s s'"

text \<open>Sequences of moves.\<close>

fun chain_run :: "chain_action list \<Rightarrow> chain_queue \<Rightarrow> chain_queue \<Rightarrow> bool" where
  "chain_run [] s s' \<longleftrightarrow> s' = s"
| "chain_run (a # as) s s' \<longleftrightarrow> (\<exists>s1. chain_step a s s1 \<and> chain_run as s1 s')"

definition chain_reachable :: "chain_queue \<Rightarrow> bool" where
  "chain_reachable = reach (\<lambda>s. s = chain_queue_new) (\<lambda>s s'. \<exists>a. chain_step a s s')"

section \<open>\<open>TxChaining\<close>\<close>

type_synonym chaining = "string \<Rightarrow> chain_queue option"

datatype chaining_error = InvalidQueue | TaskGone

text \<open>\<open>TxChaining::new\<close>: one task per chained queue.\<close>

definition chaining_new :: "queue_set \<Rightarrow> chaining" where
  "chaining_new queues q =
     (if q \<in> set (map qc_name (filter qc_chained queues)) then Some chain_queue_new else None)"

definition is_chained_queue :: "chaining \<Rightarrow> string \<Rightarrow> bool" where
  "is_chained_queue ch q \<longleftrightarrow> ch q \<noteq> None"

text \<open>\<open>state.get(queue)\<close>: the token of the queue, if one is out.\<close>

definition current_token :: "chaining \<Rightarrow> string \<Rightarrow> string option" where
  "current_token ch q = (case ch q of None \<Rightarrow> None | Some s \<Rightarrow> cq_token s)"

definition is_valid_token :: "chaining \<Rightarrow> string \<Rightarrow> string \<Rightarrow> bool" where
  "is_valid_token ch q token =
     (case current_token ch q of Some t \<Rightarrow> t = token | None \<Rightarrow> False)"

text \<open>
  \<open>lock\<close> and \<open>unlock\<close> put a message into the channel of the queue; \<open>None\<close> says that the channel is
  full and the caller waits.  \<open>gone\<close> says which tasks have ended: sending to them is an error.
\<close>

definition chaining_lock ::
  "(string \<Rightarrow> bool) \<Rightarrow> client \<Rightarrow> string \<Rightarrow> chaining \<Rightarrow> (chaining_error + chaining) option" where
  "chaining_lock gone c q ch =
     (case ch q of
        None \<Rightarrow> Some (Inl InvalidQueue)
      | Some s \<Rightarrow>
          if gone q then Some (Inl TaskGone)
          else if length (cq_requests s) < LOCK_BUFFER
          then Some (Inr (ch(q \<mapsto> s\<lparr>cq_requests := cq_requests s @ [c], cq_arrived := cq_arrived s @ [c]\<rparr>)))
          else None)"

definition chaining_unlock ::
  "(string \<Rightarrow> bool) \<Rightarrow> string \<Rightarrow> chaining \<Rightarrow> (chaining_error + chaining) option" where
  "chaining_unlock gone q ch =
     (case ch q of
        None \<Rightarrow> Some (Inl InvalidQueue)
      | Some s \<Rightarrow>
          if gone q then Some (Inl TaskGone)
          else if cq_unlocks s < UNLOCK_BUFFER
          then Some (Inr (ch(q \<mapsto> s\<lparr>cq_unlocks := cq_unlocks s + 1\<rparr>)))
          else None)"

section \<open>Invariants\<close>

text \<open>
  Requests are served in the order of arrival; the token in the map is the one that was issued
  last, it is the one the task is working with, and it has eight characters; the channels do not
  exceed their capacity.
\<close>

definition chain_inv :: "chain_queue \<Rightarrow> bool" where
  "chain_inv s \<longleftrightarrow>
     map fst (cq_issued s) @ cq_requests s = cq_arrived s \<and>
     (\<forall>t. cq_token s = Some t \<longrightarrow> (\<exists>iss c. cq_issued s = iss @ [(c, t)]) \<and> length t = 8) \<and>
     (\<forall>c t. cq_phase s = Serving c t \<or> (\<exists>n. cq_phase s = Holding c t n) \<longrightarrow>
        cq_token s = Some t \<and> (\<exists>iss. cq_issued s = iss @ [(c, t)])) \<and>
     (\<forall>c t x. (c, Granted t x) \<in> set (cq_replies s) \<longrightarrow> (c, t) \<in> set (cq_issued s)) \<and>
     length (cq_requests s) \<le> LOCK_BUFFER \<and> cq_unlocks s \<le> UNLOCK_BUFFER"

lemma chain_inv_new: "chain_inv chain_queue_new"
  by (simp add: chain_inv_def chain_queue_new_def)

lemma chain_inv_step: "chain_step a s s' \<Longrightarrow> chain_inv s \<Longrightarrow> chain_inv s'"
  by (induction rule: chain_step.induct) (auto simp: chain_inv_def lock_reply_def)

interpretation chain: inductive_invariant "\<lambda>s. s = chain_queue_new" "\<lambda>s s'. \<exists>a. chain_step a s s'" chain_inv
  by unfold_locales (auto intro: chain_inv_new chain_inv_step)

lemma reachable_inv: "chain_reachable s \<Longrightarrow> chain_inv s"
  unfolding chain_reachable_def by (rule chain.reach_inv)

lemma reachable_step: "chain_reachable s \<Longrightarrow> chain_step a s s' \<Longrightarrow> chain_reachable s'"
  unfolding chain_reachable_def by (rule reach_step) blast+

lemma run_reachable: "chain_run as s s' \<Longrightarrow> chain_reachable s \<Longrightarrow> chain_reachable s'"
  by (induction as arbitrary: s) (auto dest: reachable_step)

lemma new_reachable: "chain_reachable chain_queue_new"
  unfolding chain_reachable_def by (rule reach_init) simp

lemma chain_run_append: "chain_run (as @ bs) s s' \<longleftrightarrow> (\<exists>s1. chain_run as s s1 \<and> chain_run bs s1 s')"
  by (induction as arbitrary: s) auto

section \<open>A granted lock is held\<close>

lemma held_for_its_time:
  "chain_run as s s' \<Longrightarrow> cq_phase s = Holding c t n \<Longrightarrow> Release \<notin> set as \<Longrightarrow> n + count_list as Tick < LOCK_TIMEOUT \<Longrightarrow>
   cq_phase s' = Holding c t (n + count_list as Tick) \<and> cq_token s' = cq_token s \<and> cq_issued s' = cq_issued s \<and>
   cq_replies s' = cq_replies s"
proof (induction as arbitrary: s n)
  case (Cons a as)
  then obtain s1 where s1: "chain_step a s s1" "chain_run as s1 s'" by auto
  let ?n = "if a = Tick then Suc n else n"
  have "cq_phase s1 = Holding c t ?n \<and> cq_token s1 = cq_token s \<and> cq_issued s1 = cq_issued s \<and> cq_replies s1 = cq_replies s"
    using s1(1) Cons.prems(2-4) by cases auto
  with Cons.IH [OF s1(2), of ?n] Cons.prems(3,4) show ?case by (simp split: if_splits)
qed simp

section \<open>Every waiting client is taken up\<close>

text \<open>The moves of the task and of the clock, without any help of clients.\<close>

fun task_move :: "chain_action \<Rightarrow> bool" where
  "task_move (Request c) = False"
| "task_move UnlockMsg = False"
| "task_move a = True"

text \<open>The moves of the loop itself, whatever the storage answers and whether the client listens.\<close>

fun loop_move :: "chain_action \<Rightarrow> bool" where
  "loop_move (Request c) = False"
| "loop_move UnlockMsg = False"
| "loop_move Tick = False"
| "loop_move a = True"

fun is_issue :: "chain_action \<Rightarrow> bool" where
  "is_issue (Issue t) = True"
| "is_issue a = False"

text \<open>How many moves the loop can make before it waits for requests again.\<close>

fun moves_left :: "phase \<Rightarrow> nat" where
  "moves_left Waiting = 0"
| "moves_left (Serving c t) = 2"
| "moves_left (Holding c t n) = 1"

lemma run_fifo:
  "chain_run as s s' \<Longrightarrow> \<exists>new arrived. cq_issued s' = cq_issued s @ new \<and> length new = length (filter is_issue as) \<and>
     map fst new @ cq_requests s' = cq_requests s @ arrived"
proof (induction as arbitrary: s)
  case (Cons a as)
  then obtain s1 where s1: "chain_step a s s1" "chain_run as s1 s'" by auto
  from Cons.IH [OF s1(2)] obtain new arrived where n: "cq_issued s' = cq_issued s1 @ new"
    "length new = length (filter is_issue as)" "map fst new @ cq_requests s' = cq_requests s1 @ arrived" by blast
  from s1(1) show ?case
  proof cases
    case (request c)
    with n show ?thesis by (intro exI [of _ new] exI [of _ "c # arrived"]) simp
  next
    case (issue c cs t)
    with n show ?thesis by (intro exI [of _ "(c, t) # new"] exI [of _ arrived]) simp
  qed (use n in \<open>auto intro!: exI [of _ new] exI [of _ arrived]\<close>)
qed simp

lemma run_counts:
  "chain_run as s s' \<Longrightarrow> length (filter loop_move as) + moves_left (cq_phase s') \<le>
     moves_left (cq_phase s) + 3 * length (filter is_issue as)"
proof (induction as arbitrary: s)
  case (Cons a as)
  then obtain s1 where s1: "chain_step a s s1" "chain_run as s1 s'" by auto
  from s1(1) Cons.IH [OF s1(2)] show ?case by cases auto
qed simp

lemma moves_left_bound: "moves_left p \<le> 2"
  by (cases p) simp_all

lemma run_takes_up:
  assumes "chain_run as s s'" "cq_requests s = xs @ c # ys" "3 * (length xs + 1) \<le> length (filter loop_move as)"
  shows "\<exists>pre t post. cq_issued s' = cq_issued s @ pre @ (c, t) # post \<and> map fst pre = xs"
proof -
  obtain new arrived where n: "cq_issued s' = cq_issued s @ new" "length new = length (filter is_issue as)"
    "map fst new @ cq_requests s' = xs @ c # ys @ arrived"
    using run_fifo [OF assms(1)] assms(2) by auto
  have "length xs < length new"
    using run_counts [OF assms(1)] moves_left_bound [of "cq_phase s"] assms(3) n(2) by presburger
  then have new: "new = take (length xs) new @ new ! length xs # drop (Suc (length xs)) new"
    by (simp add: Cons_nth_drop_Suc)
  have "take (length xs) (map fst new @ cq_requests s') = xs" "(map fst new @ cq_requests s') ! length xs = c"
    unfolding n(3) by simp_all
  with \<open>length xs < length new\<close> have "map fst (take (length xs) new) = xs" "fst (new ! length xs) = c"
    by (simp_all add: take_map nth_append)
  with new n(1) show ?thesis by (metis prod.collapse)
qed

lemma loop_not_stuck:
  assumes "cq_requests s \<noteq> []"
  shows "\<exists>a s'. chain_step a s s' \<and>
    (loop_move a \<or> a = Tick \<and> (\<exists>c t n. cq_phase s = Holding c t n \<and> n < LOCK_TIMEOUT))"
proof (cases "cq_phase s")
  case Waiting
  from assms obtain c cs where "cq_requests s = c # cs" by (cases "cq_requests s") auto
  from chain_step.issue [OF Waiting this, of "replicate 8 CHR ''a''"] show ?thesis by fastforce
next
  case (Serving c t)
  from chain_step.serve_ok [OF Serving refl] show ?thesis by fastforce
next
  case (Holding c t n)
  show ?thesis
  proof (cases "n < LOCK_TIMEOUT")
    case True
    with Holding chain_step.tick [OF Holding] show ?thesis by blast
  next
    case False
    with chain_step.timeout [OF Holding] show ?thesis by fastforce
  qed
qed

lemma grants_next:
  assumes "cq_phase s = Waiting" "cq_requests s = c # cs" "length t = 8"
  shows "\<exists>s'. chain_run [Issue t, Serve (Inr x) True] s s' \<and> cq_requests s' = cs \<and>
    cq_token s' = Some t \<and> cq_phase s' = Holding c t 0 \<and>
    cq_replies s' = cq_replies s @ [(c, Granted t (map_option tx_raw x))]"
proof -
  let ?s1 = "s\<lparr>cq_requests := cs, cq_token := Some t, cq_phase := Serving c t, cq_issued := cq_issued s @ [(c, t)]\<rparr>"
  have "chain_step (Issue t) s ?s1" using assms by (rule chain_step.issue)
  moreover have "chain_step (Serve (Inr x) True) ?s1 (?s1\<lparr>cq_phase := Holding c t 0,
      cq_replies := cq_replies ?s1 @ [(c, lock_reply t (Inr x))]\<rparr>)"
    by (rule chain_step.serve_ok) simp_all
  ultimately show ?thesis by (auto simp: lock_reply_def)
qed

section \<open>Properties of chained queues\<close>

text \<open>
  C4.  At most one client holds the lock, and it holds it for its whole time.  When the task grants the lock to a
  client, then in every continuation of the run in which the task takes no unlock message and fewer than
  \<open>LOCK_TIMEOUT\<close> seconds pass, whatever requests and unlock messages arrive: the token of that client remains
  the valid one, no other token is issued and no other answer given; and, as long as no two of the random tokens
  coincide, nobody else has been granted a token that is valid.
\<close>

theorem lock_mutual_exclusion:
  assumes "chain_reachable s" "cq_phase s = Serving c t" "chain_step (Serve (Inr x) True) s s1"
    and "chain_run as s1 s2" "Release \<notin> set as" "count_list as Tick < LOCK_TIMEOUT" "distinct (map snd (cq_issued s))"
  shows "cq_replies s2 = cq_replies s @ [(c, Granted t (map_option tx_raw x))] \<and> cq_token s2 = Some t \<and>
    cq_issued s2 = cq_issued s \<and> last (cq_issued s2) = (c, t) \<and>
    (\<forall>c' t' x'. (c', Granted t' x') \<in> set (cq_replies s2) \<and> cq_token s2 = Some t' \<longrightarrow> c' = c \<and> t' = t)"
proof -
  from assms(2,3) have s1: "s1 = s\<lparr>cq_phase := Holding c t 0, cq_replies := cq_replies s @ [(c, Granted t (map_option tx_raw x))]\<rparr>"
    by (auto simp: chain_step_simps lock_reply_def)
  have "chain_reachable s1" using assms(1,3) by (rule reachable_step)
  note inv = reachable_inv [OF this, unfolded chain_inv_def]
  from s1 inv obtain iss where t: "cq_token s1 = Some t" "cq_issued s1 = iss @ [(c, t)]" by auto
  have held: "cq_token s2 = Some t" "cq_issued s2 = cq_issued s1" "cq_replies s2 = cq_replies s1"
    using held_for_its_time [OF assms(4) _ assms(5), of c t 0] s1 assms(6) t(1) by auto
  have sel: "cq_replies s1 = cq_replies s @ [(c, Granted t (map_option tx_raw x))]" "cq_issued s1 = cq_issued s"
    using s1 by simp_all
  have "c' = c" if "(c', Granted t x') \<in> set (cq_replies s1)" for c' x'
  proof -
    have "(c', t) \<in> set (cq_issued s1)" using that inv by blast
    then show ?thesis using assms(7) t(2) sel(2) by (force simp: in_set_conv_decomp)
  qed
  then have "c' = c \<and> t' = t" if "(c', Granted t' x') \<in> set (cq_replies s2)" "cq_token s2 = Some t'" for c' t' x'
    using held that by auto
  moreover have "last (cq_issued s2) = (c, t)" using held(2) t(2) by simp
  ultimately show ?thesis using held sel by (intro conjI allI impI) (simp_all, blast)
qed

text \<open>A run in which client 7 asks for the lock and gets it.\<close>

definition held_by_7 :: chain_queue where
  "held_by_7 = \<lparr>cq_requests = [], cq_unlocks = 0, cq_phase = Holding 7 ''abcdefgh'' 0,
     cq_token = Some ''abcdefgh'', cq_replies = [(7, Granted ''abcdefgh'' None)], cq_arrived = [7],
     cq_issued = [(7, ''abcdefgh'')]\<rparr>"

lemma held_by_7_reachable: "chain_reachable held_by_7"
proof (rule run_reachable [OF _ new_reachable])
  show "chain_run [Request 7, Issue ''abcdefgh'', Serve (Inr None) True] chain_queue_new held_by_7"
    by (simp add: chain_step_simps chain_queue_new_def held_by_7_def lock_reply_def LOCK_BUFFER_def)
qed

theorem lock_mutual_exclusion_witness:
  "\<exists>s2. chain_run [Tick, Request 8, UnlockMsg, Tick] held_by_7 s2 \<and> cq_token s2 = Some ''abcdefgh'' \<and>
     cq_replies s2 = [(7, Granted ''abcdefgh'' None)]"
proof -
  let ?s = "\<lparr>cq_requests = [], cq_unlocks = 0, cq_phase = Serving 7 ''abcdefgh'', cq_token = Some ''abcdefgh'', cq_replies = [],
     cq_arrived = [7], cq_issued = [(7, ''abcdefgh'')]\<rparr>"
  have "chain_run [Request 7, Issue ''abcdefgh''] chain_queue_new ?s"
    by (simp add: chain_step_simps chain_queue_new_def LOCK_BUFFER_def)
  then have r: "chain_reachable ?s" by (rule run_reachable [OF _ new_reachable])
  have g: "chain_step (Serve (Inr None) True) ?s held_by_7"
    by (simp add: chain_step_simps held_by_7_def lock_reply_def)
  let ?s2 = "held_by_7\<lparr>cq_phase := Holding 7 ''abcdefgh'' 2, cq_requests := [8], cq_arrived := [7, 8], cq_unlocks := 1\<rparr>"
  have s2: "chain_run [Tick, Request 8, UnlockMsg, Tick] held_by_7 ?s2"
    by (simp add: chain_step_simps held_by_7_def LOCK_BUFFER_def UNLOCK_BUFFER_def numeral_2_eq_2)
  have h: "cq_phase ?s = Serving 7 ''abcdefgh''" "Release \<notin> set [Tick, Request 8, UnlockMsg, Tick]"
    "count_list [Tick, Request 8, UnlockMsg, Tick] Tick < LOCK_TIMEOUT" "distinct (map snd (cq_issued ?s))"
    by (simp_all add: LOCK_TIMEOUT_def)
  note m = lock_mutual_exclusion [OF r h(1) g s2 h(2-4)]
  have "cq_replies ?s2 = [(7, Granted ''abcdefgh'' None)]" by (rule trans [OF m [THEN conjunct1]]) simp
  with s2 m [THEN conjunct2, THEN conjunct1] show ?thesis by blast
qed

text \<open>
  Locks are handed out in the order of the requests, and no request is lost or invented: the
  clients served so far followed by those waiting are the clients that asked, in order.  The
  token in the map is always the one issued last, and has eight characters, so a submission
  without a token never passes.
\<close>

theorem lock_fifo:
  assumes "chain_reachable s"
  shows "map fst (cq_issued s) @ cq_requests s = cq_arrived s \<and>
    (\<forall>t. cq_token s = Some t \<longrightarrow> length t = 8 \<and> t = snd (last (cq_issued s))) \<and>
    cq_token s \<noteq> Some []"
  using reachable_inv [OF assms] by (auto simp: chain_inv_def)

theorem lock_fifo_witness:
  "map fst (cq_issued held_by_7) @ cq_requests held_by_7 = cq_arrived held_by_7"
  using lock_fifo [OF held_by_7_reachable] by blast

text \<open>
  C19.  No client is starved.  While requests wait, the task is never stuck: a move of its loop is possible, or the
  time of the holder is not over and the clock can run.  In every run, with whatever further requests, unlock
  messages, storage errors and clients that leave, once the loop has made three moves for each request ahead
  and three more, the requests ahead have been taken up in their order and then this one, with a token of its own; and
  the move of the loop that follows is the answer to it, if its client still listens: the lock, or an error if
  the storage failed.
\<close>

theorem lock_no_starvation:
  assumes "cq_requests s = xs @ c # ys"
  shows "(\<exists>a s'. chain_step a s s' \<and>
      (loop_move a \<or> a = Tick \<and> (\<exists>d t n. cq_phase s = Holding d t n \<and> n < LOCK_TIMEOUT))) \<and>
    (\<forall>as s'. chain_run as s s' \<and> 3 * (length xs + 1) \<le> length (filter loop_move as) \<longrightarrow>
      (\<exists>pre t post. cq_issued s' = cq_issued s @ pre @ (c, t) # post \<and> map fst pre = xs)) \<and>
    (\<forall>u u' a t. cq_phase u = Serving c t \<and> chain_step a u u' \<and> loop_move a \<longrightarrow>
      (\<exists>res client_open. a = Serve res client_open \<and>
         cq_replies u' = cq_replies u @ (if client_open then [(c, lock_reply t res)] else [])))"
proof (intro conjI allI impI)
  show "\<exists>a s'. chain_step a s s' \<and> (loop_move a \<or> a = Tick \<and> (\<exists>d t n. cq_phase s = Holding d t n \<and> n < LOCK_TIMEOUT))"
    using loop_not_stuck [of s] assms by simp
  show "\<exists>pre t post. cq_issued s' = cq_issued s @ pre @ (c, t) # post \<and> map fst pre = xs"
    if "chain_run as s s' \<and> 3 * (length xs + 1) \<le> length (filter loop_move as)" for as s'
    using run_takes_up [OF _ assms] that by blast
  show "\<exists>res client_open. a = Serve res client_open \<and>
      cq_replies u' = cq_replies u @ (if client_open then [(c, lock_reply t res)] else [])"
    if "cq_phase u = Serving c t \<and> chain_step a u u' \<and> loop_move a" for u u' a t
  proof -
    from that have "chain_step a u u'" by simp
    then show ?thesis using that by cases auto
  qed
qed

theorem lock_no_starvation_witness:
  "\<exists>s' pre t post. chain_run [Release, Issue ''ijklmnop'', Serve (Inl SqlIo) True, Issue ''qrstuvwx'', Serve (Inr None) False, Request 8]
       (held_by_7\<lparr>cq_requests := [8, 9], cq_unlocks := 1\<rparr>) s' \<and>
     cq_issued s' = cq_issued held_by_7 @ pre @ (8, t) # post"
proof -
  let ?s = "held_by_7\<lparr>cq_requests := [8, 9], cq_unlocks := 1\<rparr>"
  let ?as = "[Release, Issue ''ijklmnop'', Serve (Inl SqlIo) True, Issue ''qrstuvwx'', Serve (Inr None) False, Request 8]"
  have "cq_requests ?s = [] @ 8 # [9]" by simp
  note live = lock_no_starvation [OF this]
  let ?s' = "?s\<lparr>cq_phase := Waiting, cq_requests := [8], cq_arrived := [7, 8], cq_unlocks := 0, cq_token := Some ''qrstuvwx'',
     cq_replies := [(7, Granted ''abcdefgh'' None), (8, InternalError)],
     cq_issued := [(7, ''abcdefgh''), (8, ''ijklmnop''), (9, ''qrstuvwx'')]\<rparr>"
  have run: "chain_run ?as ?s ?s'"
    by (simp add: chain_step_simps held_by_7_def LOCK_BUFFER_def lock_reply_def)
  moreover have "3 * (length ([] :: client list) + 1) \<le> length (filter loop_move ?as)" by simp
  ultimately obtain pre t post where "cq_issued ?s' = cq_issued ?s @ pre @ (8, t) # post" using live by blast
  then have "cq_issued ?s' = cq_issued held_by_7 @ pre @ (8, t) # post" by simp
  with run show ?thesis by blast
qed

text \<open>
  Unlock messages are counted, not addressed.  When a holder sends two of them, which the
  server does for a request with two transactions of a chained queue, the second one stays in the
  channel and takes the lock away from the next client as soon as it was granted, before that
  client has sent anything.
\<close>

theorem surplus_unlock_releases_next:
  assumes "cq_phase s = Holding c1 t1 n" "cq_unlocks s = 0" "cq_requests s = c2 # cs" "length t2 = 8"
  shows "\<exists>s'. chain_run [UnlockMsg, UnlockMsg, Release, Issue t2, Serve (Inr x) True, Release] s s' \<and>
     (c2, Granted t2 (map_option tx_raw x)) \<in> set (cq_replies s') \<and>
     cq_phase s' = Waiting \<and> cq_token s' = None"
proof -
  let ?s3 = "s\<lparr>cq_unlocks := 1, cq_phase := Waiting, cq_token := None\<rparr>"
  have r1: "chain_run [UnlockMsg, UnlockMsg, Release] s ?s3"
    using assms by (simp add: chain_step_simps UNLOCK_BUFFER_def)
  obtain s5 where s5: "chain_run [Issue t2, Serve (Inr x) True] ?s3 s5" "cq_phase s5 = Holding c2 t2 0"
    "cq_replies s5 = cq_replies s @ [(c2, Granted t2 (map_option tx_raw x))]"
    using grants_next [of ?s3 c2 cs t2 x] assms(3,4) by auto
  have "cq_unlocks s5 = 1" using s5(1) assms(3) by (auto simp: chain_step_simps)
  then have "chain_run [Release] s5 (s5\<lparr>cq_phase := Waiting, cq_token := None, cq_unlocks := 0\<rparr>)"
    using s5(2) by (simp add: chain_step_simps)
  with r1 s5 have "chain_run ([UnlockMsg, UnlockMsg, Release] @ [Issue t2, Serve (Inr x) True] @ [Release]) s
      (s5\<lparr>cq_phase := Waiting, cq_token := None, cq_unlocks := 0\<rparr>)"
    unfolding chain_run_append by blast
  with s5(3) show ?thesis by force
qed

theorem surplus_unlock_releases_next_witness:
  "\<exists>s'. chain_run [UnlockMsg, UnlockMsg, Release, Issue ''ijklmnop'', Serve (Inr None) True, Release]
     (held_by_7\<lparr>cq_requests := [8]\<rparr>) s' \<and> cq_token s' = None"
  using surplus_unlock_releases_next [of "held_by_7\<lparr>cq_requests := [8]\<rparr>" 7 "''abcdefgh''" 0 8 "[]" "''ijklmnop''" None]
  by (simp add: held_by_7_def) blast

text \<open>Every queue of a running node has been through moves of its task only.\<close>

definition chaining_ok :: "chaining \<Rightarrow> bool" where
  "chaining_ok ch \<longleftrightarrow> (\<forall>q s. ch q = Some s \<longrightarrow> chain_reachable s)"

lemma chaining_ok_step:
  assumes "chaining_ok ch" "ch q = Some s" "chain_step a s s'"
  shows "chaining_ok (ch(q \<mapsto> s'))"
  using assms reachable_step [OF _ assms(3)] by (auto simp: chaining_ok_def)

lemma lock_ok:
  "chaining_ok ch \<Longrightarrow> chaining_lock gone c q ch = Some (Inr ch') \<Longrightarrow> chaining_ok ch' \<and> dom ch' = dom ch"
  by (auto simp: chaining_lock_def split: option.splits if_splits intro!: chaining_ok_step request)

lemma unlock_ok:
  "chaining_ok ch \<Longrightarrow> chaining_unlock gone q ch = Some (Inr ch') \<Longrightarrow> chaining_ok ch' \<and> dom ch' = dom ch"
  using unlock_msg by (fastforce simp: chaining_unlock_def split: option.splits if_splits intro!: chaining_ok_step)

lemma valid_token_length: "chaining_ok ch \<Longrightarrow> is_valid_token ch q t \<Longrightarrow> length t = 8"
  using reachable_inv by (fastforce simp: chaining_ok_def is_valid_token_def current_token_def chain_inv_def
      split: option.splits)

text \<open>C34. The operations of \<open>TxChaining\<close> are moves of the task model: starting it, asking for a lock and giving
  one back leave every queue in a reachable state and the set of chained queues as it is; they fail exactly for
  a queue that is not chained or whose task has ended; and a token that is valid for some queue has eight characters.\<close>

theorem chaining_operations_typed:
  assumes "chaining_ok ch"
  shows "chaining_ok (chaining_new queues) \<and> (\<forall>q. is_chained_queue (chaining_new queues) q \<longleftrightarrow>
      (\<exists>c\<in>set queues. qc_chained c \<and> qc_name c = q))
    \<and> (\<forall>gone c q r. chaining_lock gone c q ch = Some r \<or> chaining_unlock gone q ch = Some r \<longrightarrow>
        (case r of
           Inl InvalidQueue \<Rightarrow> \<not> is_chained_queue ch q
         | Inl TaskGone \<Rightarrow> is_chained_queue ch q \<and> gone q
         | Inr ch' \<Rightarrow> is_chained_queue ch q \<and> \<not> gone q \<and> chaining_ok ch' \<and> dom ch' = dom ch))
    \<and> (\<forall>q t. is_valid_token ch q t \<longrightarrow> length t = 8)"
proof (intro conjI allI impI)
  show "chaining_ok (chaining_new queues)"
    by (simp add: chaining_ok_def chaining_new_def new_reachable)
  show "is_chained_queue (chaining_new queues) q \<longleftrightarrow> (\<exists>c\<in>set queues. qc_chained c \<and> qc_name c = q)" for q
    by (auto simp: is_chained_queue_def chaining_new_def)
  show "length t = 8" if "is_valid_token ch q t" for q t using valid_token_length [OF assms that] .
next
  fix gone c q r assume r: "chaining_lock gone c q ch = Some r \<or> chaining_unlock gone q ch = Some r"
  show "case r of
      Inl InvalidQueue \<Rightarrow> \<not> is_chained_queue ch q
    | Inl TaskGone \<Rightarrow> is_chained_queue ch q \<and> gone q
    | Inr ch' \<Rightarrow> is_chained_queue ch q \<and> \<not> gone q \<and> chaining_ok ch' \<and> dom ch' = dom ch"
  proof (cases r)
    case (Inl e)
    with r show ?thesis
      by (auto simp: chaining_lock_def chaining_unlock_def is_chained_queue_def split: option.splits if_splits)
  next
    case (Inr ch')
    with r have "is_chained_queue ch q" "\<not> gone q"
      by (auto simp: chaining_lock_def chaining_unlock_def is_chained_queue_def split: option.splits if_splits)
    moreover from r Inr lock_ok [OF assms] unlock_ok [OF assms] have "chaining_ok ch' \<and> dom ch' = dom ch" by blast
    ultimately show ?thesis using Inr by simp
  qed
qed

theorem chaining_operations_typed_witness:
  "\<exists>ch'. chaining_lock (\<lambda>_. False) 7 ''chain'' (chaining_new [\<lparr>qc_name = ''chain'', qc_weight = 1, qc_chained = True,
      qc_server_signing = False\<rparr>]) = Some (Inr ch') \<and> chaining_ok ch'"
proof -
  let ?ch = "chaining_new [\<lparr>qc_name = ''chain'', qc_weight = 1, qc_chained = True, qc_server_signing = False\<rparr>]"
  have "chaining_ok ?ch" by (simp add: chaining_ok_def chaining_new_def new_reachable)
  moreover obtain ch' where "chaining_lock (\<lambda>_. False) 7 ''chain'' ?ch = Some (Inr ch')"
    by (simp add: chaining_lock_def chaining_new_def chain_queue_new_def LOCK_BUFFER_def)
  ultimately show ?thesis using chaining_operations_typed [of ?ch] by fastforce
qed

end
