(* ===== verification/Submit_Server.thy ===== *)
theory Submit_Server
  imports Tx_Chaining Tx_Validation
begin

text \<open>
  The submit service, \<^verbatim>\<open>src/server/submit.rs\<close>: \<open>submit_tx\<close> admits the transactions of a request,
  stores them in one database transaction and gives back the locks of chained queues; \<open>lock_state\<close>
  passes a request for a lock on to the chained queue.

  The state is the database and the unlock messages sent so far.  The parameter \<open>hex\<close> stands for the
  textual form of a hash, \<open>chained\<close> says which queues have a lock task, \<open>gone\<close> which of these tasks
  no longer receive, and \<open>obs k\<close> is what the handler sees while it looks at the \<open>k\<close>-th transaction of
  the request: the ledger, the tokens that are out and the clock.  Between two looks anything may
  happen to the locks.
\<close>

section \<open>Requests\<close>

record submit_item =
  it_raw :: bytes
  it_queue :: "string option"
  it_lock_token :: "string option"

record item_obs =
  ob_validate :: u5c_adapter
  ob_evaluate :: u5c_adapter
  ob_tokens :: "string \<Rightarrow> string option"
  ob_created :: time
  ob_updated :: time

datatype status = FailedPrecondition nat | PermissionDenied | InternalStatus | InvalidArgument | Unimplemented

record server_state =
  sv_db :: db
  sv_unlocks :: "string list"

section \<open>\<open>submit_tx\<close>\<close>

definition should_validate :: "queue_set \<Rightarrow> string option \<Rightarrow> bool" where
  "should_validate queues queue =
     (case queue of
        None \<Rightarrow> True
      | Some queue_name \<Rightarrow>
          (case (case queues_get queues queue_name of
                   Some c \<Rightarrow> Some c
                 | None \<Rightarrow> find (\<lambda>q. qc_name q = DEFAULT_QUEUE) queues) of
             None \<Rightarrow> True
           | Some cfg \<Rightarrow> \<not> qc_server_signing cfg))"

text \<open>The two checks; \<open>False\<close> is the \<open>continue\<close> that leaves the transaction out.\<close>

definition passes_checks ::
  "('tx, 'out, 'rep) pallas \<Rightarrow> item_obs \<Rightarrow> 'tx \<Rightarrow> (status, bool) outcome" where
  "passes_checks pl ob metx =
     (case validate_tx pl (ob_validate ob) metx of
        Inl Panic \<Rightarrow> Inl Panic
      | Inl (Err _) \<Rightarrow> Inr False
      | Inr _ \<Rightarrow>
          (case evaluate_tx pl (ob_evaluate ob) metx of
             Inl Panic \<Rightarrow> Inl Panic
           | Inl (Err _) \<Rightarrow> Inr False
           | Inr _ \<Rightarrow> Inr True))"

text \<open>
  The body of the loop: \<open>None\<close> for a transaction that is left out, otherwise the transaction to
  store, its hash, and the chained queue whose lock is to be given back.
\<close>

definition admit_item ::
  "('tx, 'out, 'rep) pallas \<Rightarrow> (bytes \<Rightarrow> string) \<Rightarrow> queue_set \<Rightarrow> (string \<Rightarrow> bool) \<Rightarrow> item_obs \<Rightarrow> nat \<Rightarrow>
   submit_item \<Rightarrow> (status, (Transaction \<times> bytes \<times> string option) option) outcome" where
  "admit_item pl hex queues chained ob idx item =
     res_bind (ok_or (FailedPrecondition idx) (pl_decode pl (it_raw item))) (\<lambda>metx.
     let hash = pl_hash pl metx in
     res_bind (if should_validate queues (it_queue item) then passes_checks pl ob metx else Inr True) (\<lambda>passed.
     if \<not> passed then Inr None
     else
       let t = Transaction_new (hex hash) (it_raw item) (ob_created ob) (ob_updated ob) in
       case it_queue item of
         None \<Rightarrow> Inr (Some (t, hash, None))
       | Some queue \<Rightarrow>
           if chained queue then
             (let lock_token = (case it_lock_token item of None \<Rightarrow> [] | Some token \<Rightarrow> token) in
              if ob_tokens ob queue = Some lock_token
              then Inr (Some (t\<lparr>tx_queue := queue\<rparr>, hash, Some queue))
              else Inl (Err PermissionDenied))
           else Inr (Some (t\<lparr>tx_queue := queue\<rparr>, hash, None))))"

fun admit_all ::
  "('tx, 'out, 'rep) pallas \<Rightarrow> (bytes \<Rightarrow> string) \<Rightarrow> queue_set \<Rightarrow> (string \<Rightarrow> bool) \<Rightarrow> (nat \<Rightarrow> item_obs) \<Rightarrow> nat \<Rightarrow>
   submit_item list \<Rightarrow> (status, (Transaction \<times> bytes \<times> string option) list) outcome" where
  "admit_all pl hex queues chained obs idx [] = Inr []"
| "admit_all pl hex queues chained obs idx (item # items) =
     res_bind (admit_item pl hex queues chained (obs idx) idx item) (\<lambda>admitted.
     res_bind (admit_all pl hex queues chained obs (Suc idx) items) (\<lambda>rest.
     Inr (case admitted of None \<Rightarrow> rest | Some x \<Rightarrow> x # rest)))"

definition on_server_db :: "(db, 'e, 'a) sx \<Rightarrow> (server_state, 'e, 'a) sx" where
  "on_server_db m s = (case m (sv_db s) of (r, d) \<Rightarrow> (r, s\<lparr>sv_db := d\<rparr>))"

text \<open>\<open>TxChaining::unlock\<close> as the handler sees it.\<close>

definition send_unlock ::
  "(string \<Rightarrow> bool) \<Rightarrow> (string \<Rightarrow> bool) \<Rightarrow> string \<Rightarrow> (server_state, status fault, unit) sx" where
  "send_unlock chained gone q s =
     (if chained q \<and> \<not> gone q then (Inr (), s\<lparr>sv_unlocks := sv_unlocks s @ [q]\<rparr>)
      else (Inl (Err InternalStatus), s))"

definition chained_queues :: "(Transaction \<times> bytes \<times> string option) list \<Rightarrow> string list" where
  "chained_queues admitted = List.map_filter (\<lambda>(_, _, q). q) admitted"

definition submit_tx ::
  "('tx, 'out, 'rep) pallas \<Rightarrow> (bytes \<Rightarrow> string) \<Rightarrow> queue_set \<Rightarrow> (string \<Rightarrow> bool) \<Rightarrow> (string \<Rightarrow> bool) \<Rightarrow>
   (nat \<Rightarrow> item_obs) \<Rightarrow> submit_item list \<Rightarrow> (server_state, status fault, bytes list) sx" where
  "submit_tx pl hex queues chained gone obs items =
     sx_bind (sx_lift (admit_all pl hex queues chained obs 0 items)) (\<lambda>admitted.
     sx_bind (on_server_db (sx_map_err (\<lambda>_. Err InternalStatus) (create (map fst admitted)))) (\<lambda>_.
     sx_bind (sx_iter (send_unlock chained gone) (chained_queues admitted)) (\<lambda>_.
     sx_return (map (fst \<circ> snd) admitted))))"

section \<open>\<open>lock_state\<close>\<close>

text \<open>\<open>None\<close>: the channel of the queue is full and the call waits.\<close>

definition lock_state :: "(string \<Rightarrow> bool) \<Rightarrow> client \<Rightarrow> string \<Rightarrow> chaining \<Rightarrow> (status + chaining) option" where
  "lock_state gone c queue ch =
     (if \<not> is_chained_queue ch queue then Some (Inl InvalidArgument)
      else
        (case chaining_lock gone c queue ch of
           None \<Rightarrow> None
         | Some (Inl _) \<Rightarrow> Some (Inl InvalidArgument)
         | Some (Inr ch') \<Rightarrow> Some (Inr ch')))"

section \<open>What an admitted transaction is\<close>

text \<open>The conditions under which item \<open>k\<close> of a request becomes the stored transaction \<open>t\<close>.\<close>

definition admissible ::
  "('tx, 'out, 'rep) pallas \<Rightarrow> (bytes \<Rightarrow> string) \<Rightarrow> queue_set \<Rightarrow> (string \<Rightarrow> bool) \<Rightarrow> (nat \<Rightarrow> item_obs) \<Rightarrow>
   submit_item list \<Rightarrow> nat \<Rightarrow> Transaction \<Rightarrow> bytes \<Rightarrow> bool" where
  "admissible pl hex queues chained obs items k t hash \<longleftrightarrow>
     k < length items \<and> tx_raw t = it_raw (items ! k) \<and> tx_status t = Pending \<and>
     tx_dependencies t = None \<and> tx_id t = hex hash \<and>
     tx_queue t = (case it_queue (items ! k) of None \<Rightarrow> DEFAULT_QUEUE | Some q \<Rightarrow> q) \<and>
     (\<exists>metx. pl_decode pl (tx_raw t) = Some metx \<and> pl_hash pl metx = hash \<and>
        (should_validate queues (it_queue (items ! k)) \<longrightarrow>
           validate_tx pl (ob_validate (obs k)) metx = Inr () \<and>
           (\<exists>rep. evaluate_tx pl (ob_evaluate (obs k)) metx = Inr rep))) \<and>
     (\<forall>q. it_queue (items ! k) = Some q \<and> chained q \<longrightarrow>
        ob_tokens (obs k) q = Some (case it_lock_token (items ! k) of None \<Rightarrow> [] | Some token \<Rightarrow> token))"

lemma passes_checks_True:
  "passes_checks pl ob metx = Inr True \<longleftrightarrow>
   validate_tx pl (ob_validate ob) metx = Inr () \<and> (\<exists>rep. evaluate_tx pl (ob_evaluate ob) metx = Inr rep)"
  by (auto simp: passes_checks_def split: sum.splits fault.splits)

lemma admit_item_Some:
  assumes "admit_item pl hex queues chained ob idx item = Inr (Some (t, hash, cq))"
  obtains metx where "pl_decode pl (it_raw item) = Some metx" "hash = pl_hash pl metx"
    "should_validate queues (it_queue item) \<Longrightarrow> passes_checks pl ob metx = Inr True"
    "t = (Transaction_new (hex hash) (it_raw item) (ob_created ob) (ob_updated ob))
           \<lparr>tx_queue := (case it_queue item of None \<Rightarrow> DEFAULT_QUEUE | Some q \<Rightarrow> q)\<rparr>"
    "cq = (case it_queue item of None \<Rightarrow> None | Some q \<Rightarrow> if chained q then Some q else None)"
    "\<And>q. it_queue item = Some q \<Longrightarrow> chained q \<Longrightarrow>
       ob_tokens ob q = Some (case it_lock_token item of None \<Rightarrow> [] | Some token \<Rightarrow> token)"
proof (cases "pl_decode pl (it_raw item)")
  case (Some metx)
  with assms show thesis
    by (intro that [of metx])
      (auto simp: admit_item_def Let_def Transaction_new_def split: option.splits if_splits)
qed (use assms in \<open>simp add: admit_item_def\<close>)

lemma admit_item_admissible:
  assumes "admit_item pl hex queues chained (obs k) idx (items ! k) = Inr (Some (t, hash, cq))" "k < length items"
  shows "admissible pl hex queues chained obs items k t hash \<and>
    cq = (if it_queue (items ! k) \<noteq> None \<and> chained (tx_queue t) then Some (tx_queue t) else None)"
  using admit_item_Some [OF assms(1)]
  by (rule admit_item_Some [OF assms(1)])
    (use assms(2) in \<open>auto simp: admissible_def Transaction_new_def passes_checks_True split: option.splits\<close>)

lemma admit_all_ok:
  assumes "admit_all pl hex queues chained obs idx items = Inr adm" "items = drop idx all" "idx \<le> length all"
  shows "\<exists>ks. length ks = length adm \<and> sorted_wrt (<) ks \<and> (\<forall>k\<in>set ks. idx \<le> k \<and> k < length all) \<and>
    (\<forall>j<length adm. case adm ! j of (t, hash, cq) \<Rightarrow>
       admissible pl hex queues chained obs all (ks ! j) t hash \<and>
       cq = (if it_queue (all ! (ks ! j)) \<noteq> None \<and> chained (tx_queue t) then Some (tx_queue t) else None))"
  using assms
proof (induction items arbitrary: idx adm)
  case Nil
  then show ?case by (auto intro!: exI [of _ "[]"])
next
  case (Cons item items)
  have k: "idx < length all" "all ! idx = item" "items = drop (Suc idx) all"
  proof -
    show "idx < length all" using Cons.prems(2) by (metis drop_all leI list.distinct(1))
    then show "all ! idx = item" "items = drop (Suc idx) all"
      using Cons.prems(2) by (metis Cons_nth_drop_Suc list.inject)+
  qed
  from Cons.prems(1) obtain a rest where a: "admit_item pl hex queues chained (obs idx) idx item = Inr a"
    and rest: "admit_all pl hex queues chained obs (Suc idx) items = Inr rest"
    and adm: "adm = (case a of None \<Rightarrow> rest | Some x \<Rightarrow> x # rest)" by auto
  from Cons.IH [OF rest k(3)] k(1) obtain ks where
    ks: "length ks = length rest" "sorted_wrt (<) ks" "\<forall>k\<in>set ks. Suc idx \<le> k \<and> k < length all"
      "\<forall>j<length rest. case rest ! j of (t, hash, cq) \<Rightarrow>
         admissible pl hex queues chained obs all (ks ! j) t hash \<and>
         cq = (if it_queue (all ! (ks ! j)) \<noteq> None \<and> chained (tx_queue t) then Some (tx_queue t) else None)"
    by auto
  show ?case
  proof (cases a)
    case None
    with adm ks show ?thesis by (intro exI [of _ ks]) auto
  next
    case (Some x)
    obtain t hash cq where x: "x = (t, hash, cq)" by (cases x) auto
    have "admissible pl hex queues chained obs all idx t hash \<and>
        cq = (if it_queue (all ! idx) \<noteq> None \<and> chained (tx_queue t) then Some (tx_queue t) else None)"
      by (rule admit_item_admissible) (use a Some x k in auto)
    with Some x adm ks k(1) show ?thesis
      by (intro exI [of _ "idx # ks"]) (auto simp: nth_Cons less_Suc_eq_0_disj split: nat.splits)
  qed
qed

section \<open>Storing and unlocking\<close>

lemma unlock_loop:
  "sx_iter (send_unlock chained gone) qs s = (r, s') \<Longrightarrow>
   sv_db s' = sv_db s \<and> (r = Inr () \<longrightarrow> sv_unlocks s' = sv_unlocks s @ qs) \<and>
   ((\<forall>q\<in>set qs. chained q \<and> \<not> gone q) \<longrightarrow> r = Inr ())"
proof (induction qs arbitrary: s)
  case Nil
  then show ?case by (simp add: sx_return_def)
next
  case (Cons q qs)
  show ?case
  proof (cases "chained q \<and> \<not> gone q")
    case True
    then have "send_unlock chained gone q s = (Inr (), s\<lparr>sv_unlocks := sv_unlocks s @ [q]\<rparr>)"
      by (simp add: send_unlock_def)
    with Cons.prems have "sx_iter (send_unlock chained gone) qs (s\<lparr>sv_unlocks := sv_unlocks s @ [q]\<rparr>) = (r, s')"
      by (simp add: sx_bind_def)
    from Cons.IH [OF this] show ?thesis by auto
  next
    case False
    with Cons.prems show ?thesis by (auto simp: sx_bind_def send_unlock_def)
  qed
qed

lemma chained_queues_nth:
  assumes "length ks = length adm"
    "\<forall>j<length adm. case adm ! j of (t, hash, cq) \<Rightarrow>
       cq = (if P (ks ! j) \<and> chained (tx_queue t) then Some (tx_queue t) else None)"
  shows "chained_queues adm = map (tx_queue \<circ> snd) (filter (\<lambda>(k, t). P k \<and> chained (tx_queue t)) (zip ks (map fst adm)))"
  using assms
proof (induction ks adm rule: list_induct2)
  case (Cons k ks a adm)
  obtain t hash cq where a: "a = (t, hash, cq)" by (cases a) auto
  from Cons.prems [rule_format, of 0] have "cq = (if P k \<and> chained (tx_queue t) then Some (tx_queue t) else None)"
    using a by simp
  moreover have "\<forall>j<length adm. case adm ! j of (t, hash, cq) \<Rightarrow>
       cq = (if P (ks ! j) \<and> chained (tx_queue t) then Some (tx_queue t) else None)"
  proof (intro allI impI)
    fix j assume "j < length adm"
    with Cons.prems [rule_format, of "Suc j"] show "case adm ! j of (t, hash, cq) \<Rightarrow>
       cq = (if P (ks ! j) \<and> chained (tx_queue t) then Some (tx_queue t) else None)" by simp
  qed
  ultimately show ?case using Cons.IH a by (auto simp: chained_queues_def List.map_filter_simps)
qed (simp add: chained_queues_def List.map_filter_simps)

lemma chained_queues_chained:
  assumes "admit_all pl hex queues chained obs idx items = Inr adm"
  shows "\<forall>q\<in>set (chained_queues adm). chained q"
  using assms
proof (induction items arbitrary: idx adm)
  case (Cons item items)
  then obtain a rest where a: "admit_item pl hex queues chained (obs idx) idx item = Inr a"
    and rest: "admit_all pl hex queues chained obs (Suc idx) items = Inr rest"
    and adm: "adm = (case a of None \<Rightarrow> rest | Some x \<Rightarrow> x # rest)" by auto
  have "\<forall>q\<in>set (chained_queues rest). chained q" using Cons.IH [OF rest] .
  moreover have "chained q" if "a = Some (t, hash, Some q)" for t hash q
    using a unfolding that by (rule admit_item_Some) (auto split: option.splits if_splits)
  ultimately show ?case unfolding adm
    by (auto simp: chained_queues_def List.map_filter_simps split: option.splits)
qed (simp add: chained_queues_def List.map_filter_simps)

lemma submit_tx_Inr:
  assumes "submit_tx pl hex queues chained gone obs items s = (Inr refs, s')"
  obtains adm where "admit_all pl hex queues chained obs 0 items = Inr adm" "refs = map (fst \<circ> snd) adm"
    "create (map fst adm) (sv_db s) = (Inr (), sv_db s')" "sv_unlocks s' = sv_unlocks s @ chained_queues adm"
proof -
  from assms obtain adm s1 where a: "admit_all pl hex queues chained obs 0 items = Inr adm"
    and c: "on_server_db (sx_map_err (\<lambda>_. Err InternalStatus) (create (map fst adm))) s = (Inr (), s1)"
    and u: "sx_iter (send_unlock chained gone) (chained_queues adm) s1 = (Inr (), s')"
    and r: "refs = map (fst \<circ> snd) adm"
    by (auto simp: submit_tx_def sx_bind_def sx_lift_def sx_return_def split: prod.splits sum.splits)
  from c have "create (map fst adm) (sv_db s) = (Inr (), sv_db s1)" "sv_unlocks s1 = sv_unlocks s"
    by (auto simp: on_server_db_def sx_map_err_def split: prod.splits sum.splits)
  with a r unlock_loop [OF u] show thesis using that by simp
qed

section \<open>Properties of the submit service\<close>

text \<open>A request with two transactions, one of them for a chained queue.\<close>

definition demo_obs :: item_obs where
  "demo_obs =
     \<lparr>ob_validate = u5c_impl demo_service, ob_evaluate = u5c_impl demo_service,
      ob_tokens = [''chain'' \<mapsto> ''abcdefgh''], ob_created = 1, ob_updated = 1\<rparr>"

definition demo_items :: "submit_item list" where
  "demo_items =
     [\<lparr>it_raw = [1], it_queue = Some ''chain'', it_lock_token = Some ''abcdefgh''\<rparr>,
      \<lparr>it_raw = [1, 2], it_queue = Some ''chain'', it_lock_token = Some ''abcdefgh''\<rparr>]"

definition demo_hex :: "bytes \<Rightarrow> string" where
  "demo_hex bs = replicate (unat (hd bs)) (CHR ''x'')"

definition demo_server :: server_state where
  "demo_server = \<lparr>sv_db = migrate [] [], sv_unlocks = []\<rparr>"

lemma demo_passes: "n \<noteq> 5 \<Longrightarrow> n \<noteq> 6 \<Longrightarrow> n \<noteq> 9 \<Longrightarrow> passes_checks demo_pallas demo_obs n = Inr True"
  by (simp add: passes_checks_True demo_obs_def demo_accepts)

lemma demo_admit:
  "admit_all demo_pallas demo_hex [] (\<lambda>q. q = ''chain'') (\<lambda>_. demo_obs) 0 demo_items =
     Inr [((Transaction_new ''x'' [1] 1 1)\<lparr>tx_queue := ''chain''\<rparr>, [1], Some ''chain''),
          ((Transaction_new ''xx'' [1, 2] 1 1)\<lparr>tx_queue := ''chain''\<rparr>, [2], Some ''chain'')]"
proof -
  have "pl_decode demo_pallas [1] = Some 1" "pl_decode demo_pallas [1, 2] = Some 2"
    "pl_hash demo_pallas 1 = [1]" "pl_hash demo_pallas 2 = [2]" by (simp_all add: demo_pallas_def)
  moreover have "demo_hex [1] = ''x''" "demo_hex [2] = ''xx''"
  proof -
    have "unat (2 :: u8) = Suc (Suc 0)" by simp
    then show "demo_hex [2] = ''xx''" unfolding demo_hex_def by (simp only: list.sel replicate.simps)
    show "demo_hex [1] = ''x''" by (simp add: demo_hex_def)
  qed
  moreover have "ob_tokens demo_obs ''chain'' = Some ''abcdefgh''" "ob_created demo_obs = 1" "ob_updated demo_obs = 1"
    by (simp_all add: demo_obs_def)
  ultimately show ?thesis
    by (simp add: demo_items_def admit_item_def should_validate_def queues_get_def demo_passes Let_def
        del: res_bind_eq_Inr)
qed

lemma demo_no_deps:
  "t \<in> set [(Transaction_new i r a b)\<lparr>tx_queue := q\<rparr>, (Transaction_new i' r' a' b')\<lparr>tx_queue := q'\<rparr>] \<Longrightarrow>
   tx_dependencies t = None"
  by (auto simp: Transaction_new_def)

lemma demo_submit:
  "\<exists>s'. submit_tx demo_pallas demo_hex [] (\<lambda>q. q = ''chain'') (\<lambda>_. False) (\<lambda>_. demo_obs) demo_items demo_server =
     (Inr [[1], [2]], s') \<and> sv_unlocks s' = [''chain'', ''chain'']"
proof -
  let ?txs = "[(Transaction_new ''x'' [1] 1 1)\<lparr>tx_queue := ''chain''\<rparr>, (Transaction_new ''xx'' [1, 2] 1 1)\<lparr>tx_queue := ''chain''\<rparr>]"
  have "\<exists>d'. create ?txs (migrate [] []) = (Inr (), d') \<and> no_faults d'"
    by (rule create_succeeds [OF _ _ _ demo_no_deps])
      (auto simp: migrate_def no_faults_def row_ids_def Transaction_new_def)
  then obtain d' where "create ?txs (migrate [] []) = (Inr (), d')" by blast
  then show ?thesis
    by (simp add: submit_tx_def demo_admit sx_defs on_server_db_def demo_server_def chained_queues_def
        List.map_filter_simps send_unlock_def)
qed

text \<open>
  C12.  A successful submission stores what it reports.  The returned references are the hashes of
  the stored transactions, in the order of the request; every stored transaction is an item of the
  request, pending, under the text of its hash, was checked unless its queue signs on the server,
  and carried the token of its chained queue at the moment it was looked at; and one unlock message
  goes out for every stored transaction of a chained queue.
\<close>

theorem submit_stores_reported:
  assumes "submit_tx pl hex queues chained gone obs items s = (Inr refs, s')"
  shows "\<exists>ks txs. length ks = length refs \<and> length txs = length refs \<and> sorted_wrt (<) ks \<and>
     (\<forall>j<length refs. admissible pl hex queues chained obs items (ks ! j) (txs ! j) (refs ! j)) \<and>
     tx_tbl (sv_db s') = tx_tbl (sv_db s) @ map row_of_tx txs \<and>
     sv_unlocks s' = sv_unlocks s @ map (tx_queue \<circ> snd)
       (filter (\<lambda>(k, t). it_queue (items ! k) \<noteq> None \<and> chained (tx_queue t)) (zip ks txs))"
proof -
  from assms obtain adm where adm: "admit_all pl hex queues chained obs 0 items = Inr adm"
    "refs = map (fst \<circ> snd) adm" "create (map fst adm) (sv_db s) = (Inr (), sv_db s')"
    "sv_unlocks s' = sv_unlocks s @ chained_queues adm"
    by (rule submit_tx_Inr)
  from admit_all_ok [OF adm(1), of items] obtain ks where ks: "length ks = length adm" "sorted_wrt (<) ks"
    "\<forall>j<length adm. case adm ! j of (t, hash, cq) \<Rightarrow>
       admissible pl hex queues chained obs items (ks ! j) t hash \<and>
       cq = (if it_queue (items ! (ks ! j)) \<noteq> None \<and> chained (tx_queue t) then Some (tx_queue t) else None)"
    by auto
  have "chained_queues adm = map (tx_queue \<circ> snd)
      (filter (\<lambda>(k, t). it_queue (items ! k) \<noteq> None \<and> chained (tx_queue t)) (zip ks (map fst adm)))"
    by (rule chained_queues_nth [OF ks(1)]) (use ks(3) in auto)
  moreover have "\<forall>j<length adm. admissible pl hex queues chained obs items (ks ! j) (map fst adm ! j) (refs ! j)"
    using ks(3) adm(2) by (auto simp: case_prod_beta)
  ultimately show ?thesis
    using adm ks(1,2) create_ok(1) [OF adm(3)] by (intro exI [of _ ks] exI [of _ "map fst adm"]) auto
qed

theorem submit_stores_reported_witness:
  "\<exists>s' txs. submit_tx demo_pallas demo_hex [] (\<lambda>q. q = ''chain'') (\<lambda>_. False) (\<lambda>_. demo_obs) demo_items demo_server =
     (Inr [[1], [2]], s') \<and> length txs = 2 \<and> tx_tbl (sv_db s') = map row_of_tx txs"
proof -
  obtain s' where s': "submit_tx demo_pallas demo_hex [] (\<lambda>q. q = ''chain'') (\<lambda>_. False) (\<lambda>_. demo_obs) demo_items demo_server =
      (Inr [[1], [2]], s')" using demo_submit by blast
  from submit_stores_reported [OF s'] obtain txs where "length txs = length [[1], [2] :: bytes]"
    "tx_tbl (sv_db s') = tx_tbl (sv_db demo_server) @ map row_of_tx txs" by blast
  then have "length txs = 2" "tx_tbl (sv_db s') = map row_of_tx txs"
    by (simp_all add: demo_server_def migrate_def)
  with s' show ?thesis by blast
qed

text \<open>
  C31.  A refused submission leaves nothing behind.  As long as the lock tasks are running, when
  \<open>submit_tx\<close> returns an error or panics, for any item and at any point, no table has changed and no
  lock was given back.
\<close>

theorem submit_refused_clean:
  assumes "\<forall>q. chained q \<longrightarrow> \<not> gone q"
    "submit_tx pl hex queues chained gone obs items s = (Inl f, s')"
  shows "same_tables (sv_db s) (sv_db s') \<and> sv_unlocks s' = sv_unlocks s"
proof (cases "admit_all pl hex queues chained obs 0 items")
  case (Inl g)
  with assms(2) show ?thesis by (simp add: submit_tx_def sx_bind_def sx_lift_def)
next
  case (Inr adm)
  obtain cr d where c: "create (map fst adm) (sv_db s) = (cr, d)" by fastforce
  show ?thesis
  proof (cases cr)
    case (Inl e)
    with Inr assms(2) c create_err [of "map fst adm" "sv_db s" e d] show ?thesis
      by (auto simp: submit_tx_def sx_bind_def sx_lift_def on_server_db_def sx_map_err_def)
  next
    case (Inr x)
    obtain ur s2 where u: "sx_iter (send_unlock chained gone) (chained_queues adm) (s\<lparr>sv_db := d\<rparr>) = (ur, s2)" by fastforce
    have "ur = Inr ()"
      using unlock_loop [OF u] chained_queues_chained [OF \<open>admit_all pl hex queues chained obs 0 items = Inr adm\<close>] assms(1)
      by blast
    with \<open>admit_all pl hex queues chained obs 0 items = Inr adm\<close> Inr assms(2) c u show ?thesis
      by (simp add: submit_tx_def sx_bind_def sx_lift_def on_server_db_def sx_map_err_def sx_return_def)
  qed
qed

theorem submit_refused_clean_witness:
  "(let res = submit_tx demo_pallas demo_hex [] (\<lambda>q. q = ''chain'') (\<lambda>_. False)
       (\<lambda>_. demo_obs\<lparr>ob_tokens := Map.empty\<rparr>) demo_items demo_server
    in fst res = Inl (Err PermissionDenied) \<and> sv_unlocks (snd res) = [])"
proof -
  let ?res = "submit_tx demo_pallas demo_hex [] (\<lambda>q. q = ''chain'') (\<lambda>_. False)
       (\<lambda>_. demo_obs\<lparr>ob_tokens := Map.empty\<rparr>) demo_items demo_server"
  have "passes_checks demo_pallas (demo_obs\<lparr>ob_tokens := Map.empty\<rparr>) 1 = Inr True"
    using demo_passes [of 1] by (simp add: passes_checks_True)
  moreover have "pl_decode demo_pallas [1] = Some 1" by (simp add: demo_pallas_def)
  ultimately have r: "fst ?res = Inl (Err PermissionDenied)"
    by (simp add: submit_tx_def sx_defs demo_items_def admit_item_def should_validate_def queues_get_def Let_def)
  then have "?res = (Inl (Err PermissionDenied), snd ?res)" by (metis prod.collapse)
  from submit_refused_clean [OF _ this] r show ?thesis by (simp add: demo_server_def)
qed

text \<open>
  A request that names no queue is stored in the default queue without looking at any lock:
  when the default queue is configured as chained, its lock does not protect it.
\<close>

theorem default_queue_bypasses_lock:
  assumes "it_queue item = None" "pl_decode pl (it_raw item) = Some metx"
    "passes_checks pl ob metx = Inr True"
  shows "\<exists>t. admit_item pl hex queues chained (ob\<lparr>ob_tokens := tokens\<rparr>) idx item = Inr (Some (t, pl_hash pl metx, None)) \<and>
     tx_queue t = DEFAULT_QUEUE"
proof -
  have "passes_checks pl (ob\<lparr>ob_tokens := tokens\<rparr>) metx = Inr True"
    using assms(3) by (simp add: passes_checks_True)
  with assms show ?thesis
    by (simp add: admit_item_def Let_def should_validate_def Transaction_new_def)
qed

theorem default_queue_bypasses_lock_witness:
  "\<exists>t. admit_item demo_pallas demo_hex [queue_config_default\<lparr>qc_chained := True\<rparr>] (\<lambda>q. q = DEFAULT_QUEUE)
       (demo_obs\<lparr>ob_tokens := [DEFAULT_QUEUE \<mapsto> ''abcdefgh'']\<rparr>) 0
       \<lparr>it_raw = [1], it_queue = None, it_lock_token = None\<rparr> = Inr (Some (t, [1], None)) \<and> tx_queue t = DEFAULT_QUEUE"
proof -
  have d: "pl_decode demo_pallas [1] = Some 1" "pl_hash demo_pallas 1 = [1]" by (simp_all add: demo_pallas_def)
  have "passes_checks demo_pallas demo_obs 1 = Inr True" by (rule demo_passes) simp_all
  from default_queue_bypasses_lock [of "\<lparr>it_raw = [1], it_queue = None, it_lock_token = None\<rparr>", OF _ _ this] d
  show ?thesis by simp
qed

end
