(* ===== verification/Monitor_Stage.thy ===== *)
theory Monitor_Stage
  imports Stage_Framework Ledger_U5c
begin

text \<open>
  The monitor stage, \<^verbatim>\<open>src/pipeline/monitor.rs\<close>: it follows the chain, confirms the in-flight
  transactions that a block contains, puts the ones that were waiting too long back to pending,
  undoes confirmations on a rollback, and records its position as the cursor.

  The parameter \<open>hex\<close> stands for \<open>hex::encode\<close>, which turns the hash of a transaction in a
  block into the text that identifies stored transactions; \<open>diff\<close> is the configured
  \<open>retry_slot_diff\<close>.
\<close>

section \<open>The worker\<close>

text \<open>\<open>bootstrap\<close> and \<open>schedule\<close>: the next item of the stream, if there is one.\<close>

definition monitor_bootstrap :: "'e + 'stream \<Rightarrow> (worker_error, 'stream) outcome" where
  "monitor_bootstrap stream = or_panic stream"

fun monitor_schedule :: "stream_item list \<Rightarrow> (worker_error, Event schedule) outcome \<times> stream_item list" where
  "monitor_schedule [] = (Inr Idle, [])"
| "monitor_schedule (Yield e # rest) = (Inr (Unit e), rest)"
| "monitor_schedule (StreamError # rest) = (Inl (Err WorkerRestart), rest)"
| "monitor_schedule (StreamPanic # rest) = (Inl Panic, rest)"

definition confirm_tx :: "u64 \<Rightarrow> Transaction \<Rightarrow> Transaction" where
  "confirm_tx slot tx = tx\<lparr>tx_status := Confirmed, tx_slot := Some slot\<rparr>"

definition retry_tx :: "Transaction \<Rightarrow> Transaction" where
  "retry_tx tx = tx\<lparr>tx_status := Pending, tx_slot := None\<rparr>"

definition in_block :: "(bytes \<Rightarrow> string) \<Rightarrow> block_tx list \<Rightarrow> string \<Rightarrow> bool" where
  "in_block hex txs i \<longleftrightarrow> (\<exists>tx\<in>set txs. hex (btx_hash tx) = i)"

text \<open>The filter for retries: the slot is unwrapped and subtracted before anything else.\<close>

definition retry_due ::
  "bool \<Rightarrow> u64 \<Rightarrow> u64 \<Rightarrow> Transaction list \<Rightarrow> Transaction \<Rightarrow> (worker_error, bool) outcome" where
  "retry_due oc diff slot txs_confirm itx =
     res_bind (option_unwrap (tx_slot itx)) (\<lambda>s.
     res_bind (sub_oc oc slot s) (\<lambda>age.
     Inr (diff < age \<and> \<not> (\<exists>tx\<in>set txs_confirm. tx_id tx = tx_id itx))))"

text \<open>The arm for \<open>Event::RollForward\<close>\<close>

definition roll_forward ::
  "(bytes \<Rightarrow> string) \<Rightarrow> bool \<Rightarrow> u64 \<Rightarrow> u64 \<Rightarrow> block_tx list \<Rightarrow> unit work" where
  "roll_forward hex oc diff slot txs =
     sx_bind (or_retry (find_status InFlight)) (\<lambda>txs_inflight.
     let txs_confirm = map (confirm_tx slot) (filter (\<lambda>itx. in_block hex txs (tx_id itx)) txs_inflight)
     in sx_bind (update_unless_empty txs_confirm) (\<lambda>_.
        sx_bind (sx_lift (filter_res (retry_due oc diff slot txs_confirm) txs_inflight)) (\<lambda>due.
        update_unless_empty (map retry_tx due))))"

text \<open>The closure of \<open>Event::Rollback\<close>\<close>

definition rollback_tx :: "u64 \<Rightarrow> Transaction \<Rightarrow> (worker_error, Transaction) outcome" where
  "rollback_tx slot tx =
     res_bind (option_unwrap (tx_slot tx)) (\<lambda>s.
     Inr (if slot < s then tx\<lparr>tx_status := InFlight, tx_slot := None\<rparr> else tx\<lparr>tx_slot := Some slot\<rparr>))"

definition roll_back :: "u64 \<Rightarrow> unit work" where
  "roll_back slot =
     sx_bind (or_retry (find_to_rollback slot)) (\<lambda>txs.
     sx_bind (sx_lift (sequence (map (rollback_tx slot) txs))) (\<lambda>txs'.
     or_retry (update_batch txs')))"

definition monitor_execute ::
  "(bytes \<Rightarrow> string) \<Rightarrow> bool \<Rightarrow> u64 \<Rightarrow> Event \<Rightarrow> unit work" where
  "monitor_execute hex oc diff ev =
     (case ev of
        RollForward (slot, hash) txs \<Rightarrow>
          sx_bind (roll_forward hex oc diff slot txs) (\<lambda>_. or_retry (cursor_set (Cursor_new slot hash)))
      | Rollback (slot, hash) \<Rightarrow>
          sx_bind (roll_back slot) (\<lambda>_. or_retry (cursor_set (Cursor_new slot hash))))"

section \<open>What an event means for the stored transactions\<close>

definition confirm_entry :: "u64 \<Rightarrow> entry \<Rightarrow> entry" where
  "confirm_entry slot e = e\<lparr>e_status := Confirmed, e_slot := Some slot\<rparr>"

definition overdue :: "u64 \<Rightarrow> u64 \<Rightarrow> entry \<Rightarrow> bool" where
  "overdue diff slot e \<longleftrightarrow> e_status e = InFlight \<and> (\<exists>s. e_slot e = Some s \<and> diff < slot - s)"

definition forward_entry ::
  "(bytes \<Rightarrow> string) \<Rightarrow> u64 \<Rightarrow> u64 \<Rightarrow> block_tx list \<Rightarrow> string \<Rightarrow> entry \<Rightarrow> entry" where
  "forward_entry hex diff slot txs i e =
     (if e_status e = InFlight \<and> in_block hex txs i then confirm_entry slot e
      else if overdue diff slot e then e\<lparr>e_status := Pending, e_slot := None\<rparr>
      else e)"

definition undone :: "u64 \<Rightarrow> entry \<Rightarrow> bool" where
  "undone slot e \<longleftrightarrow> e_status e = Confirmed \<and> (\<exists>s. e_slot e = Some s \<and> slot < s)"

definition rollback_entry :: "u64 \<Rightarrow> entry \<Rightarrow> entry" where
  "rollback_entry slot e = (if undone slot e then e\<lparr>e_status := InFlight, e_slot := None\<rparr> else e)"

text \<open>The specification of the stage: the effect of an event, entry by entry.\<close>

definition event_effect ::
  "(bytes \<Rightarrow> string) \<Rightarrow> u64 \<Rightarrow> Event \<Rightarrow> (string \<Rightarrow> entry option) \<Rightarrow> string \<Rightarrow> entry option" where
  "event_effect hex diff ev m i =
     map_option
       (case ev of
          RollForward (slot, _) txs \<Rightarrow> forward_entry hex diff slot txs i
        | Rollback (slot, _) \<Rightarrow> rollback_entry slot)
       (m i)"

text \<open>When a block cannot be processed: an in-flight transaction without a slot, or, with overflow
  checks, one whose slot lies after the block's.\<close>

definition stuck :: "bool \<Rightarrow> u64 \<Rightarrow> (string \<Rightarrow> entry option) \<Rightarrow> bool" where
  "stuck oc slot m \<longleftrightarrow> (\<exists>i e. m i = Some e \<and> e_status e = InFlight \<and>
     (case e_slot e of None \<Rightarrow> True | Some s \<Rightarrow> oc \<and> slot < s))"

section \<open>One block\<close>

lemma put_confirm: "tx_id (confirm_tx slot t) = tx_id t"
  "put_entry (confirm_tx slot t) (entry_of_tx t) = confirm_entry slot (entry_of_tx t)"
  by (simp_all add: confirm_tx_def put_entry_def entry_of_tx_def confirm_entry_def)

lemma put_retry: "tx_id (retry_tx t) = tx_id t"
  "put_entry (retry_tx t) (entry_of_tx t) = (entry_of_tx t)\<lparr>e_status := Pending, e_slot := None\<rparr>"
  by (simp_all add: retry_tx_def put_entry_def entry_of_tx_def)

lemma entry_of_tx_sel [simp]:
  "e_status (entry_of_tx t) = tx_status t" "e_slot (entry_of_tx t) = tx_slot t"
  "e_queue (entry_of_tx t) = tx_queue t" "e_raw (entry_of_tx t) = tx_raw t"
  by (simp_all add: entry_of_tx_def)

abbreviation confirmable :: "(bytes \<Rightarrow> string) \<Rightarrow> block_tx list \<Rightarrow> string \<Rightarrow> entry \<Rightarrow> bool" where
  "confirmable hex txs \<equiv> \<lambda>i e. e_status e = InFlight \<and> in_block hex txs i"

text \<open>What the stage knows of the in-flight transactions it has read.\<close>

definition inflight_list :: "(string \<Rightarrow> entry option) \<Rightarrow> Transaction list \<Rightarrow> bool" where
  "inflight_list m ts \<longleftrightarrow> distinct (map tx_id ts) \<and>
     (\<forall>t\<in>set ts. m (tx_id t) = Some (entry_of_tx t) \<and> tx_status t = InFlight) \<and>
     (\<forall>i e. m i = Some e \<and> e_status e = InFlight \<longrightarrow> (\<exists>t\<in>set ts. tx_id t = i \<and> entry_of_tx t = e))"

lemma find_inflight_list:
  assumes "find_status InFlight d = (Inr ts, d1)" "db_wf d"
  shows "inflight_list (entries d) ts"
  using find_status_entries [OF assms] unfolding inflight_list_def by blast

lemma retry_due_value:
  "retry_due oc diff slot cs t =
     (case tx_slot t of
        None \<Rightarrow> Inl Panic
      | Some s \<Rightarrow> if oc \<and> slot < s then Inl Panic
                  else Inr (diff < slot - s \<and> tx_id t \<notin> tx_id ` set cs))"
  by (cases "tx_slot t") (auto simp: retry_due_def sub_oc_def image_iff)

lemma filter_due:
  assumes "inflight_list m ts"
    and cs_def: "cs = map (confirm_tx slot) (filter (\<lambda>t. in_block hex txs (tx_id t)) ts)"
  shows "filter_res (retry_due oc diff slot cs) ts =
    (if stuck oc slot m then Inl Panic
     else Inr (filter (\<lambda>t. overdue diff slot (entry_of_tx t) \<and> \<not> in_block hex txs (tx_id t)) ts))"
proof -
  have all: "retry_due oc diff slot cs t = Inl Panic \<or> (\<exists>b. retry_due oc diff slot cs t = Inr b)" for t
    by (auto simp: retry_due_value split: option.splits)
  have ids: "tx_id ` set cs = {i. in_block hex txs i} \<inter> tx_id ` set ts"
    by (auto simp: cs_def put_confirm image_image)
  have st: "stuck oc slot m \<longleftrightarrow> (\<exists>t\<in>set ts. retry_due oc diff slot cs t = Inl Panic)"
  proof
    assume "stuck oc slot m"
    then obtain i e where e: "m i = Some e" "e_status e = InFlight"
      "case e_slot e of None \<Rightarrow> True | Some s \<Rightarrow> oc \<and> slot < s"
      unfolding stuck_def by blast
    with assms(1) obtain t where "t \<in> set ts" "entry_of_tx t = e" unfolding inflight_list_def by blast
    with e(3) show "\<exists>t\<in>set ts. retry_due oc diff slot cs t = Inl Panic"
      by (intro bexI [of _ t]) (auto simp: retry_due_value split: option.splits)
  next
    assume "\<exists>t\<in>set ts. retry_due oc diff slot cs t = Inl Panic"
    then obtain t where "t \<in> set ts" "retry_due oc diff slot cs t = Inl Panic" by blast
    with assms(1) show "stuck oc slot m"
      unfolding stuck_def inflight_list_def
      by (intro exI [of _ "tx_id t"] exI [of _ "entry_of_tx t"])
        (auto simp: retry_due_value split: option.splits if_splits)
  qed
  show ?thesis
  proof (cases "stuck oc slot m")
    case True
    with st filter_res_Panic [of ts "retry_due oc diff slot cs"] all show ?thesis by simp
  next
    case False
    have "retry_due oc diff slot cs t =
        Inr (overdue diff slot (entry_of_tx t) \<and> \<not> in_block hex txs (tx_id t))" if "t \<in> set ts" for t
      using that False st all [of t] assms(1) ids
      by (auto simp: retry_due_value overdue_def inflight_list_def split: option.splits if_splits)
    with False filter_res_Inr [of ts "retry_due oc diff slot cs"] show ?thesis by simp
  qed
qed

lemma forward_two_steps:
  "upd_where (\<lambda>i. overdue diff slot) (\<lambda>e. e\<lparr>e_status := Pending, e_slot := None\<rparr>)
     (upd_where (confirmable hex txs) (confirm_entry slot) m) =
   event_effect hex diff (RollForward (slot, h) txs) m"
  by (auto simp: upd_where_def event_effect_def forward_entry_def fun_eq_iff map_option_case
      confirm_entry_def overdue_def split: option.splits)

lemma confirm_update:
  assumes "inflight_list (entries d) ts"
    "update_unless_empty (map (confirm_tx slot) (filter (\<lambda>t. in_block hex txs (tx_id t)) ts)) d = (r, d')"
  shows "r = Inl (Err WorkerRetry) \<and> entries d' = entries d \<and> cursor_tbl d' = cursor_tbl d \<or>
    r = Inr () \<and> entries d' = upd_where (confirmable hex txs) (confirm_entry slot) (entries d) \<and>
      cursor_tbl d' = cursor_tbl d"
proof (rule update_unless_empty_where [OF assms(2)])
  let ?cs = "filter (\<lambda>t. in_block hex txs (tx_id t)) ts"
  show "distinct (map tx_id ?cs)"
    using assms(1) by (auto simp: inflight_list_def distinct_map inj_on_def)
  show "i \<in> tx_id ` set ?cs" if "entries d i = Some e" "confirmable hex txs i e" for i e
    using that assms(1) unfolding inflight_list_def by force
qed (use assms(1) in \<open>auto simp: inflight_list_def put_confirm\<close>)

lemma retry_update:
  assumes "inflight_list m ts" "entries d = upd_where (confirmable hex txs) (confirm_entry slot) m"
    "update_unless_empty (map retry_tx (filter (\<lambda>t. overdue diff slot (entry_of_tx t) \<and>
        \<not> in_block hex txs (tx_id t)) ts)) d = (r, d')"
  shows "r = Inl (Err WorkerRetry) \<and> entries d' = entries d \<and> cursor_tbl d' = cursor_tbl d \<or>
    r = Inr () \<and> entries d' = event_effect hex diff (RollForward (slot, h) txs) m \<and>
      cursor_tbl d' = cursor_tbl d"
  unfolding forward_two_steps [symmetric] assms(2) [symmetric]
proof (rule update_unless_empty_where [OF assms(3)])
  let ?due = "filter (\<lambda>t. overdue diff slot (entry_of_tx t) \<and> \<not> in_block hex txs (tx_id t)) ts"
  show "distinct (map tx_id ?due)"
    using assms(1) by (auto simp: inflight_list_def distinct_map inj_on_def)
  show "entries d (tx_id t) = Some (entry_of_tx t) \<and> overdue diff slot (entry_of_tx t)"
    if "t \<in> set ?due" for t
    using that assms(1) unfolding assms(2) by (auto simp: inflight_list_def upd_where_def)
  show "i \<in> tx_id ` set ?due" if "entries d i = Some e" "overdue diff slot e" for i e
  proof -
    from that(1) obtain e0 where e: "m i = Some e0"
      "e = (if confirmable hex txs i e0 then confirm_entry slot e0 else e0)"
      unfolding assms(2) by (auto simp: upd_where_def)
    with that(2) have e0: "m i = Some e0" "\<not> confirmable hex txs i e0" "e = e0"
      by (auto simp: overdue_def confirm_entry_def)
    with that(2) assms(1) obtain t where "t \<in> set ts" "tx_id t = i" "entry_of_tx t = e"
      unfolding inflight_list_def overdue_def by blast
    with e0 that(2) show ?thesis by (auto simp: overdue_def)
  qed
qed (simp_all add: put_retry)

lemma slot_small_maps: "slot_small (Some slot) \<Longrightarrow> t \<in> set (map (confirm_tx slot) ts) \<Longrightarrow> slot_small (tx_slot t)"
  "t \<in> set (map retry_tx ts) \<Longrightarrow> slot_small (tx_slot t)"
  by (auto simp: confirm_tx_def retry_tx_def slot_small_def)

text \<open>Every way in which a block can be processed.\<close>

lemma roll_forward_cases:
  assumes "db_wf d" "slots_wf d" "slot_small (Some slot)" "roll_forward hex oc diff slot txs d = (r, d')"
  shows "db_wf d' \<and> slots_wf d' \<and> cursor_tbl d' = cursor_tbl d \<and>
    (r = Inr () \<and> \<not> stuck oc slot (entries d) \<and>
        entries d' = event_effect hex diff (RollForward (slot, h) txs) (entries d)
     \<or> r = Inl (Err WorkerRetry) \<and> (entries d' = entries d \<or>
         entries d' = upd_where (confirmable hex txs) (confirm_entry slot) (entries d))
     \<or> r = Inl Panic \<and> stuck oc slot (entries d) \<and>
         entries d' = upd_where (confirmable hex txs) (confirm_entry slot) (entries d))"
proof -
  obtain fr d1 where f: "find_status InFlight d = (fr, d1)" by fastforce
  then have s1: "same_tables d d1" by (auto simp: find_status_def dest: fetch_rows_same_tables)
  with assms(1,2) have wf1: "db_wf d1" "slots_wf d1" "entries d1 = entries d" "cursor_tbl d1 = cursor_tbl d"
    by (simp_all add: same_tables_predicates) (simp add: same_tables_def)
  show ?thesis
  proof (cases fr)
    case (Inl e)
    with f assms(4) have "r = Inl (Err WorkerRetry)" "d' = d1"
      by (simp_all add: roll_forward_def sx_bind_def or_retry_def sx_map_err_def)
    with wf1 show ?thesis by simp
  next
    case (Inr ts)
    with f have il: "inflight_list (entries d) ts" using find_inflight_list assms(1) by blast
    let ?cs = "map (confirm_tx slot) (filter (\<lambda>t. in_block hex txs (tx_id t)) ts)"
    obtain ur d2 where u: "update_unless_empty ?cs d1 = (ur, d2)" by fastforce
    have wf2: "db_wf d2" "slots_wf d2"
      using keepsD [OF update_unless_empty_keeps(1) _ u] keepsD [OF update_unless_empty_keeps(2) _ u]
        slot_small_maps(1) [OF assms(3)] wf1 by blast+
    note c = confirm_update [OF il [folded wf1(3)] u]
    note run = assms(4) [unfolded roll_forward_def sx_bind_def or_retry_def sx_map_err_def Let_def sx_lift_def]
    show ?thesis
    proof (cases "ur = Inr () \<and> \<not> stuck oc slot (entries d)")
      case False
      with run f Inr u c filter_due [OF il refl, where slot = slot and hex = hex and txs = txs and oc = oc and diff = diff] wf1 wf2 show ?thesis
        by (auto split: if_splits)
    next
      case True
      let ?due = "filter (\<lambda>t. overdue diff slot (entry_of_tx t) \<and> \<not> in_block hex txs (tx_id t)) ts"
      from True run f Inr u filter_due [OF il refl, where slot = slot and hex = hex and txs = txs and oc = oc and diff = diff]
      have v: "update_unless_empty (map retry_tx ?due) d2 = (r, d')" by simp
      have "db_wf d'" "slots_wf d'"
        using keepsD [OF update_unless_empty_keeps(1) _ v] keepsD [OF update_unless_empty_keeps(2) _ v]
          slot_small_maps(2) wf2 by blast+
      moreover from True c wf1 have e2: "entries d2 = upd_where (confirmable hex txs) (confirm_entry slot) (entries d)"
        "cursor_tbl d2 = cursor_tbl d" by auto
      ultimately show ?thesis using retry_update [OF il e2(1) v, of h] True by auto
    qed
  qed
qed

section \<open>One rollback\<close>

lemma rollback_tx_found:
  assumes "tx_slot t = Some s" "slot < s"
  shows "rollback_tx slot t = Inr (t\<lparr>tx_status := InFlight, tx_slot := None\<rparr>)"
  using assms by (simp add: rollback_tx_def)

lemma roll_back_cases:
  assumes "db_wf d" "slots_wf d" "slot_small (Some slot)" "roll_back slot d = (r, d')"
  shows "db_wf d' \<and> slots_wf d' \<and> cursor_tbl d' = cursor_tbl d \<and>
    (r = Inr () \<and> entries d' = event_effect hex diff (Rollback (slot, h)) (entries d)
     \<or> r = Inl (Err WorkerRetry) \<and> entries d' = entries d)"
proof -
  obtain fr d1 where f: "find_to_rollback slot d = (fr, d1)" by fastforce
  then have s1: "same_tables d d1" by (auto simp: find_to_rollback_def dest: fetch_rows_same_tables)
  with assms(1,2) have wf1: "db_wf d1" "slots_wf d1" "entries d1 = entries d" "cursor_tbl d1 = cursor_tbl d"
    by (simp_all add: same_tables_predicates) (simp add: same_tables_def)
  have small: "0 \<le> sint slot" using assms(3) by (simp add: slot_small_def)
  show ?thesis
  proof (cases fr)
    case (Inl e)
    with f assms(4) have "r = Inl (Err WorkerRetry)" "d' = d1"
      by (simp_all add: roll_back_def sx_bind_def or_retry_def sx_map_err_def)
    with wf1 show ?thesis by simp
  next
    case (Inr ts)
    let ?f = "\<lambda>t. t\<lparr>tx_status := InFlight, tx_slot := None\<rparr> :: Transaction"
    have ts: "ts = map tx_of_row (filter (\<lambda>r. status_of_row r = Confirmed \<and>
        (\<exists>w. row_slot r = Some w \<and> slot < w)) (tx_tbl d))"
      using find_to_rollback_ok(1) f Inr assms(1,2) small by blast
    have "sequence (map (rollback_tx slot) ts) = Inr (map ?f ts)"
      by (rule sequence_cong_Inr) (auto simp: ts rollback_tx_found)
    with f Inr assms(4) have u: "or_retry (update_batch (map ?f ts)) d1 = (r, d')"
      by (simp add: roll_back_def sx_bind_def or_retry_def sx_map_err_def sx_lift_def)
    have "keeps db_wf (or_retry (update_batch (map ?f ts)))" "keeps slots_wf (or_retry (update_batch (map ?f ts)))"
      by (auto intro!: keeps_or_retry update_batch_keeps_wf update_batch_slots simp: slot_small_def)
    with u wf1 have wf2: "db_wf d'" "slots_wf d'" by (metis keepsD)+
    show ?thesis
    proof (cases r)
      case (Inl e)
      with u update_batch_err [of "map ?f ts" d1 _ d'] wf1 wf2 show ?thesis
        by (auto simp: or_retry_Inl same_tables_predicates) (simp add: same_tables_def)
    next
      case (Inr x)
      with u have ok: "update_batch (map ?f ts) d1 = (Inr (), d')" by simp
      have "entries d' = upd_where (\<lambda>i. undone slot) (\<lambda>e. e\<lparr>e_status := InFlight, e_slot := None\<rparr>) (entries d1)"
      proof (rule update_batch_where [OF ok])
        show "distinct (map tx_id ts)"
          using assms(1) by (auto simp: ts db_wf_def o_def distinct_map inj_on_def)
        show "entries d1 (tx_id t) = Some (entry_of_tx t) \<and> undone slot (entry_of_tx t)" if "t \<in> set ts" for t
          using that map_tx_of_row_entries [OF assms(1)] unfolding wf1(3) ts by (auto simp: undone_def)
        show "i \<in> tx_id ` set ts" if "entries d1 i = Some e" "undone slot e" for i e
          using that assms(1) unfolding wf1(3) ts
          by (auto simp: entries_Some_iff undone_def entry_of_row_def image_iff)
      qed (simp_all add: put_entry_def entry_of_tx_def)
      then have "entries d' = event_effect hex diff (Rollback (slot, h)) (entries d)"
        by (auto simp: wf1(3) upd_where_def event_effect_def rollback_entry_def fun_eq_iff map_option_case
            split: option.splits)
      with Inr wf2 update_batch_ok(2) [OF ok] wf1(4) show ?thesis by simp
    qed
  qed
qed

section \<open>One event\<close>

lemma not_overdue: "e_status e \<noteq> InFlight \<Longrightarrow> \<not> overdue diff slot e"
  by (simp add: overdue_def)

lemma not_undone: "e_status e \<noteq> Confirmed \<Longrightarrow> \<not> undone slot e"
  by (simp add: undone_def)

lemma forward_entry_again:
  "forward_entry hex diff slot txs i (forward_entry hex diff slot txs i e) = forward_entry hex diff slot txs i e"
  by (cases "confirmable hex txs i e"; cases "overdue diff slot e")
    (auto simp: forward_entry_def confirm_entry_def not_overdue)

lemma rollback_entry_again: "rollback_entry slot (rollback_entry slot e) = rollback_entry slot e"
  by (cases "undone slot e") (simp_all add: rollback_entry_def not_undone)

lemma event_effect_again:
  "event_effect hex diff ev (event_effect hex diff ev m) = event_effect hex diff ev m"
  by (auto simp: event_effect_def fun_eq_iff option.map_comp o_def forward_entry_again rollback_entry_again
      split: Event.splits prod.splits)

lemma event_effect_confirmed:
  "event_effect hex diff (RollForward (slot, h) txs) (upd_where (confirmable hex txs) (confirm_entry slot) m) =
   event_effect hex diff (RollForward (slot, h) txs) m"
  by (auto simp: event_effect_def upd_where_def forward_entry_def confirm_entry_def overdue_def fun_eq_iff
      map_option_case split: option.splits)

definition cursor_row_of :: "point \<Rightarrow> cursor_row" where
  "cursor_row_of p = \<lparr>crow_id = 0, crow_slot = fst p, crow_hash = snd p\<rparr>"

definition monitor_ready :: "Event \<Rightarrow> db \<Rightarrow> bool" where
  "monitor_ready ev d \<longleftrightarrow> db_wf d \<and> slots_wf d \<and> slot_small (Some (fst (event_point ev)))"

text \<open>The common end of both arms: the cursor is written last.\<close>

lemma then_cursor:
  fixes m :: "unit work"
  assumes "sx_bind m (\<lambda>_. or_retry (cursor_set (Cursor_new slot h))) d = (r, d')" "m d = (r1, d1)"
    "db_wf d1" "slots_wf d1"
  shows "db_wf d' \<and> slots_wf d' \<and> entries d' = entries d1 \<and>
    (r = Inr () \<and> r1 = Inr () \<and> cursor_tbl d' = [cursor_row_of (slot, h)]
     \<or> r = Inl (Err WorkerRetry) \<and> r1 = Inr () \<and> cursor_tbl d' = cursor_tbl d1
     \<or> (\<exists>f. r1 = Inl f \<and> r = Inl f \<and> cursor_tbl d' = cursor_tbl d1))"
proof (cases r1)
  case (Inl f)
  with assms show ?thesis by (auto simp: sx_bind_def)
next
  case (Inr y)
  with assms(1,2) have c: "or_retry (cursor_set (Cursor_new slot h)) d1 = (r, d')"
    by (simp add: sx_bind_def)
  show ?thesis
  proof (cases r)
    case (Inl f)
    with c obtain e where "cursor_set (Cursor_new slot h) d1 = (Inl e, d')" "f = Err WorkerRetry"
      by (auto simp: or_retry_Inl)
    with cursor_set_cases [of "Cursor_new slot h" d1 "Inl e" d'] assms(3,4) Inl Inr show ?thesis
      by (auto simp: same_tables_predicates) (auto simp: same_tables_def)
  next
    case (Inr z)
    with c have ok: "cursor_set (Cursor_new slot h) d1 = (Inr (), d')" by simp
    from cursor_set_cases [OF ok] assms(4) have "slots_wf d'"
      by (auto simp: same_tables_predicates) (simp add: slots_wf_def)
    with cursor_set_ok [OF ok assms(3)] Inr \<open>r1 = Inr y\<close> show ?thesis
      by (simp add: cursor_row_of_def Cursor_new_def)
  qed
qed

lemma monitor_execute_cases:
  assumes "monitor_ready ev d" "monitor_execute hex oc diff ev d = (r, d')"
  shows "monitor_ready ev d' \<and>
    (r = Inr () \<and> entries d' = event_effect hex diff ev (entries d) \<and> cursor_tbl d' = [cursor_row_of (event_point ev)]
     \<or> r = Inl (Err WorkerRetry) \<and> cursor_tbl d' = cursor_tbl d \<and>
         event_effect hex diff ev (entries d') = event_effect hex diff ev (entries d)
     \<or> r = Inl Panic \<and> cursor_tbl d' = cursor_tbl d \<and>
         (\<exists>slot h txs. ev = RollForward (slot, h) txs \<and> stuck oc slot (entries d)))"
proof (cases ev)
  case (RollForward p txs)
  obtain slot h where p: "p = (slot, h)" by fastforce
  obtain r1 d1 where f: "roll_forward hex oc diff slot txs d = (r1, d1)" by fastforce
  from assms(2) RollForward p have e:
    "sx_bind (roll_forward hex oc diff slot txs) (\<lambda>_. or_retry (cursor_set (Cursor_new slot h))) d = (r, d')"
    by (simp add: monitor_execute_def)
  have w: "db_wf d" "slots_wf d" "slot_small (Some slot)"
    using assms(1) RollForward p by (simp_all add: monitor_ready_def)
  note c = roll_forward_cases [OF w f, of h]
  then have "db_wf d1" "slots_wf d1" by simp_all
  from then_cursor [OF e f this] c w(3) show ?thesis
    unfolding RollForward p monitor_ready_def
    by (auto simp: event_effect_again event_effect_confirmed)
next
  case (Rollback p)
  obtain slot h where p: "p = (slot, h)" by fastforce
  obtain r1 d1 where f: "roll_back slot d = (r1, d1)" by fastforce
  from assms(2) Rollback p have e:
    "sx_bind (roll_back slot) (\<lambda>_. or_retry (cursor_set (Cursor_new slot h))) d = (r, d')"
    by (simp add: monitor_execute_def)
  have w: "db_wf d" "slots_wf d" "slot_small (Some slot)"
    using assms(1) Rollback p by (simp_all add: monitor_ready_def)
  note c = roll_back_cases [OF w f, of hex diff h]
  then have "db_wf d1" "slots_wf d1" by simp_all
  from then_cursor [OF e f this] c w(3) show ?thesis
    unfolding Rollback p monitor_ready_def by (auto simp: event_effect_again)
qed

interpretation monitor_work: retry_safe "monitor_execute hex oc diff ev" "monitor_ready ev" entries
    "event_effect hex diff ev" for hex oc diff ev
proof
  show "monitor_ready ev s' \<and> event_effect hex diff ev (entries s') = event_effect hex diff ev (entries s)"
    if "monitor_ready ev s" "monitor_execute hex oc diff ev s = (Inl (Err WorkerRetry), s')" for s s'
    using monitor_execute_cases [OF that] by auto
  show "monitor_ready ev s' \<and> entries s' = event_effect hex diff ev (entries s)"
    if "monitor_ready ev s" "monitor_execute hex oc diff ev s = (Inr (), s')" for s s'
    using monitor_execute_cases [OF that] by auto
qed

section \<open>Without faults the stage finishes\<close>

lemma roll_forward_finishes:
  assumes "no_faults d" "db_wf d" "slots_wf d"
  shows "\<exists>r d'. roll_forward hex oc diff slot txs d = (r, d') \<and> no_faults d' \<and>
    r = (if stuck oc slot (entries d) then Inl Panic else Inr ())"
proof -
  obtain ts d1 where f: "find_status InFlight d = (Inr ts, d1)" "no_faults d1"
    using find_status_succeeds [OF assms] by blast
  then have il: "inflight_list (entries d) ts" using find_inflight_list assms(2) by blast
  let ?cs = "map (confirm_tx slot) (filter (\<lambda>t. in_block hex txs (tx_id t)) ts)"
  obtain d2 where u: "update_unless_empty ?cs d1 = (Inr (), d2)" "no_faults d2"
    using update_unless_empty_succeeds [OF f(2)] by blast
  let ?due = "filter (\<lambda>t. overdue diff slot (entry_of_tx t) \<and> \<not> in_block hex txs (tx_id t)) ts"
  obtain d3 where v: "update_unless_empty (map retry_tx ?due) d2 = (Inr (), d3)" "no_faults d3"
    using update_unless_empty_succeeds [OF u(2)] by blast
  show ?thesis
    using f u v filter_due [OF il refl, where slot = slot and hex = hex and txs = txs and oc = oc and diff = diff]
    by (auto simp: roll_forward_def sx_bind_def or_retry_def sx_map_err_def Let_def sx_lift_def)
qed

lemma roll_back_finishes:
  assumes "no_faults d" "db_wf d" "slots_wf d" "slot_small (Some slot)"
  shows "\<exists>d'. roll_back slot d = (Inr (), d') \<and> no_faults d'"
proof -
  obtain ts d1 where f: "find_to_rollback slot d = (Inr ts, d1)" "no_faults d1"
    using find_to_rollback_succeeds [OF assms(1-3)] by blast
  let ?f = "\<lambda>t. t\<lparr>tx_status := InFlight, tx_slot := None\<rparr> :: Transaction"
  have "ts = map tx_of_row (filter (\<lambda>r. status_of_row r = Confirmed \<and>
      (\<exists>w. row_slot r = Some w \<and> slot < w)) (tx_tbl d))"
    using find_to_rollback_ok(1) [OF f(1) assms(2,3)] assms(4) by (simp add: slot_small_def)
  then have "sequence (map (rollback_tx slot) ts) = Inr (map ?f ts)"
    by (intro sequence_cong_Inr) (auto simp: rollback_tx_found)
  moreover obtain d2 where "update_batch (map ?f ts) d1 = (Inr (), d2)" "no_faults d2"
    using update_batch_succeeds [OF f(2)] by blast
  ultimately show ?thesis
    using f by (simp add: roll_back_def sx_bind_def or_retry_def sx_map_err_def sx_lift_def)
qed

lemma monitor_execute_undisturbed:
  assumes "monitor_ready ev d" "no_faults d"
  shows "fst (monitor_execute hex oc diff ev d) =
    (if (\<exists>slot h txs. ev = RollForward (slot, h) txs \<and> stuck oc slot (entries d)) then Inl Panic else Inr ()) \<and>
    no_faults (snd (monitor_execute hex oc diff ev d))"
proof (cases ev)
  case (RollForward p txs)
  obtain slot h where p: "p = (slot, h)" by fastforce
  have w: "db_wf d" "slots_wf d" using assms(1) by (simp_all add: monitor_ready_def)
  from roll_forward_finishes [OF assms(2) w, of hex oc diff slot txs] obtain d1 where
    "roll_forward hex oc diff slot txs d =
      (if stuck oc slot (entries d) then Inl Panic else Inr (), d1)" "no_faults d1" by blast
  then show ?thesis
    using cursor_set_succeeds [of d1 "Cursor_new slot h"]
    by (auto simp: monitor_execute_def RollForward p sx_bind_def or_retry_def sx_map_err_def)
next
  case (Rollback p)
  obtain slot h where p: "p = (slot, h)" by fastforce
  have w: "db_wf d" "slots_wf d" "slot_small (Some slot)"
    using assms(1) by (simp_all add: monitor_ready_def Rollback p)
  obtain d1 where "roll_back slot d = (Inr (), d1)" "no_faults d1"
    using roll_back_finishes [OF assms(2) w] by blast
  then show ?thesis
    using cursor_set_succeeds [of d1 "Cursor_new slot h"]
    by (auto simp: monitor_execute_def Rollback p sx_bind_def or_retry_def sx_map_err_def)
qed

lemmas monitor_execute_finishes = monitor_execute_undisturbed [THEN conjunct1]
lemmas monitor_execute_no_faults = monitor_execute_undisturbed [THEN conjunct2]

section \<open>Properties of the monitor\<close>

text \<open>
  A database for the witnesses: one transaction in flight since slot 5, one confirmed at slot
  20, and one that has been put back to in flight by a rollback and has no slot.
\<close>

definition chain_db :: "tx_row list \<Rightarrow> bool list \<Rightarrow> db" where
  "chain_db rs faults = \<lparr>tx_tbl = rs, dep_tbl = [], cursor_tbl = [], io_faults = faults, clock = []\<rparr>"

definition flying :: tx_row where
  "flying = demo_row ''aa'' ''inflight'' (Some 5) ''default'' 1"

definition settled :: tx_row where
  "settled = demo_row ''bb'' ''confirmed'' (Some 20) ''default'' 2"

lemma chain_db_ready:
  "monitor_ready (RollForward (9, [1]) txs) (chain_db [flying, settled] fs)"
  "monitor_ready (Rollback (9, [1])) (chain_db [flying, settled] fs)"
  by (simp_all add: monitor_ready_def chain_db_def flying_def settled_def demo_row_def db_defs slot_small_def
      status_from_str_def)

lemma chain_db_entries:
  "entries (chain_db [flying, settled] fs) =
     [''aa'' \<mapsto> entry_of_row flying, ''bb'' \<mapsto> entry_of_row settled]"
  "e_status (entry_of_row flying) = InFlight" "e_slot (entry_of_row flying) = Some 5"
  "e_status (entry_of_row settled) = Confirmed" "e_slot (entry_of_row settled) = Some 20"
  by (auto simp: entries_def chain_db_def row_map_def fun_eq_iff flying_def settled_def demo_row_def
      entry_of_row_def status_of_row_def status_from_str_def)

lemma chain_db_no_faults: "no_faults (chain_db rs [])"
  by (simp add: no_faults_def chain_db_def)

text \<open>
  C2.  The monitor implements the effect of chain events.  Whatever storage statement fails, in
  either build: when \<open>execute\<close> returns, every stored transaction has changed exactly as the
  event says (an in-flight one that the block contains is confirmed at its slot, any other
  overdue one is pending again, a confirmed one after a rollback's slot is in flight again, the
  rest is untouched) and the cursor is the point of the event; when it fails, the cursor is
  where it was, and nothing was done that the event does not do.
\<close>

theorem monitor_refines_events:
  assumes "monitor_ready ev d" "monitor_execute hex oc diff ev d = (r, d')"
  shows "(r = Inr () \<and> entries d' = event_effect hex diff ev (entries d) \<and>
            cursor_tbl d' = [cursor_row_of (event_point ev)]) \<or>
         ((\<exists>f. r = Inl f) \<and> cursor_tbl d' = cursor_tbl d \<and>
            (r = Inl (Err WorkerRetry) \<longrightarrow>
               event_effect hex diff ev (entries d') = event_effect hex diff ev (entries d)))"
  using monitor_execute_cases [OF assms] by auto

theorem monitor_refines_events_witness:
  "entries (snd (monitor_execute (\<lambda>_. ''aa'') True 3 (RollForward (9, [1]) [\<lparr>btx_hash = [7]\<rparr>])
      (chain_db [flying, settled] []))) ''aa'' = Some (confirm_entry 9 (entry_of_row flying))"
proof -
  let ?ev = "RollForward (9, [1]) [\<lparr>btx_hash = [7]\<rparr>]" and ?d = "chain_db [flying, settled] []"
  obtain r d' where x: "monitor_execute (\<lambda>_. ''aa'') True 3 ?ev ?d = (r, d')" by fastforce
  have "\<not> stuck True 9 (entries ?d)" by (simp add: stuck_def chain_db_entries)
  then have "r = Inr ()"
    using monitor_execute_finishes [OF chain_db_ready(1) [of "[\<lparr>btx_hash = [7]\<rparr>]"] chain_db_no_faults,
        where hex = "\<lambda>_. ''aa''" and oc = True and diff = 3] x
    by simp
  with monitor_refines_events [OF chain_db_ready(1) x] x show ?thesis
    by (simp add: event_effect_def chain_db_entries forward_entry_def in_block_def)
qed

text \<open>
  Retrying is harmless.  However many attempts the runtime makes at an event, with whatever
  faults in between, when one of them succeeds the stored transactions are as after a single
  undisturbed run.
\<close>

theorem monitor_retries_safe:
  assumes "monitor_ready ev d" "attempts n (monitor_execute hex oc diff ev) d = (Inr (), d')"
  shows "entries d' = event_effect hex diff ev (entries d)"
  using monitor_work.attempts_effect [OF assms] by simp

theorem monitor_retries_safe_witness:
  "entries (snd (attempts 1 (monitor_execute (\<lambda>_. ''zz'') True 3 (RollForward (9, [1]) []))
      (chain_db [flying, settled] [False, False, False, True]))) ''aa'' =
   Some ((entry_of_row flying)\<lparr>e_status := Pending, e_slot := None\<rparr>)"
proof -
  let ?ev = "RollForward (9, [1]) []" and ?d = "chain_db [flying, settled] [False, False, False, True]"
  have "fst (attempts 1 (monitor_execute (\<lambda>_. ''zz'') True 3 ?ev) ?d) = Inr ()"
    by code_simp
  then obtain d' where x: "attempts 1 (monitor_execute (\<lambda>_. ''zz'') True 3 ?ev) ?d = (Inr (), d')"
    by (metis prod.collapse)
  from monitor_retries_safe [OF chain_db_ready(1) x] x show ?thesis
    by (simp add: event_effect_def chain_db_entries forward_entry_def overdue_def in_block_def)
qed

text \<open>
  C21.  When storage does not fail, a rollback is always processed, and a block is processed unless
  some in-flight transaction has no slot or, with overflow checks, a slot after the block's; in
  that case, and only then, the stage panics.
\<close>

theorem monitor_panics_iff:
  assumes "monitor_ready ev d" "no_faults d"
  shows "fst (monitor_execute hex oc diff ev d) =
    (if (\<exists>slot h txs. ev = RollForward (slot, h) txs \<and> stuck oc slot (entries d)) then Inl Panic else Inr ())"
  using assms by (rule monitor_execute_finishes)

theorem monitor_panics_iff_witness:
  "fst (monitor_execute (\<lambda>_. ''zz'') True 3 (RollForward (9, [1]) []) (chain_db [flying, settled] [])) = Inr ()"
  using monitor_panics_iff [OF chain_db_ready(1) chain_db_no_faults, where hex = "\<lambda>_. ''zz''" and oc = True and diff = 3]
  by (simp add: stuck_def chain_db_entries)

text \<open>
  A rollback makes the next block fatal.  A rollback that undoes a confirmation leaves the
  transaction in flight without a slot, and every later block then panics the stage, in either
  build, whatever the block contains.
\<close>

theorem rollback_then_block_panics:
  assumes "monitor_ready (Rollback (s, h)) d" "no_faults d"
    "entries d i = Some e" "undone s e"
    "monitor_execute hex oc diff (Rollback (s, h)) d = (r, d1)" "no_faults d1"
    "slot_small (Some slot)"
  shows "r = Inr () \<and> fst (monitor_execute hex oc diff (RollForward (slot, h') txs) d1) = Inl Panic"
proof -
  have r: "r = Inr ()" using monitor_execute_finishes [OF assms(1,2), of hex oc diff] assms(5) by simp
  with monitor_execute_cases [OF assms(1,5)] have
    d1: "monitor_ready (Rollback (s, h)) d1" "entries d1 = event_effect hex diff (Rollback (s, h)) (entries d)"
    by auto
  then have "entries d1 i = Some (e\<lparr>e_status := InFlight, e_slot := None\<rparr>)"
    using assms(3,4) by (simp add: event_effect_def rollback_entry_def)
  then have "stuck oc slot (entries d1)" unfolding stuck_def by fastforce
  moreover have "monitor_ready (RollForward (slot, h') txs) d1"
    using d1(1) assms(7) by (simp add: monitor_ready_def)
  ultimately show ?thesis using r monitor_execute_finishes [OF _ assms(6)] by simp
qed

theorem rollback_then_block_panics_witness:
  "fst (monitor_execute (\<lambda>_. ''zz'') False 3 (RollForward (30, [2]) [])
     (snd (monitor_execute (\<lambda>_. ''zz'') False 3 (Rollback (9, [1])) (chain_db [flying, settled] [])))) = Inl Panic"
proof -
  let ?x = "monitor_execute (\<lambda>_. ''zz'') False 3 (Rollback (9, [1])) (chain_db [flying, settled] [])"
  have "io_faults (snd ?x) = []" by code_simp
  then have nf: "no_faults (snd ?x)" by (simp add: no_faults_def)
  have "?x = (fst ?x, snd ?x)" by simp
  from rollback_then_block_panics [OF chain_db_ready(2) chain_db_no_faults _ _ this nf,
      of "''bb''" "entry_of_row settled" 30 "[2]" "[]"]
  show ?thesis by (simp add: chain_db_entries undone_def slot_small_def)
qed

text \<open>
  Undoing a block keeps its confirmations.  The stream announces an undone block with its own
  slot, and a rollback undoes confirmations after that slot only: a transaction confirmed by a
  block is still confirmed after the very same block was undone.
\<close>

theorem undo_keeps_own_confirmations:
  assumes "blk_header b = Some hdr" "blk_body b = Some txs"
    "monitor_ready (RollForward (h_slot hdr, h_hash hdr) txs) d"
    "entries d i = Some e" "e_status e = InFlight" "in_block hex txs i"
    "chain_events [Inr (Some (Apply (Some b))), Inr (Some (Undo (Some b)))] = [Yield ev1, Yield ev2]"
    "monitor_execute hex oc diff ev1 d = (Inr (), d1)" "monitor_execute hex oc diff ev2 d1 = (Inr (), d2)"
  shows "entries d2 i = Some (confirm_entry (h_slot hdr) e)"
proof -
  have ev: "ev1 = RollForward (h_slot hdr, h_hash hdr) txs" "ev2 = Rollback (h_slot hdr, h_hash hdr)"
    using assms(1,2,7) by simp_all
  have d1: "monitor_ready (RollForward (h_slot hdr, h_hash hdr) txs) d1"
    "entries d1 = event_effect hex diff (RollForward (h_slot hdr, h_hash hdr) txs) (entries d)"
    using monitor_execute_cases [OF assms(3) assms(8) [unfolded ev]] by auto
  then have "entries d1 i = Some (confirm_entry (h_slot hdr) e)"
    using assms(4-6) by (simp add: event_effect_def forward_entry_def)
  moreover have "monitor_ready (Rollback (h_slot hdr, h_hash hdr)) d1"
    using d1(1) by (simp add: monitor_ready_def)
  then have "entries d2 = event_effect hex diff (Rollback (h_slot hdr, h_hash hdr)) (entries d1)"
    using monitor_execute_cases [OF _ assms(9) [unfolded ev]] by auto
  ultimately show ?thesis
    by (simp add: event_effect_def rollback_entry_def undone_def confirm_entry_def)
qed

theorem undo_keeps_own_confirmations_witness:
  "(let b = \<lparr>blk_header = Some \<lparr>h_slot = 9, h_hash = [1]\<rparr>, blk_body = Some [\<lparr>btx_hash = [7]\<rparr>]\<rparr>;
        run = (\<lambda>ev d. snd (monitor_execute (\<lambda>_. ''aa'') True 3 ev d));
        d1 = run (RollForward (9, [1]) [\<lparr>btx_hash = [7]\<rparr>]) (chain_db [flying, settled] [])
    in entries (run (Rollback (9, [1])) d1) ''aa'' = Some (confirm_entry 9 (entry_of_row flying)))"
proof -
  let ?b = "\<lparr>blk_header = Some \<lparr>h_slot = 9, h_hash = [1]\<rparr>, blk_body = Some [\<lparr>btx_hash = [7]\<rparr>]\<rparr> :: block"
  let ?x = "monitor_execute (\<lambda>_. ''aa'') True 3 (RollForward (9, [1]) [\<lparr>btx_hash = [7]\<rparr>]) (chain_db [flying, settled] [])"
  let ?y = "monitor_execute (\<lambda>_. ''aa'') True 3 (Rollback (9, [1])) (snd ?x)"
  have "fst ?x = Inr ()" "fst ?y = Inr ()" by code_simp+
  then have xy: "?x = (Inr (), snd ?x)" "?y = (Inr (), snd ?y)" by (metis prod.collapse)+
  from undo_keeps_own_confirmations [of ?b "\<lparr>h_slot = 9, h_hash = [1]\<rparr>" "[\<lparr>btx_hash = [7]\<rparr>]"
      "chain_db [flying, settled] []" "''aa''" "entry_of_row flying" "\<lambda>_. ''aa''" _ _ True 3 "snd ?x" "snd ?y"]
  show ?thesis using xy chain_db_ready(1) by (simp add: chain_db_entries in_block_def Let_def)
qed

end
