(* ===== verification/Pipeline_System.thy ===== *)
theory Pipeline_System
  imports Ingest_Stage Submit_Server Monitor_Stage
begin

text \<open>
  The running node: the submit service, the ingest stage and the monitor stage work at the same time
  on one database, as \<^verbatim>\<open>src/main.rs\<close> and \<^verbatim>\<open>src/pipeline/mod.rs\<close> start them.  Their operations are the
  definitions of the component theories; here they become the steps of one transition system, in which
  they follow each other in any order, with any answers of the network and any storage faults.

  The ingest stage works through its unit one transaction after the other; the other parts may act
  between two of them.  When a transaction of the unit fails, the runtime starts the unit again from
  its first transaction or gives it up; both are possible after every fault, so that every retry policy
  is covered.  A request to the submit service is one step, and so is here an event of the monitor, as if the storage
  answered at once; \<open>Fine_Monitor\<close> cuts the event where the monitor waits.
\<close>

section \<open>The node\<close>

text \<open>What does not change while the node runs: the configuration and the libraries.\<close>

record ('tx, 'out, 'rep) node_setup =
  su_pallas :: "('tx, 'out, 'rep) pallas"
  su_hex :: "bytes \<Rightarrow> string"
  su_queues :: queue_set
  su_has_signer :: bool
  su_env :: "nat \<Rightarrow> tx_env"
  su_checks :: bool
  su_diff :: u64

text \<open>
  The state: what the ingest stage works on (the database, the messages broadcast so far), the unit it
  has taken, the next transaction of the unit, and the number of its transactions that were handled
  in some attempt.
\<close>

record node =
  nd_work :: ingest_state
  nd_unit :: "Transaction list option"
  nd_next :: nat
  nd_mark :: nat

abbreviation nd_db :: "node \<Rightarrow> db" where
  "nd_db n \<equiv> is_db (nd_work n)"

abbreviation nd_sent :: "node \<Rightarrow> bytes list" where
  "nd_sent n \<equiv> is_sent (nd_work n)"

definition with_db :: "db \<Rightarrow> node \<Rightarrow> node" where
  "with_db d n = n\<lparr>nd_work := (nd_work n)\<lparr>is_db := d\<rparr>\<rparr>"

definition work_on :: "('tx, 'out, 'rep) node_setup \<Rightarrow> Transaction \<Rightarrow> unit ingest" where
  "work_on su = ingest_tx (su_pallas su) (su_queues su) (su_has_signer su) (su_env su)"

datatype node_action =
  Submitted "submit_item list" | Scheduled | Worked | Retried | Abandoned | Finished | Followed Event

inductive node_step :: "('tx, 'out, 'rep) node_setup \<Rightarrow> node_action \<Rightarrow> node \<Rightarrow> node \<Rightarrow> bool"
  for su :: "('tx, 'out, 'rep) node_setup" where
  submitted:
    "submit_tx (su_pallas su) (su_hex su) (su_queues su) chained gone obs items
       \<lparr>sv_db = nd_db n, sv_unlocks = us\<rparr> = (r, s') \<Longrightarrow>
     node_step su (Submitted items) n (with_db (sv_db s') n)"
| scheduled:
    "nd_unit n = None \<Longrightarrow> iter_ok iter_w \<Longrightarrow> iter_ok iter_q \<Longrightarrow>
     ingest_schedule (su_checks su) iter_w iter_q (su_queues su) len (nd_db n) = (Inr (Unit txs), d) \<Longrightarrow>
     node_step su Scheduled n (with_db d n\<lparr>nd_unit := Some txs, nd_next := 0, nd_mark := 0\<rparr>)"
| idle:
    "nd_unit n = None \<Longrightarrow>
     ingest_schedule (su_checks su) iter_w iter_q (su_queues su) len (nd_db n) = (r, d) \<Longrightarrow>
     (\<And>txs. r \<noteq> Inr (Unit txs)) \<Longrightarrow> node_step su Scheduled n (with_db d n)"
| worked:
    "nd_unit n = Some txs \<Longrightarrow> nd_next n < length txs \<Longrightarrow>
     work_on su (txs ! nd_next n) (nd_work n) = (Inr (), w) \<Longrightarrow>
     node_step su Worked n (n\<lparr>nd_work := w, nd_next := Suc (nd_next n),
       nd_mark := max (nd_mark n) (Suc (nd_next n))\<rparr>)"
| retried:
    "nd_unit n = Some txs \<Longrightarrow> nd_next n < length txs \<Longrightarrow>
     work_on su (txs ! nd_next n) (nd_work n) = (Inl f, w) \<Longrightarrow>
     node_step su Retried n (n\<lparr>nd_work := w, nd_next := 0\<rparr>)"
| abandoned:
    "nd_unit n = Some txs \<Longrightarrow> nd_next n < length txs \<Longrightarrow>
     work_on su (txs ! nd_next n) (nd_work n) = (Inl f, w) \<Longrightarrow>
     node_step su Abandoned n (n\<lparr>nd_work := w, nd_unit := None\<rparr>)"
| finished:
    "nd_unit n = Some txs \<Longrightarrow> nd_next n = length txs \<Longrightarrow>
     node_step su Finished n (n\<lparr>nd_unit := None\<rparr>)"
| followed:
    "slot_small (Some (fst (event_point ev))) \<Longrightarrow>
     monitor_execute (su_hex su) (su_checks su) (su_diff su) ev (nd_db n) = (r, d) \<Longrightarrow>
     node_step su (Followed ev) n (with_db d n)"

inductive_cases node_stepE: "node_step su a n n'"

text \<open>Slots stay in the range that the engine stores without change of sign.\<close>

definition small_tips :: "('tx, 'out, 'rep) node_setup \<Rightarrow> bool" where
  "small_tips su \<longleftrightarrow> (\<forall>k tip. te_tip (su_env su k) = Inr tip \<longrightarrow> slot_small (Some (fst tip)))"

text \<open>The node starts on an empty database.\<close>

definition node_init :: "('tx, 'out, 'rep) node_setup \<Rightarrow> node \<Rightarrow> bool" where
  "node_init su n \<longleftrightarrow> small_tips su \<and> db_wf (nd_db n) \<and> slots_wf (nd_db n) \<and> entries (nd_db n) = Map.empty \<and>
     nd_sent n = [] \<and> nd_unit n = None"

fun node_run :: "('tx, 'out, 'rep) node_setup \<Rightarrow> node_action list \<Rightarrow> node \<Rightarrow> node \<Rightarrow> bool" where
  "node_run su [] n n' \<longleftrightarrow> n' = n"
| "node_run su (a # as) n n' \<longleftrightarrow> (\<exists>m. node_step su a n m \<and> node_run su as m n')"

definition node_reachable :: "('tx, 'out, 'rep) node_setup \<Rightarrow> node \<Rightarrow> bool" where
  "node_reachable su = reach (node_init su) (\<lambda>n n'. \<exists>a. node_step su a n n')"

lemma with_db_sel [simp]:
  "nd_db (with_db d n) = d" "nd_sent (with_db d n) = nd_sent n" "nd_unit (with_db d n) = nd_unit n"
  "nd_next (with_db d n) = nd_next n" "nd_mark (with_db d n) = nd_mark n"
  "is_now (nd_work (with_db d n)) = is_now (nd_work n)"
  by (simp_all add: with_db_def)

section \<open>What each part does to the stored transactions\<close>

text \<open>A submission adds pending transactions and changes none.\<close>

lemma fold_map_add_new:
  assumes "fold map_add_new txs m i = Some e"
  shows "m i = Some e \<or> (\<exists>t\<in>set txs. tx_id t = i \<and> e = new_entry t)"
  using assms
  by (induction txs arbitrary: m) (force simp: map_add_new_def split: if_splits)+

lemma fold_map_add_new_old:
  "i \<notin> tx_id ` set txs \<Longrightarrow> fold map_add_new txs m i = m i"
  by (induction txs arbitrary: m) (auto simp: map_add_new_def)

lemma create_grows:
  assumes "create txs d = (r, d')" "\<And>t. t \<in> set txs \<Longrightarrow> tx_status t = Pending"
  shows "(\<forall>i e. entries d i = Some e \<longrightarrow> entries d' i = Some e) \<and>
    (\<forall>i e. entries d' i = Some e \<longrightarrow> entries d i = Some e \<or> e_status e = Pending)"
proof (cases r)
  case (Inl e)
  with assms(1) have "entries d' = entries d" using create_err same_tables_predicates(3) by blast
  then show ?thesis by simp
next
  case (Inr u)
  with assms(1) have ok: "create txs d = (Inr (), d')" by simp
  note e = create_entries [OF ok]
  have "i \<notin> tx_id ` set txs" if "entries d i = Some x" for i x
    using create_ok [OF ok] that entries_None_iff [of d i] by force
  then have "\<forall>i e. entries d i = Some e \<longrightarrow> entries d' i = Some e"
    by (simp add: e fold_map_add_new_old)
  moreover have "entries d i = Some x \<or> e_status x = Pending" if "entries d' i = Some x" for i x
    using fold_map_add_new [of txs "entries d" i x] that assms(2) by (auto simp: e new_entry_def)
  ultimately show ?thesis by blast
qed

lemma send_unlock_db: "sx_iter (send_unlock chained gone) qs s = (r, s') \<Longrightarrow> sv_db s' = sv_db s"
  by (induction qs arbitrary: s)
    (auto simp: sx_bind_def sx_return_def send_unlock_def split: if_splits)

lemma admit_all_pending:
  "admit_all pl hex queues chained obs idx items = Inr adm \<Longrightarrow> t \<in> set (map fst adm) \<Longrightarrow> tx_status t = Pending"
proof (induction items arbitrary: idx adm)
  case (Cons item items)
  then obtain a rest where a: "admit_item pl hex queues chained (obs idx) idx item = Inr a"
    and rest: "admit_all pl hex queues chained obs (Suc idx) items = Inr rest"
    and adm: "adm = (case a of None \<Rightarrow> rest | Some x \<Rightarrow> x # rest)" by auto
  have "tx_status (fst x) = Pending" if "a = Some x" for x
    using a unfolding that
    by (auto simp: admit_item_def Let_def Transaction_new_def split: option.splits if_splits)
  with Cons.IH [OF rest] Cons.prems(2) adm show ?case by (auto split: option.splits)
qed simp

lemma submit_tx_created:
  assumes "submit_tx pl hex queues chained gone obs items s = (r, s')"
  shows "sv_db s' = sv_db s \<or>
    (\<exists>adm r1. admit_all pl hex queues chained obs 0 items = Inr adm \<and> create (map fst adm) (sv_db s) = (r1, sv_db s'))"
proof (cases "admit_all pl hex queues chained obs 0 items")
  case (Inl f)
  with assms show ?thesis by (auto simp: submit_tx_def sx_defs)
next
  case (Inr adm)
  obtain r1 d1 where c: "create (map fst adm) (sv_db s) = (r1, d1)" by fastforce
  have "sv_db s' = d1"
    using assms Inr c
    by (auto simp: submit_tx_def sx_defs on_server_db_def split: sum.splits prod.splits dest: send_unlock_db)
  with c Inr show ?thesis by blast
qed

lemma submit_tx_db:
  assumes "submit_tx pl hex queues chained gone obs items s = (r, s')"
  shows "sv_db s' = sv_db s \<or>
    (\<exists>txs r1. create txs (sv_db s) = (r1, sv_db s') \<and> (\<forall>t\<in>set txs. tx_status t = Pending))"
  using submit_tx_created [OF assms] admit_all_pending by metis

text \<open>
  Every outcome of an event, faults included, moves a stored transaction at most one step: from in
  flight to confirmed or back to pending, or from confirmed back to in flight; bytes, queue and
  time of creation stay.
\<close>

definition chain_moves :: "(TransactionStatus \<times> TransactionStatus) set" where
  "chain_moves = {(InFlight, Confirmed), (InFlight, Pending), (Confirmed, InFlight)}"

definition moved :: "(TransactionStatus \<times> TransactionStatus) set \<Rightarrow> entry \<Rightarrow> entry \<Rightarrow> bool" where
  "moved moves e e' \<longleftrightarrow> e' = e \<or> e_raw e' = e_raw e \<and> e_queue e' = e_queue e \<and> e_created e' = e_created e \<and>
     (e_status e, e_status e') \<in> moves"

lemma event_effect_moved:
  "rel_option (moved chain_moves) (m i) (event_effect hex diff ev m i)"
  by (cases "m i")
    (auto simp: event_effect_def moved_def chain_moves_def forward_entry_def rollback_entry_def confirm_entry_def
      overdue_def undone_def split: Event.splits prod.splits)

lemma confirm_moved:
  "rel_option (moved chain_moves) (m i) (upd_where (confirmable hex txs) (confirm_entry slot) m i)"
  by (cases "m i") (auto simp: upd_where_def moved_def chain_moves_def confirm_entry_def)

lemma same_moved: "rel_option (moved moves) (m i) (m i)"
  by (cases "m i") (simp_all add: moved_def)

lemma monitor_entries:
  assumes "monitor_ready ev d" "monitor_execute hex oc diff ev d = (r, d')"
  obtains (same) "entries d' = entries d"
  | (effect) "entries d' = event_effect hex diff ev (entries d)"
  | (confirms) slot h txs where "ev = RollForward (slot, h) txs"
      "entries d' = upd_where (confirmable hex txs) (confirm_entry slot) (entries d)"
proof (cases ev)
  case (RollForward p txs)
  obtain slot h where p: "p = (slot, h)" by fastforce
  obtain r1 d1 where f: "roll_forward hex oc diff slot txs d = (r1, d1)" by fastforce
  from assms(2) RollForward p have e:
    "sx_bind (roll_forward hex oc diff slot txs) (\<lambda>_. or_retry (cursor_set (Cursor_new slot h))) d = (r, d')"
    by (simp add: monitor_execute_def)
  have w: "db_wf d" "slots_wf d" "slot_small (Some slot)"
    using assms(1) RollForward p by (simp_all add: monitor_ready_def)
  note c = roll_forward_cases [OF w f, of h]
  then have "db_wf d1" "slots_wf d1" by simp_all
  from then_cursor [OF e f this] c same effect confirms [of slot h txs] show thesis
    unfolding RollForward p by metis
next
  case (Rollback p)
  obtain slot h where p: "p = (slot, h)" by fastforce
  obtain r1 d1 where f: "roll_back slot d = (r1, d1)" by fastforce
  from assms(2) Rollback p have e:
    "sx_bind (roll_back slot) (\<lambda>_. or_retry (cursor_set (Cursor_new slot h))) d = (r, d')"
    by (simp add: monitor_execute_def)
  have w: "db_wf d" "slots_wf d" "slot_small (Some slot)"
    using assms(1) Rollback p by (simp_all add: monitor_ready_def)
  note c = roll_back_cases [OF w f, of hex diff h]
  then have "db_wf d1" "slots_wf d1" by simp_all
  from then_cursor [OF e f this] c same effect show thesis unfolding Rollback p by metis
qed

lemma monitor_moved:
  assumes "monitor_ready ev d" "monitor_execute hex oc diff ev d = (r, d')"
  shows "rel_option (moved chain_moves) (entries d i) (entries d' i)"
  using assms by (cases rule: monitor_entries)
    (simp_all add: same_moved event_effect_moved [of "entries d" i] confirm_moved [of "entries d" i])

text \<open>One transaction of a unit writes at most the entry under its own id.\<close>

lemma work_on_cases:
  assumes "work_on su tx w = (r, w')"
  obtains (same) "entries (is_db w') = entries (is_db w)" "set (is_sent w) \<subseteq> set (is_sent w')"
  | (put) t where "r = Inr ()" "tx_id t = tx_id tx" "entries (is_db w') = map_put t (entries (is_db w))"
      "tx_status t = Failed \<and> is_sent w' = is_sent w \<or> tx_status t = InFlight \<and> is_sent w' = is_sent w @ [tx_raw t]"
proof -
  note c = ingest_tx_cases [OF assms [unfolded work_on_def]]
  show thesis
  proof (cases "judge (su_pallas su) (su_queues su) (su_has_signer su) (su_env su (is_now w)) tx")
    case (Blocked f)
    with c show thesis by (intro same) simp_all
  next
    case (Rejected raw)
    with c show thesis using same put [of "tx\<lparr>tx_raw := raw, tx_status := Failed\<rparr>"] by auto
  next
    case (Accepted raw)
    show thesis
    proof (cases "entries (is_db w') = entries (is_db w)")
      case True
      with c Accepted show thesis by (intro same) (auto split: if_splits)
    next
      case False
      with c Accepted obtain tip where "r = Inr ()" "is_sent w' = is_sent w @ [raw]"
        "entries (is_db w') = map_put (tx\<lparr>tx_raw := raw, tx_status := InFlight, tx_slot := Some (fst tip)\<rparr>) (entries (is_db w))"
        by (auto split: if_splits)
      then show thesis
        by (intro put [of "tx\<lparr>tx_raw := raw, tx_status := InFlight, tx_slot := Some (fst tip)\<rparr>"]) simp_all
    qed
  qed
qed

lemma work_on_fault:
  "work_on su tx w = (Inl f, w') \<Longrightarrow> entries (is_db w') = entries (is_db w)"
  by (rule work_on_cases) auto

lemma work_on_wf:
  assumes "work_on su tx w = (r, w')" "db_wf (is_db w)"
  shows "db_wf (is_db w')"
  using keepsD [OF ingest_keeps_wf] assms unfolding work_on_def by blast

lemma schedule_same_tables:
  assumes "ingest_schedule oc iter_w iter_q queues len d = (r, d')"
  shows "same_tables d d'"
  using assms priority_next_same_tables [of oc iter_w iter_q queues Pending]
  by (auto simp: ingest_schedule_def sx_defs same_tables_def split: sum.splits if_splits prod.splits)

lemma schedule_unit:
  assumes "db_wf d" "iter_ok iter_w" "iter_ok iter_q"
    "ingest_schedule oc iter_w iter_q queues len d = (Inr (Unit txs), d')"
  shows "distinct (map tx_id txs) \<and> (\<forall>t\<in>set txs. tx_status t = Pending \<and> entries d (tx_id t) = Some (entry_of_tx t))"
proof -
  from assms(4) obtain cap where "priority_next oc iter_w iter_q queues Pending cap d = (Inr txs, d')"
    by (auto simp: ingest_schedule_def sx_defs split: sum.splits if_splits prod.splits)
  from priority_next_members [OF assms(1-3) this] show ?thesis by simp
qed

lemma work_on_slots:
  assumes "small_tips su" "slot_small (tx_slot tx)" "work_on su tx w = (r, w')" "slots_wf (is_db w)"
  shows "slots_wf (is_db w')"
proof -
  have db: "slots_wf (is_db (snd (on_db (or_retry (update_one t)) v)))" if "slot_small (tx_slot t)" "slots_wf (is_db v)" for t v
    using keeps_or_retry [OF update_one_slots [OF that(1)]] that(2) by (auto simp: keeps_def on_db_def split: prod.splits)
  then have fail: "slots_wf (is_db (snd (mark_failed (tx\<lparr>tx_raw := raw\<rparr>) v)))" if "slots_wf (is_db v)" for raw v
    using that assms(2) by (simp add: mark_failed_def)
  have cast: "slots_wf (is_db (snd (broadcast (su_env su k) (tx\<lparr>tx_raw := raw\<rparr>) v)))" if "slots_wf (is_db v)" for k raw v
    using that assms(1) unfolding broadcast_def small_tips_def
    by (auto simp: sx_defs retry_outcome_def split: sum.splits fault.splits intro!: db) blast
  have "slots_wf (is_db (snd (work_on su tx w)))"
    using assms(4) fail cast by (auto simp: work_on_def ingest_tx_judge Let_def split: verdict.splits)
  with assms(3) show ?thesis by simp
qed

lemma work_on_sent:
  assumes "work_on su tx w = (r, w')" "\<forall>m\<in>set (is_sent w). checked (su_pallas su) (su_env su) m"
  shows "\<forall>m\<in>set (is_sent w'). checked (su_pallas su) (su_env su) m"
proof -
  obtain ms where "is_sent w' = is_sent w @ ms" "\<forall>m\<in>set ms. checked (su_pallas su) (su_env su) m"
    using keepsD [OF sent_checked_step [where ?sent0.0 = "is_sent w"], of w] assms(1) unfolding work_on_def by fastforce
  with assms(2) show ?thesis by auto
qed

section \<open>The invariant of the node\<close>

text \<open>
  Of the unit in hand, the transactions that no attempt has handled yet are pending and as the database
  has them.  Whatever is in flight or confirmed was broadcast, and whatever was broadcast was checked.
\<close>

definition unit_ok :: "node \<Rightarrow> bool" where
  "unit_ok n \<longleftrightarrow> (\<forall>txs. nd_unit n = Some txs \<longrightarrow>
     distinct (map tx_id txs) \<and> nd_next n \<le> nd_mark n \<and> nd_mark n \<le> length txs \<and>
     (\<forall>t\<in>set txs. slot_small (tx_slot t)) \<and>
     (\<forall>k. nd_mark n \<le> k \<and> k < length txs \<longrightarrow>
        tx_status (txs ! k) = Pending \<and> entries (nd_db n) (tx_id (txs ! k)) = Some (entry_of_tx (txs ! k))))"

definition flown :: "node \<Rightarrow> bool" where
  "flown n \<longleftrightarrow> (\<forall>i e. entries (nd_db n) i = Some e \<and> e_status e \<in> {InFlight, Confirmed} \<longrightarrow>
     e_raw e \<in> set (nd_sent n))"

definition node_inv :: "('tx, 'out, 'rep) node_setup \<Rightarrow> node \<Rightarrow> bool" where
  "node_inv su n \<longleftrightarrow> small_tips su \<and> db_wf (nd_db n) \<and> slots_wf (nd_db n) \<and> unit_ok n \<and> flown n \<and>
     (\<forall>m\<in>set (nd_sent n). checked (su_pallas su) (su_env su) m)"

lemma node_init_inv: "node_init su n \<Longrightarrow> node_inv su n"
  by (simp add: node_init_def node_inv_def unit_ok_def flown_def)

text \<open>A step of another part of the node: the database changes, the ingest stage does not move.\<close>

lemma with_db_inv:
  assumes "node_inv su n" "db_wf d" "slots_wf d"
    and pending: "\<And>i e. entries (nd_db n) i = Some e \<Longrightarrow> e_status e = Pending \<Longrightarrow> entries d i = Some e"
    and flight: "\<And>i e. entries d i = Some e \<Longrightarrow> e_status e \<in> {InFlight, Confirmed} \<Longrightarrow>
      \<exists>e0. entries (nd_db n) i = Some e0 \<and> e_raw e0 = e_raw e \<and> e_status e0 \<in> {InFlight, Confirmed}"
  shows "node_inv su (with_db d n)"
proof -
  have "unit_ok (with_db d n)" using assms(1) pending unfolding node_inv_def unit_ok_def
    by (auto simp: entry_of_tx_def)
  moreover have "flown (with_db d n)" using assms(1) flight unfolding node_inv_def flown_def
    by (metis with_db_sel(1,2))
  ultimately show ?thesis using assms(1-3) by (simp add: node_inv_def)
qed

lemma moved_pending: "moved chain_moves e e' \<Longrightarrow> e_status e = Pending \<Longrightarrow> e' = e"
  by (auto simp: moved_def chain_moves_def)

lemma moved_flight:
  "moved chain_moves e e' \<Longrightarrow> e_status e' \<in> {InFlight, Confirmed} \<Longrightarrow> e_raw e = e_raw e' \<and> e_status e \<in> {InFlight, Confirmed}"
  by (auto simp: moved_def chain_moves_def)

lemma work_on_inv:
  assumes inv: "node_inv su n"
    and u: "nd_unit n = Some txs" "nd_next n < length txs" "work_on su (txs ! nd_next n) (nd_work n) = (r, w)"
  shows "db_wf (is_db w) \<and> slots_wf (is_db w) \<and> flown (n\<lparr>nd_work := w\<rparr>) \<and>
    (\<forall>m\<in>set (is_sent w). checked (su_pallas su) (su_env su) m) \<and>
    (\<forall>i. i \<noteq> tx_id (txs ! nd_next n) \<longrightarrow> entries (is_db w) i = entries (nd_db n) i)"
proof -
  from inv u have "slot_small (tx_slot (txs ! nd_next n))" by (auto simp: node_inv_def unit_ok_def)
  then have wf: "db_wf (is_db w)" "slots_wf (is_db w)" "\<forall>m\<in>set (is_sent w). checked (su_pallas su) (su_env su) m"
    using inv work_on_wf [OF u(3)] work_on_slots [OF _ _ u(3)] work_on_sent [OF u(3)] by (simp_all add: node_inv_def)
  from u(3) have "flown (n\<lparr>nd_work := w\<rparr>) \<and>
    (\<forall>i. i \<noteq> tx_id (txs ! nd_next n) \<longrightarrow> entries (is_db w) i = entries (nd_db n) i)"
  proof (cases rule: work_on_cases)
    case same
    with inv show ?thesis by (auto simp: node_inv_def flown_def)
  next
    case (put t)
    have "e_raw e \<in> set (is_sent w)" if "entries (is_db w) i = Some e" "e_status e \<in> {InFlight, Confirmed}" for i e
      using map_put_Some [of t "entries (nd_db n)" i e] that put inv by (auto simp: node_inv_def flown_def)
    then have "flown (n\<lparr>nd_work := w\<rparr>)" by (auto simp: flown_def)
    with put(2,3) show ?thesis by (simp add: map_put_def)
  qed
  with wf show ?thesis by blast
qed

lemma worked_inv:
  assumes "node_inv su n"
    and "nd_unit n = Some txs" "nd_next n < length txs" "work_on su (txs ! nd_next n) (nd_work n) = (Inr (), w)"
  shows "node_inv su (n\<lparr>nd_work := w, nd_next := Suc (nd_next n), nd_mark := max (nd_mark n) (Suc (nd_next n))\<rparr>)"
proof -
  note k = work_on_inv [OF assms]
  from assms(1,2) have u: "distinct (map tx_id txs)" "nd_mark n \<le> length txs" "\<forall>t\<in>set txs. slot_small (tx_slot t)"
    "\<forall>k. nd_mark n \<le> k \<and> k < length txs \<longrightarrow>
        tx_status (txs ! k) = Pending \<and> entries (nd_db n) (tx_id (txs ! k)) = Some (entry_of_tx (txs ! k))"
    by (simp_all add: node_inv_def unit_ok_def)
  have other: "tx_id (txs ! j) \<noteq> tx_id (txs ! nd_next n)" if "Suc (nd_next n) \<le> j" "j < length txs" for j
    using u(1) that assms(3) nth_eq_iff_index_eq [OF u(1), of j "nd_next n"] by simp
  have "unit_ok (n\<lparr>nd_work := w, nd_next := Suc (nd_next n), nd_mark := max (nd_mark n) (Suc (nd_next n))\<rparr>)"
    using u k other assms(2,3) by (simp add: unit_ok_def)
  moreover from k have "flown (n\<lparr>nd_work := w, nd_next := Suc (nd_next n), nd_mark := max (nd_mark n) (Suc (nd_next n))\<rparr>)"
    by (auto simp: flown_def)
  ultimately show ?thesis using k assms(1) by (simp add: node_inv_def)
qed

lemma faulted_inv:
  assumes "node_inv su n"
    and "nd_unit n = Some txs" "nd_next n < length txs" "work_on su (txs ! nd_next n) (nd_work n) = (Inl f, w)"
  shows "node_inv su (n\<lparr>nd_work := w, nd_next := 0\<rparr>)" "node_inv su (n\<lparr>nd_work := w, nd_unit := None\<rparr>)"
  using work_on_inv [OF assms] work_on_fault [OF assms(4)] assms(1)
  by (auto simp: node_inv_def unit_ok_def flown_def)

lemma submitted_inv:
  assumes "node_inv su n"
    "submit_tx (su_pallas su) (su_hex su) (su_queues su) chained gone obs items
       \<lparr>sv_db = nd_db n, sv_unlocks = us\<rparr> = (r, s')"
  shows "node_inv su (with_db (sv_db s') n)"
  using submit_tx_db [OF assms(2)]
proof
  assume "sv_db s' = sv_db \<lparr>sv_db = nd_db n, sv_unlocks = us\<rparr>"
  with assms(1) show ?thesis by (simp add: with_db_def)
next
  assume "\<exists>txs r1. create txs (sv_db \<lparr>sv_db = nd_db n, sv_unlocks = us\<rparr>) = (r1, sv_db s') \<and>
    (\<forall>t\<in>set txs. tx_status t = Pending)"
  then obtain txs r1 where c: "create txs (nd_db n) = (r1, sv_db s')" "\<And>t. t \<in> set txs \<Longrightarrow> tx_status t = Pending"
    by auto
  note g = create_grows [OF c]
  show ?thesis
  proof (rule with_db_inv [OF assms(1)])
    show "db_wf (sv_db s')" "slots_wf (sv_db s')"
      using keepsD [OF create_keeps_wf] keepsD [OF create_slots] c(1) assms(1) unfolding node_inv_def by blast+
  qed (use g in fastforce)+
qed

lemma followed_inv:
  assumes "node_inv su n" "slot_small (Some (fst (event_point ev)))"
    "monitor_execute (su_hex su) (su_checks su) (su_diff su) ev (nd_db n) = (r, d)"
  shows "node_inv su (with_db d n)"
proof (rule with_db_inv [OF assms(1)])
  have ready: "monitor_ready ev (nd_db n)" using assms(1,2) by (simp add: monitor_ready_def node_inv_def)
  from monitor_execute_cases [OF ready assms(3)] show "db_wf d" "slots_wf d" by (simp_all add: monitor_ready_def)
  note m = monitor_moved [OF ready assms(3)]
  show "entries d i = Some e" if "entries (nd_db n) i = Some e" "e_status e = Pending" for i e
    using m [of i] that moved_pending by (auto simp: option_rel_Some1)
  show "\<exists>e0. entries (nd_db n) i = Some e0 \<and> e_raw e0 = e_raw e \<and> e_status e0 \<in> {InFlight, Confirmed}"
    if "entries d i = Some e" "e_status e \<in> {InFlight, Confirmed}" for i e
    using m [of i] that moved_flight by (auto simp: option_rel_Some2)
qed

lemma same_tables_inv:
  assumes "node_inv su n" "same_tables (nd_db n) d"
  shows "node_inv su (with_db d n)"
  using assms by (intro with_db_inv) (auto simp: same_tables_predicates node_inv_def)

lemma scheduled_inv:
  assumes "node_inv su n" "iter_ok iter_w" "iter_ok iter_q"
    "ingest_schedule oc iter_w iter_q queues len (nd_db n) = (Inr (Unit txs), d)"
  shows "node_inv su (with_db d n\<lparr>nd_unit := Some txs, nd_next := 0, nd_mark := 0\<rparr>)"
proof -
  have wf: "db_wf (nd_db n)" "slots_wf (nd_db n)" using assms(1) by (simp_all add: node_inv_def)
  note s = schedule_same_tables [OF assms(4)]
  note u = schedule_unit [OF wf(1) assms(2-4)]
  have "slot_small (tx_slot t)" if "t \<in> set txs" for t
  proof -
    have "entries (nd_db n) (tx_id t) = Some (entry_of_tx t)" using u that by blast
    then obtain r where "r \<in> set (tx_tbl (nd_db n))" "entry_of_row r = entry_of_tx t"
      using wf(1) by (auto simp: entries_Some_iff)
    then show ?thesis using wf(2) by (auto simp: slots_wf_def entry_of_row_def entry_of_tx_def)
  qed
  with same_tables_inv [OF assms(1) s] u s show ?thesis
    by (auto simp: node_inv_def unit_ok_def flown_def same_tables_predicates)
qed

lemma node_step_inv:
  assumes "node_step su a n n'" "node_inv su n"
  shows "node_inv su n'"
  using assms(1)
proof cases
  case (idle iter_w iter_q len r d)
  then show ?thesis using same_tables_inv [OF assms(2)] schedule_same_tables by auto
next
  case (finished txs)
  with assms(2) show ?thesis by (auto simp: node_inv_def unit_ok_def flown_def)
qed (auto intro: submitted_inv scheduled_inv worked_inv faulted_inv followed_inv assms)

interpretation node: inductive_invariant "node_init su" "\<lambda>n n'. \<exists>a. node_step su a n n'" "node_inv su" for su
  by unfold_locales (auto intro: node_init_inv node_step_inv)

lemma node_reachable_inv: "node_reachable su n \<Longrightarrow> node_inv su n"
  unfolding node_reachable_def by (rule node.reach_inv)

section \<open>One step\<close>

lemma node_step_keeps:
  assumes "node_inv su n" "node_step su a n n'" "entries (nd_db n) i = Some e"
  shows "\<exists>e'. entries (nd_db n') i = Some e' \<and> e_queue e' = e_queue e \<and> e_created e' = e_created e \<and>
    (e_status e' = e_status e
     \<or> (\<exists>ev. a = Followed ev) \<and> (e_status e, e_status e') \<in> chain_moves \<and> e_raw e' = e_raw e
     \<or> (\<exists>txs. a = Worked \<and> nd_unit n = Some txs \<and> nd_next n < length txs \<and> i = tx_id (txs ! nd_next n)) \<and>
       (e_status e = Pending \<or> nd_next n < nd_mark n) \<and> e_status e' \<in> {Failed, InFlight})"
  using assms(2)
proof cases
  case (submitted chained gone obs items us r s')
  from submit_tx_db [OF submitted(3)] create_grows have "entries (sv_db s') i = Some e"
    using assms(3) by fastforce
  with submitted show ?thesis by simp
next
  case (scheduled iter_w iter_q len txs d)
  then show ?thesis using schedule_same_tables [THEN same_tables_predicates(3)] assms(3) by auto
next
  case (idle iter_w iter_q len r d)
  then show ?thesis using schedule_same_tables [THEN same_tables_predicates(3)] assms(3) by auto
next
  case (worked txs w)
  have p: "e_status e = Pending \<or> nd_next n < nd_mark n" if "i = tx_id (txs ! nd_next n)"
    using assms(1,3) worked(3,4) that unfolding node_inv_def unit_ok_def
    by (metis entry_of_tx_sel(1) not_less option.inject)
  from worked(5) show ?thesis
  proof (cases rule: work_on_cases)
    case same
    with worked assms(3) show ?thesis by simp
  next
    case (put t)
    with worked assms(3) p show ?thesis
      by (cases "i = tx_id (txs ! nd_next n)") (auto simp: map_put_def put_entry_def)
  qed
next
  case (followed ev r d)
  have "monitor_ready ev (nd_db n)" using assms(1) followed(3) by (simp add: monitor_ready_def node_inv_def)
  from monitor_moved [OF this followed(4), of i] assms(3) followed show ?thesis
    by (auto simp: option_rel_Some1 moved_def)
qed (use assms(3) in \<open>auto dest: work_on_fault\<close>)

section \<open>Runs of the node\<close>

text \<open>The moves of a node whose storage works, one lemma for each outcome of a transaction.\<close>

lemma update_undisturbed:
  assumes "no_faults (is_db w)"
  shows "\<exists>d. on_db (or_retry (update_one t)) w = (Inr (), w\<lparr>is_db := d\<rparr>) \<and> no_faults d \<and>
    entries d = map_put t (entries (is_db w))"
proof -
  obtain w' where w: "on_db (or_retry (update_one t)) w = (Inr (), w')" "no_faults (is_db w')"
    using update_one_no_faults [OF assms] by blast
  from on_db_update [OF w(1)] have "w' = w\<lparr>is_db := is_db w'\<rparr>" "entries (is_db w') = map_put t (entries (is_db w))"
    by auto
  with w show ?thesis by metis
qed

abbreviation verdict_of :: "('tx, 'out, 'rep) node_setup \<Rightarrow> nat \<Rightarrow> Transaction \<Rightarrow> verdict" where
  "verdict_of su k tx \<equiv> judge (su_pallas su) (su_queues su) (su_has_signer su) (su_env su k) tx"

lemma accepted_step:
  assumes "nd_unit n = Some txs" "nd_next n < length txs" "txs ! nd_next n = tx" "no_faults (nd_db n)"
    "verdict_of su (is_now (nd_work n)) tx = Accepted raw"
    "te_send_ok (su_env su (is_now (nd_work n)))" "te_tip (su_env su (is_now (nd_work n))) = Inr tip"
  shows "\<exists>n'. node_step su Worked n n' \<and> no_faults (nd_db n') \<and>
    entries (nd_db n') = map_put (tx\<lparr>tx_raw := raw, tx_status := InFlight, tx_slot := Some (fst tip)\<rparr>) (entries (nd_db n)) \<and>
    is_now (nd_work n') = Suc (is_now (nd_work n)) \<and> nd_sent n' = nd_sent n @ [raw] \<and>
    nd_unit n' = Some txs \<and> nd_next n' = Suc (nd_next n) \<and> nd_mark n' = max (nd_mark n) (Suc (nd_next n))"
proof -
  let ?t = "tx\<lparr>tx_raw := raw, tx_status := InFlight, tx_slot := Some (fst tip)\<rparr>"
  let ?w = "(nd_work n)\<lparr>is_now := Suc (is_now (nd_work n)), is_sent := nd_sent n @ [raw]\<rparr>"
  obtain d where d: "on_db (or_retry (update_one ?t)) ?w = (Inr (), ?w\<lparr>is_db := d\<rparr>)" "no_faults d"
    "entries d = map_put ?t (entries (nd_db n))"
    using update_undisturbed [of ?w ?t] assms(4) by auto
  have "work_on su tx (nd_work n) = (Inr (), ?w\<lparr>is_db := d\<rparr>)"
    using d(1) assms(5-7) by (simp add: work_on_def ingest_tx_judge Let_def broadcast_def sx_defs retry_outcome_def)
  with assms(1-3) have "node_step su Worked n (n\<lparr>nd_work := ?w\<lparr>is_db := d\<rparr>, nd_next := Suc (nd_next n),
      nd_mark := max (nd_mark n) (Suc (nd_next n))\<rparr>)" by (intro worked) auto
  with d assms(1) show ?thesis by (intro exI conjI) (assumption | simp)+
qed

lemma rejected_step:
  assumes "nd_unit n = Some txs" "nd_next n < length txs" "txs ! nd_next n = tx" "no_faults (nd_db n)"
    "verdict_of su (is_now (nd_work n)) tx = Rejected raw"
  shows "\<exists>n'. node_step su Worked n n' \<and> no_faults (nd_db n') \<and>
    entries (nd_db n') = map_put (tx\<lparr>tx_raw := raw, tx_status := Failed\<rparr>) (entries (nd_db n))"
proof -
  let ?t = "tx\<lparr>tx_raw := raw, tx_status := Failed\<rparr>" and ?w = "(nd_work n)\<lparr>is_now := Suc (is_now (nd_work n))\<rparr>"
  obtain d where d: "on_db (or_retry (update_one ?t)) ?w = (Inr (), ?w\<lparr>is_db := d\<rparr>)" "no_faults d"
    "entries d = map_put ?t (entries (nd_db n))"
    using update_undisturbed [of ?w ?t] assms(4) by auto
  have "work_on su tx (nd_work n) = (Inr (), ?w\<lparr>is_db := d\<rparr>)"
    using d(1) assms(5) by (simp add: work_on_def ingest_tx_judge Let_def mark_failed_def)
  with assms(1-3) have "node_step su Worked n (n\<lparr>nd_work := ?w\<lparr>is_db := d\<rparr>, nd_next := Suc (nd_next n),
      nd_mark := max (nd_mark n) (Suc (nd_next n))\<rparr>)" by (intro worked) auto
  with d show ?thesis by (intro exI conjI) (assumption | simp)+
qed

lemma tip_lost_step:
  assumes "nd_unit n = Some txs" "nd_next n < length txs" "txs ! nd_next n = tx"
    "verdict_of su (is_now (nd_work n)) tx = Accepted raw"
    "te_send_ok (su_env su (is_now (nd_work n)))" "te_tip (su_env su (is_now (nd_work n))) = Inl (Err x)"
  shows "\<exists>n'. node_step su Retried n n' \<and> nd_db n' = nd_db n \<and> is_now (nd_work n') = Suc (is_now (nd_work n)) \<and>
    nd_unit n' = Some txs \<and> nd_next n' = 0 \<and> nd_mark n' = nd_mark n"
proof -
  let ?w = "(nd_work n)\<lparr>is_now := Suc (is_now (nd_work n)), is_sent := nd_sent n @ [raw]\<rparr>"
  have "work_on su tx (nd_work n) = (Inl (Err WorkerRetry), ?w)"
    using assms(4-6) by (simp add: work_on_def ingest_tx_judge Let_def broadcast_def sx_defs retry_outcome_def)
  with assms(1-3) have "node_step su Retried n (n\<lparr>nd_work := ?w, nd_next := 0\<rparr>)" by (intro retried) auto
  with assms(1) show ?thesis by (intro exI conjI) (assumption | simp)+
qed

lemma block_step:
  assumes "node_inv su n" "no_faults (nd_db n)" "slot_small (Some slot)" "\<not> stuck (su_checks su) slot (entries (nd_db n))"
  shows "\<exists>d. node_step su (Followed (RollForward (slot, h) btxs)) n (with_db d n) \<and> no_faults d \<and>
    entries d = event_effect (su_hex su) (su_diff su) (RollForward (slot, h) btxs) (entries (nd_db n))"
proof -
  let ?ev = "RollForward (slot, h) btxs"
  have ready: "monitor_ready ?ev (nd_db n)" using assms(1,3) by (simp add: monitor_ready_def node_inv_def)
  obtain r d where x: "monitor_execute (su_hex su) (su_checks su) (su_diff su) ?ev (nd_db n) = (r, d)" by fastforce
  have "r = Inr ()" "no_faults d"
    using monitor_execute_undisturbed [OF ready assms(2), of "su_hex su" "su_checks su" "su_diff su"] x assms(4) by auto
  with monitor_execute_cases [OF ready x] followed [of ?ev su n r d] x assms(3) show ?thesis by auto
qed

text \<open>
  A node for the witnesses.  Two transactions are submitted and scheduled; the ledger answers when the
  stage looks at the first one, the tip cannot be fetched when it looks at the second one, and the
  service is offline when it looks for the third time.
\<close>

definition demo_request :: "submit_item list" where
  "demo_request = [\<lparr>it_raw = [1], it_queue = None, it_lock_token = None\<rparr>,
     \<lparr>it_raw = [1, 2], it_queue = None, it_lock_token = None\<rparr>]"

definition offline :: u5c_adapter where
  "offline = \<lparr>a_tip = Inl (Err RpcFailed), a_utxos = (\<lambda>_ _. Inl (Err RpcFailed)), a_pparams = (\<lambda>_. Inl (Err RpcFailed))\<rparr>"

definition demo_answers :: "nat \<Rightarrow> tx_env" where
  "demo_answers k = (if k = 1 then demo_env\<lparr>te_tip := Inl (Err RpcFailed)\<rparr>
     else if k = 2 then demo_env\<lparr>te_validate := offline\<rparr> else demo_env)"

definition demo_setup :: "(nat, bytes, nat) node_setup" where
  "demo_setup = \<lparr>su_pallas = demo_pallas, su_hex = demo_hex, su_queues = [queue_config_default],
     su_has_signer = False, su_env = demo_answers, su_checks = True, su_diff = 100\<rparr>"

definition tx_x :: Transaction where
  "tx_x = Transaction_new ''x'' [1] 1 1"

definition tx_xx :: Transaction where
  "tx_xx = Transaction_new ''xx'' [1, 2] 1 1"

definition demo_stored :: db where
  "demo_stored = \<lparr>tx_tbl = map row_of_tx [tx_x, tx_xx], dep_tbl = [], cursor_tbl = [], io_faults = [], clock = []\<rparr>"

definition demo_node :: "db \<Rightarrow> Transaction list option \<Rightarrow> node" where
  "demo_node d u = \<lparr>nd_work = \<lparr>is_db = d, is_sent = [], is_now = 0\<rparr>, nd_unit = u, nd_next = 0, nd_mark = 0\<rparr>"

lemma demo_submitted:
  "sv_db (snd (submit_tx demo_pallas demo_hex [queue_config_default] (\<lambda>_. False) (\<lambda>_. False) (\<lambda>_. demo_obs)
      demo_request \<lparr>sv_db = migrate [] [], sv_unlocks = []\<rparr>)) = demo_stored"
  by code_simp

lemmas demo_stored_defs = demo_stored_def row_of_tx_def tx_x_def tx_xx_def Transaction_new_def DEFAULT_QUEUE_def

lemma demo_scheduled:
  "ingest_schedule True id id [queue_config_default] 0 demo_stored = (Inr (Unit [tx_x, tx_xx]), demo_stored)"
proof -
  have "state_of Pending demo_stored = (Inr [\<lparr>ts_queue = ''default'', ts_count = 2\<rparr>], demo_stored)"
    by (simp add: demo_stored_defs state_of_def fetch_rows_def queue_groups_def queues_with_def state_from_row_def
        sx_defs stmt_def)
  moreover have "weight_of [queue_config_default] ''default'' = 1"
    by (simp add: weight_of_def queues_get_def queue_config_default_def DEFAULT_QUEUE_def DEFAULT_WEIGHT_def)
  moreover have "quota [(''default'', 1)] 50 = [(''default'', 50)]" by code_simp
  moreover have "spread True [\<lparr>ts_queue = ''default'', ts_count = 2\<rparr>] [(''default'', 50)] 0 = Inr [(''default'', 2)]"
    by (simp add: add_oc_def sub_oc_def Let_def)
  moreover have "next_txs Pending [(''default'', 2)] demo_stored = (Inr [tx_x, tx_xx], demo_stored)" by code_simp
  ultimately have "priority_next True id id [queue_config_default] Pending 50 demo_stored = (Inr [tx_x, tx_xx], demo_stored)"
    by (simp add: priority_next_def sx_defs)
  then show ?thesis by (simp add: ingest_schedule_def sx_defs sub_oc_def CAP_def)
qed

lemma demo_init: "node_reachable demo_setup (demo_node (migrate [] []) None)"
proof -
  have "slot_small (Some 100)" by (simp add: slot_small_def)
  then have "node_init demo_setup (demo_node (migrate [] []) None)"
    by (auto simp: node_init_def demo_node_def small_tips_def demo_setup_def demo_answers_def demo_env_def migrate_def
        db_defs entries_def row_map_def)
  then show ?thesis unfolding node_reachable_def by (rule reach_init)
qed

lemma demo_schedules:
  "node_step demo_setup Scheduled (demo_node demo_stored None) (demo_node demo_stored (Some [tx_x, tx_xx]))"
proof -
  let ?mid = "demo_node demo_stored None"
  have "node_step demo_setup Scheduled ?mid
      (with_db demo_stored ?mid\<lparr>nd_unit := Some [tx_x, tx_xx], nd_next := 0, nd_mark := 0\<rparr>)"
    by (rule scheduled [where iter_w = id and iter_q = id and len = 0])
      (simp_all add: demo_setup_def demo_node_def demo_scheduled)
  then show ?thesis by (simp add: with_db_def demo_node_def)
qed

lemma demo_reachable: "node_reachable demo_setup (demo_node demo_stored (Some [tx_x, tx_xx]))"
proof -
  let ?init = "demo_node (migrate [] []) None"
  have "node_step demo_setup (Submitted demo_request) ?init (with_db demo_stored ?init)"
    unfolding demo_submitted [symmetric]
    by (rule submitted [where chained = "\<lambda>_. False" and gone = "\<lambda>_. False" and obs = "\<lambda>_. demo_obs" and us = "[]"])
      (simp add: demo_setup_def demo_node_def, rule prod.collapse [symmetric])
  moreover have "with_db demo_stored ?init = demo_node demo_stored None" by (simp add: with_db_def demo_node_def)
  ultimately show ?thesis
    using demo_init demo_schedules unfolding node_reachable_def by (metis (mono_tags, lifting) reach_step)
qed

lemma validate_offline: "validate_tx pl offline tx = Inl (Err (AdapterError RpcFailed))"
  by (simp add: validate_tx_def offline_def adapter_try_def)

lemma demo_verdicts:
  "verdict_of demo_setup 0 tx_x = Accepted [1]" "verdict_of demo_setup (Suc 0) tx_xx = Accepted [1, 2]"
  "verdict_of demo_setup (Suc (Suc 0)) tx_x = Rejected [1]"
  by (simp_all add: demo_setup_def judge_def tx_x_def tx_xx_def Transaction_new_def queues_get_def queue_config_default_def
      sign_if_def demo_answers_def demo_env_def demo_accepts validate_offline
      demo_pallas_def [THEN arg_cong, of pl_decode])

lemma demo_stored_entries:
  "entries demo_stored = [''x'' \<mapsto> entry_of_tx tx_x, ''xx'' \<mapsto> entry_of_tx tx_xx]" "no_faults demo_stored"
  by (auto simp: entries_def row_map_def fun_eq_iff demo_stored_defs entry_of_row_def entry_of_tx_def status_of_row_def
      status_from_str_def no_faults_def)

text \<open>The two moves of the runs below: the first transaction of the unit goes out, and a block arrives.\<close>

definition flights_before :: "u64 \<Rightarrow> node \<Rightarrow> bool" where
  "flights_before slot n \<longleftrightarrow> (\<forall>i e. entries (nd_db n) i = Some e \<and> e_status e = InFlight \<longrightarrow>
     (\<exists>s. e_slot e = Some s \<and> s \<le> slot))"

lemma flights_before_unstuck: "flights_before slot n \<Longrightarrow> \<not> stuck oc slot (entries (nd_db n))"
  unfolding flights_before_def stuck_def by (force simp: linorder_not_less [symmetric])

lemma flights_before_put:
  assumes "flights_before slot n" "entries (nd_db n') = map_put t (entries (nd_db n))" "tx_slot t = Some s" "s \<le> slot"
  shows "flights_before slot n'"
  using assms unfolding flights_before_def by (auto simp: map_put_def put_entry_def split: if_splits)

lemma block_confirms:
  assumes "node_inv su n" "no_faults (nd_db n)" "slot_small (Some slot)" "flights_before slot n"
    "in_block (su_hex su) btxs i" "entries (nd_db n) i = Some e" "e_status e = InFlight"
  shows "\<exists>d. node_step su (Followed (RollForward (slot, h) btxs)) n (with_db d n) \<and> no_faults d \<and>
    entries d i = Some (confirm_entry slot e)"
  using block_step [OF assms(1-3) flights_before_unstuck [OF assms(4)], of h btxs] assms(5-7)
  by (auto simp: event_effect_def forward_entry_def)

lemma demo_node_facts:
  defines "n \<equiv> demo_node demo_stored (Some [tx_x, tx_xx])"
  shows "nd_unit n = Some [tx_x, tx_xx]" "nd_next n = 0" "nd_mark n = 0" "is_now (nd_work n) = 0" "nd_db n = demo_stored"
    "no_faults (nd_db n)" "entries (nd_db n) ''x'' = Some (entry_of_tx tx_x)" "flights_before slot n"
    "tx_id tx_x = ''x''" "tx_status tx_x = Pending" "in_block (su_hex demo_setup) [\<lparr>btx_hash = [1]\<rparr>] (tx_id tx_x)"
  by (auto simp: n_def demo_node_def demo_stored_entries flights_before_def tx_x_def tx_xx_def Transaction_new_def
      demo_setup_def in_block_def demo_hex_def)

lemma demo_answers_facts:
  "te_send_ok (su_env demo_setup k)" "te_tip (su_env demo_setup 0) = Inr (100, [])"
  "te_tip (su_env demo_setup (Suc 0)) = Inl (Err RpcFailed)"
  by (simp_all add: demo_setup_def demo_answers_def demo_env_def)

lemma demo_worked:
  "\<exists>n'. node_step demo_setup Worked (demo_node demo_stored (Some [tx_x, tx_xx])) n' \<and>
     entries (nd_db n') ''x'' = Some ((entry_of_tx tx_x)\<lparr>e_raw := [1], e_status := InFlight, e_slot := Some 100\<rparr>)"
  using accepted_step [where n = "demo_node demo_stored (Some [tx_x, tx_xx])" and su = demo_setup and tx = tx_x,
      OF demo_node_facts(1) _ _ demo_node_facts(6)]
    demo_verdicts(1) demo_answers_facts(1,2) demo_node_facts
  by (fastforce simp: map_put_def put_entry_def)

lemma node_run_keeps:
  assumes "node_reachable su n" "node_run su as n n'" "entries (nd_db n) i = Some e"
  shows "\<exists>e'. entries (nd_db n') i = Some e' \<and> e_queue e' = e_queue e \<and> e_created e' = e_created e \<and>
    node_reachable su n'"
  using assms
proof (induction as arbitrary: n e)
  case (Cons a as)
  then obtain m where m: "node_step su a n m" "node_run su as m n'" by auto
  from node_step_keeps [OF node_reachable_inv [OF Cons.prems(1)] m(1) Cons.prems(3)] obtain e1 where
    e1: "entries (nd_db m) i = Some e1" "e_queue e1 = e_queue e" "e_created e1 = e_created e" by blast
  have "node_reachable su m" using Cons.prems(1) m(1) unfolding node_reachable_def by (blast intro: reach_step)
  from Cons.IH [OF this m(2) e1(1)] e1 show ?case by auto
qed simp

section \<open>Properties of the node\<close>

text \<open>Across all interleavings of submissions, ingestion, retries and chain events, with whatever storage
  faults and network answers: a transaction that the database calls in flight or confirmed was broadcast
  to the peers, and its bytes had passed validation and evaluation before.\<close>

theorem node_flight_checked:
  assumes "node_reachable su n" "entries (nd_db n) i = Some e" "e_status e = InFlight \<or> e_status e = Confirmed"
  shows "e_raw e \<in> set (nd_sent n) \<and> checked (su_pallas su) (su_env su) (e_raw e)"
  using node_reachable_inv [OF assms(1)] assms(2,3) by (auto simp: node_inv_def flown_def)

theorem node_flight_checked_witness:
  "\<exists>n. node_reachable demo_setup n \<and> [1] \<in> set (nd_sent n) \<and> checked demo_pallas demo_answers [1]"
proof -
  obtain n where n: "node_step demo_setup Worked (demo_node demo_stored (Some [tx_x, tx_xx])) n"
    "entries (nd_db n) ''x'' = Some ((entry_of_tx tx_x)\<lparr>e_raw := [1], e_status := InFlight, e_slot := Some 100\<rparr>)"
    using demo_worked by blast
  have "node_reachable demo_setup n"
    using demo_reachable n(1) unfolding node_reachable_def by (blast intro: reach_step)
  with node_flight_checked [OF this n(2)] show ?thesis by (auto simp: demo_setup_def)
qed

text \<open>C16. No transaction is ever lost: once stored it stays stored through every further run of the node,
  under its id, in its queue and with its time of creation.\<close>

theorem node_never_forgets:
  assumes "node_reachable su n" "node_run su as n n'" "entries (nd_db n) i = Some e"
  shows "\<exists>e'. entries (nd_db n') i = Some e' \<and> e_queue e' = e_queue e \<and> e_created e' = e_created e"
  using node_run_keeps [OF assms] by blast

theorem node_never_forgets_witness:
  "\<exists>n' e'. node_run demo_setup [Worked] (demo_node demo_stored (Some [tx_x, tx_xx])) n' \<and>
     entries (nd_db n') ''x'' = Some e' \<and> e_queue e' = tx_queue tx_x"
proof -
  obtain n where n: "node_run demo_setup [Worked] (demo_node demo_stored (Some [tx_x, tx_xx])) n"
    using demo_worked by auto
  from node_never_forgets [OF demo_reachable n demo_node_facts(7)] n show ?thesis by auto
qed

text \<open>The way of a transaction to the chain.  When the ingest stage comes to a transaction of its unit, the
  checks accept it, it can be broadcast and the tip be read, and then a block arrives that contains it (and no
  transaction in flight is without a slot or ahead of the block), the transaction was sent and is confirmed
  at the slot of the block.\<close>

theorem accepted_is_confirmed:
  assumes "node_reachable su n" "nd_unit n = Some txs" "nd_next n < length txs" "txs ! nd_next n = tx"
    and "no_faults (nd_db n)" "flights_before slot n" "slot_small (Some slot)"
    and "verdict_of su (is_now (nd_work n)) tx = Accepted raw" "te_send_ok (su_env su (is_now (nd_work n)))"
    and "te_tip (su_env su (is_now (nd_work n))) = Inr tip" "fst tip \<le> slot"
    and "in_block (su_hex su) btxs (tx_id tx)" "entries (nd_db n) (tx_id tx) = Some e"
  shows "\<exists>n'. node_run su [Worked, Followed (RollForward (slot, h) btxs)] n n' \<and> nd_sent n' = nd_sent n @ [raw] \<and>
    (\<exists>e'. entries (nd_db n') (tx_id tx) = Some e' \<and> e_raw e' = raw \<and> e_queue e' = e_queue e \<and> e_status e' = Confirmed \<and> e_slot e' = Some slot)"
proof -
  obtain n1 where n1: "node_step su Worked n n1" "no_faults (nd_db n1)" "nd_sent n1 = nd_sent n @ [raw]"
    "entries (nd_db n1) = map_put (tx\<lparr>tx_raw := raw, tx_status := InFlight, tx_slot := Some (fst tip)\<rparr>) (entries (nd_db n))"
    using accepted_step [OF assms(2-5,8-10)] by auto
  have inv: "node_inv su n1" using node_step_inv [OF n1(1)] node_reachable_inv [OF assms(1)] by blast
  have fl: "flights_before slot n1" using flights_before_put [OF assms(6) n1(4)] assms(11) by simp
  have e1: "entries (nd_db n1) (tx_id tx) = Some (e\<lparr>e_raw := raw, e_status := InFlight, e_slot := Some (fst tip)\<rparr>)"
    using assms(13) n1(4) by (simp add: map_put_def put_entry_def)
  from block_confirms [OF inv n1(2) assms(7) fl assms(12) e1] obtain d where
    "node_step su (Followed (RollForward (slot, h) btxs)) n1 (with_db d n1)"
    "entries d (tx_id tx) = Some (confirm_entry slot (e\<lparr>e_raw := raw, e_status := InFlight, e_slot := Some (fst tip)\<rparr>))"
    by auto
  with n1 show ?thesis by (intro exI [of _ "with_db d n1"]) (auto simp: confirm_entry_def)
qed

theorem accepted_is_confirmed_witness:
  "\<exists>n' e. node_run demo_setup [Worked, Followed (RollForward (120, []) [\<lparr>btx_hash = [1]\<rparr>])]
      (demo_node demo_stored (Some [tx_x, tx_xx])) n' \<and>
    entries (nd_db n') ''x'' = Some e \<and> e_status e = Confirmed \<and> e_slot e = Some 120"
proof -
  have "slot_small (Some 120)" by (simp add: slot_small_def)
  from accepted_is_confirmed [where n = "demo_node demo_stored (Some [tx_x, tx_xx])" and su = demo_setup and tx = tx_x
      and raw = "[1]" and tip = "(100, [])" and h = "[]", OF demo_reachable demo_node_facts(1) _ _ demo_node_facts(6,8) this
      _ _ _ _ demo_node_facts(11)] demo_verdicts(1) demo_answers_facts(1,2) demo_node_facts
  show ?thesis by fastforce
qed

text \<open>C35. A unit that is started again overwrites what happened in between.  The first transaction of the unit is
  accepted, sent and marked in flight; the second one is sent too, but the tip cannot be read, so that the
  runtime starts the unit again; meanwhile a block confirms the first transaction.  The stage then looks at
  its old copy of it again, and if the checks now reject it (its inputs are spent, or the ledger service
  does not answer) the confirmed transaction becomes a failed one.\<close>

theorem restarted_unit_fails_confirmed:
  assumes "node_reachable su n" "nd_unit n = Some (tx # tx2 # txs)" "nd_next n = 0" "k = is_now (nd_work n)"
    and "no_faults (nd_db n)" "flights_before slot n" "slot_small (Some slot)"
    and "verdict_of su k tx = Accepted raw" "te_send_ok (su_env su k)"
    and "te_tip (su_env su k) = Inr tip" "fst tip \<le> slot"
    and "verdict_of su (Suc k) tx2 = Accepted raw2" "te_send_ok (su_env su (Suc k))" "te_tip (su_env su (Suc k)) = Inl (Err x)"
    and "in_block (su_hex su) btxs (tx_id tx)" "entries (nd_db n) (tx_id tx) = Some e"
    and "verdict_of su (Suc (Suc k)) tx = Rejected raw3"
  shows "\<exists>n' n''. node_run su [Worked, Retried, Followed (RollForward (slot, h) btxs)] n n' \<and> node_step su Worked n' n'' \<and>
    (\<exists>e'. entries (nd_db n') (tx_id tx) = Some e' \<and> e_status e' = Confirmed) \<and>
    (\<exists>e''. entries (nd_db n'') (tx_id tx) = Some e'' \<and> e_status e'' = Failed)"
proof -
  obtain n1 where n1: "node_step su Worked n n1" "no_faults (nd_db n1)" "is_now (nd_work n1) = Suc k"
    "entries (nd_db n1) = map_put (tx\<lparr>tx_raw := raw, tx_status := InFlight, tx_slot := Some (fst tip)\<rparr>) (entries (nd_db n))"
    "nd_unit n1 = Some (tx # tx2 # txs)" "nd_next n1 = 1"
    using accepted_step [OF assms(2) _ _ assms(5), of tx su raw tip] assms(3,4,8-10) by auto
  obtain n2 where n2: "node_step su Retried n1 n2" "nd_db n2 = nd_db n1" "is_now (nd_work n2) = Suc (Suc k)"
    "nd_unit n2 = Some (tx # tx2 # txs)" "nd_next n2 = 0"
    using tip_lost_step [OF n1(5), of tx2 su raw2 x] n1(3,6) assms(12-14) by auto
  have inv: "node_inv su n2"
    using node_step_inv [OF n2(1) node_step_inv [OF n1(1) node_reachable_inv [OF assms(1)]]] .
  have fl: "flights_before slot n2" using flights_before_put [OF assms(6), of n2] n1(4) n2(2) assms(11) by simp
  have e2: "entries (nd_db n2) (tx_id tx) = Some (e\<lparr>e_raw := raw, e_status := InFlight, e_slot := Some (fst tip)\<rparr>)"
    using assms(16) n1(4) n2(2) by (simp add: map_put_def put_entry_def)
  from block_confirms [OF inv _ assms(7) fl assms(15) e2] n1(2) n2(2) obtain d where
    d: "node_step su (Followed (RollForward (slot, h) btxs)) n2 (with_db d n2)" "no_faults d"
    "entries d (tx_id tx) = Some (confirm_entry slot (e\<lparr>e_raw := raw, e_status := InFlight, e_slot := Some (fst tip)\<rparr>))"
    by auto
  obtain n4 where "node_step su Worked (with_db d n2) n4"
    "entries (nd_db n4) = map_put (tx\<lparr>tx_raw := raw3, tx_status := Failed\<rparr>) (entries d)"
    using rejected_step [of "with_db d n2" "tx # tx2 # txs" tx su raw3] n2(3-5) d(2) assms(17) by auto
  then show ?thesis using n1(1) n2(1) d
    by (intro exI [of _ "with_db d n2"] exI [of _ n4]) (auto simp: map_put_def put_entry_def confirm_entry_def)
qed

theorem restarted_unit_fails_confirmed_witness:
  "\<exists>n' n''. node_run demo_setup [Worked, Retried, Followed (RollForward (120, []) [\<lparr>btx_hash = [1]\<rparr>])]
      (demo_node demo_stored (Some [tx_x, tx_xx])) n' \<and> node_step demo_setup Worked n' n'' \<and>
    (\<exists>e'. entries (nd_db n') ''x'' = Some e' \<and> e_status e' = Confirmed) \<and>
    (\<exists>e''. entries (nd_db n'') ''x'' = Some e'' \<and> e_status e'' = Failed)"
proof -
  have "slot_small (Some 120)" by (simp add: slot_small_def)
  from restarted_unit_fails_confirmed [where n = "demo_node demo_stored (Some [tx_x, tx_xx])" and su = demo_setup
      and raw = "[1]" and tip = "(100, [])" and h = "[]" and k = 0, OF demo_reachable demo_node_facts(1,2) _
      demo_node_facts(6,8) this demo_verdicts(1) demo_answers_facts(1,2) _ demo_verdicts(2) demo_answers_facts(1,3)
      demo_node_facts(11) _ demo_verdicts(3)] demo_node_facts(4,7,9)
  show ?thesis by simp
qed

end
