(* ===== verification/Mempool.thy ===== *)
theory Mempool
  imports Tx_Validation
begin

text \<open>
  The mempool of a peer connection, \<^verbatim>\<open>src/network/mempool.rs\<close>: a bounded queue of the transactions
  announced to the peer.  The broadcast channel of updates is the list of events sent on it.  A panic
  while the write lock is held poisons the lock, and every later access fails.  \<open>era_number\<close> stands for
  the conversion of an era to a number in \<open>pallas\<close>.
\<close>

section \<open>The mempool\<close>

definition MEMPOOL_CAP :: nat where
  "MEMPOOL_CAP = 100"

datatype mempool_error = DecodeFailed | LockFailed

record mempool_tx =
  mt_hash :: bytes
  mt_era :: u16
  mt_bytes :: bytes
  mt_confirmed :: bool

datatype tx_stage = Inflight | Acknowledged

record mempool =
  mp_inflight :: "mempool_tx list"
  mp_poisoned :: bool
  mp_updates :: "(tx_stage \<times> mempool_tx) list"

type_synonym 'a pool = "(mempool, mempool_error fault, 'a) sx"

definition mempool_new :: mempool where
  "mempool_new = \<lparr>mp_inflight = [], mp_poisoned = False, mp_updates = []\<rparr>"

definition notify :: "tx_stage \<Rightarrow> mempool_tx \<Rightarrow> mempool \<Rightarrow> mempool" where
  "notify new_stage tx m = m\<lparr>mp_updates := mp_updates m @ [(new_stage, tx)]\<rparr>"

text \<open>The change of \<open>receive\<close> on an unpoisoned mempool: at capacity the oldest one is dropped.\<close>

definition push :: "mempool_tx \<Rightarrow> mempool \<Rightarrow> mempool" where
  "push tx m =
     notify Inflight tx
       (m\<lparr>mp_inflight := (if MEMPOOL_CAP \<le> length (mp_inflight m) then tl (mp_inflight m) else mp_inflight m) @ [tx]\<rparr>)"

definition receive :: "mempool_tx \<Rightarrow> unit pool" where
  "receive tx m = (if mp_poisoned m then (Inl (Err LockFailed), m) else (Inr (), push tx m))"

definition receive_raw ::
  "bool \<Rightarrow> (Era \<Rightarrow> u16) \<Rightarrow> ('tx, 'out, 'rep) pallas \<Rightarrow> bytes \<Rightarrow> mempool_tx pool" where
  "receive_raw oc era_number pl cbor =
     sx_bind (sx_lift (ok_or DecodeFailed (pl_decode pl cbor))) (\<lambda>metx.
     sx_bind (sx_lift (sub_oc oc (era_number (pl_era pl metx)) 1)) (\<lambda>era.
     let tx = \<lparr>mt_hash = pl_hash pl metx, mt_era = era, mt_bytes = cbor, mt_confirmed = False\<rparr> in
     sx_bind (receive tx) (\<lambda>_. sx_return tx)))"

text \<open>The change of \<open>acknowledge\<close> when there is enough to drain.\<close>

definition drain :: "nat \<Rightarrow> mempool \<Rightarrow> mempool" where
  "drain n m =
     fold (notify Acknowledged) (take n (mp_inflight m)) (m\<lparr>mp_inflight := drop n (mp_inflight m)\<rparr>)"

text \<open>\<open>Vec::drain\<close> panics beyond the length, with the write lock held.\<close>

definition acknowledge :: "nat \<Rightarrow> unit pool" where
  "acknowledge n m =
     (if mp_poisoned m then (Inl (Err LockFailed), m)
      else if length (mp_inflight m) < n then (Inl Panic, m\<lparr>mp_poisoned := True\<rparr>)
      else (Inr (), drain n m))"

definition find_inflight :: "bytes \<Rightarrow> mempool_tx option pool" where
  "find_inflight tx_hash m =
     (if mp_poisoned m then (Inl (Err LockFailed), m)
      else (Inr (find (\<lambda>x. mt_hash x = tx_hash) (mp_inflight m)), m))"

section \<open>A bounded first-in first-out queue\<close>

text \<open>
  The contract the peer task relies on: a push appends, dropping the oldest item at capacity, and a
  pop removes from the front.  Then, as long as the capacity is not exceeded, the items are the
  pushed ones without those popped, in order.
\<close>

locale bounded_fifo =
  fixes items :: "'s \<Rightarrow> 'a list"
    and add :: "'a \<Rightarrow> 's \<Rightarrow> 's"
    and remove :: "nat \<Rightarrow> 's \<Rightarrow> 's"
    and capacity :: nat
  assumes items_add: "items (add x s) = (if capacity \<le> length (items s) then tl (items s) else items s) @ [x]"
    and items_remove: "items (remove n s) = drop n (items s)"
    and capacity_pos: "0 < capacity"
begin

lemma items_add_all: "length (items s) + length xs \<le> capacity \<Longrightarrow> items (fold add xs s) = items s @ xs"
  by (induction xs arbitrary: s) (auto simp: items_add)

lemma length_add: "length (items s) \<le> capacity \<Longrightarrow> length (items (add x s)) \<le> capacity"
  using capacity_pos by (auto simp: items_add)

lemma length_add_all: "length (items s) \<le> capacity \<Longrightarrow> length (items (fold add xs s)) \<le> capacity"
  by (induction xs arbitrary: s) (auto simp: length_add)

lemma add_remove_fifo:
  assumes "items s = []" "length xs \<le> capacity" "n \<le> length xs"
  shows "items (remove n (fold add xs s)) = drop n xs"
  using assms by (simp add: items_remove items_add_all)

lemma add_full:
  assumes "length (items s) = capacity"
  shows "items (remove 1 (add x s)) = drop 2 (items s @ [x])"
proof -
  have "items s \<noteq> []" using assms capacity_pos by auto
  then show ?thesis
    using assms by (cases "items s"; cases "tl (items s)") (simp_all add: items_remove items_add)
qed

end

lemma notify_simps [simp]:
  "mp_inflight (notify st t m) = mp_inflight m" "mp_poisoned (notify st t m) = mp_poisoned m"
  "mp_updates (notify st t m) = mp_updates m @ [(st, t)]"
  by (simp_all add: notify_def)

lemma fold_notify [simp]:
  "mp_inflight (fold (notify st) ts m) = mp_inflight m" "mp_poisoned (fold (notify st) ts m) = mp_poisoned m"
  "mp_updates (fold (notify st) ts m) = mp_updates m @ map (Pair st) ts"
  by (induction ts arbitrary: m) simp_all

interpretation pool: bounded_fifo mp_inflight push drain MEMPOOL_CAP
  by unfold_locales (simp_all add: push_def drain_def MEMPOOL_CAP_def)

lemma push_poisoned [simp]: "mp_poisoned (push t m) = mp_poisoned m"
  by (simp add: push_def)

lemma drain_poisoned [simp]: "mp_poisoned (drain n m) = mp_poisoned m"
  by (simp add: drain_def)

lemma receive_raw_cases:
  assumes "receive_raw oc era_number pl cbor m = (r, m')"
  obtains (err) f where "r = Inl f" "m' = m"
  | (ok) tx metx where "r = Inr tx" "m' = push tx m" "\<not> mp_poisoned m" "pl_decode pl cbor = Some metx"
      "mt_hash tx = pl_hash pl metx" "mt_bytes tx = cbor"
proof (cases "pl_decode pl cbor")
  case None
  with assms show thesis by (intro err) (auto simp: receive_raw_def sx_defs)
next
  case (Some metx)
  let ?tx = "\<lambda>era. \<lparr>mt_hash = pl_hash pl metx, mt_era = era, mt_bytes = cbor, mt_confirmed = False\<rparr>"
  show thesis
  proof (cases "sub_oc oc (era_number (pl_era pl metx)) 1 :: (mempool_error, u16) outcome")
    case (Inl f)
    with assms Some show thesis by (intro err [of f]) (simp_all add: receive_raw_def sx_defs)
  next
    case (Inr era)
    show thesis
    proof (cases "mp_poisoned m")
      case True
      with Inr assms Some show thesis
        by (intro err [of "Err LockFailed"]) (simp_all add: receive_raw_def sx_defs receive_def Let_def)
    next
      case False
      with Inr assms Some show thesis
        by (intro ok [of "?tx era" metx]) (simp_all add: receive_raw_def sx_defs receive_def Let_def)
    qed
  qed
qed

section \<open>Properties of the mempool\<close>

definition demo_mtx :: "u8 \<Rightarrow> mempool_tx" where
  "demo_mtx n = \<lparr>mt_hash = [n], mt_era = 6, mt_bytes = [n], mt_confirmed = False\<rparr>"

text \<open>
  The mempool is a queue of at most 100 transactions.  Every operation keeps the bound, received
  transactions are acknowledged first in first out, each with an event, and what was received and
  neither acknowledged nor pushed out is found under its hash.
\<close>

theorem mempool_fifo:
  "keeps (\<lambda>m. length (mp_inflight m) \<le> MEMPOOL_CAP) (receive tx) \<and>
   keeps (\<lambda>m. length (mp_inflight m) \<le> MEMPOOL_CAP) (acknowledge n) \<and>
   (\<forall>m. \<not> mp_poisoned m \<and> n \<le> length (mp_inflight m) \<longrightarrow>
      fst (acknowledge n m) = Inr () \<and>
      mp_inflight m = take n (mp_inflight m) @ mp_inflight (snd (acknowledge n m)) \<and>
      mp_updates (snd (acknowledge n m)) = mp_updates m @ map (Pair Acknowledged) (take n (mp_inflight m))) \<and>
   (\<forall>m. \<not> mp_poisoned m \<and> length (mp_inflight m) < MEMPOOL_CAP \<longrightarrow>
      (\<exists>t. fst (find_inflight (mt_hash tx) (snd (receive tx m))) = Inr (Some t) \<and> mt_hash t = mt_hash tx))"
proof (intro conjI allI impI)
  show "keeps (\<lambda>m. length (mp_inflight m) \<le> MEMPOOL_CAP) (receive tx)"
    using pool.length_add by (auto simp: keeps_def receive_def)
  show "keeps (\<lambda>m. length (mp_inflight m) \<le> MEMPOOL_CAP) (acknowledge n)"
    by (auto simp: keeps_def acknowledge_def pool.items_remove)
next
  fix m :: mempool assume "\<not> mp_poisoned m \<and> n \<le> length (mp_inflight m)"
  then show "fst (acknowledge n m) = Inr ()"
    "mp_inflight m = take n (mp_inflight m) @ mp_inflight (snd (acknowledge n m))"
    "mp_updates (snd (acknowledge n m)) = mp_updates m @ map (Pair Acknowledged) (take n (mp_inflight m))"
    by (simp_all add: acknowledge_def pool.items_remove) (simp add: drain_def)
next
  fix m :: mempool assume m: "\<not> mp_poisoned m \<and> length (mp_inflight m) < MEMPOOL_CAP"
  then have "mp_inflight (push tx m) = mp_inflight m @ [tx]" by (simp add: pool.items_add)
  moreover have "\<exists>t. find (\<lambda>x. mt_hash x = mt_hash tx) (xs @ [tx]) = Some t \<and> mt_hash t = mt_hash tx" for xs
    by (induction xs) auto
  ultimately show "\<exists>t. fst (find_inflight (mt_hash tx) (snd (receive tx m))) = Inr (Some t) \<and> mt_hash t = mt_hash tx"
    using m by (simp add: find_inflight_def receive_def)
qed

theorem mempool_fifo_witness:
  "fst (acknowledge 1 (push (demo_mtx 2) (push (demo_mtx 1) mempool_new))) = Inr () \<and>
   mp_inflight (snd (acknowledge 1 (push (demo_mtx 2) (push (demo_mtx 1) mempool_new)))) = [demo_mtx 2]"
proof -
  let ?m = "push (demo_mtx 2) (push (demo_mtx 1) mempool_new)"
  have m: "mp_inflight ?m = [demo_mtx 1, demo_mtx 2]" "\<not> mp_poisoned ?m"
    by (simp_all add: pool.items_add mempool_new_def MEMPOOL_CAP_def)
  have "\<forall>m. \<not> mp_poisoned m \<and> 1 \<le> length (mp_inflight m) \<longrightarrow> fst (acknowledge 1 m) = Inr () \<and>
      mp_inflight m = take 1 (mp_inflight m) @ mp_inflight (snd (acknowledge 1 m))"
    using mempool_fifo [of "demo_mtx 1" 1] by blast
  from this [rule_format, of ?m] m show ?thesis by simp
qed

text \<open>
  An acknowledgement for more transactions than are in flight panics with the lock held: from
  then on every operation of the mempool fails, for good.
\<close>

theorem acknowledge_too_many_poisons:
  assumes "\<not> mp_poisoned m" "length (mp_inflight m) < n" "acknowledge n m = (r, m')"
  shows "r = Inl Panic \<and> mp_poisoned m' \<and>
    (\<forall>m2. mp_poisoned m2 \<longrightarrow> fst (receive tx m2) = Inl (Err LockFailed) \<and>
       fst (acknowledge k m2) = Inl (Err LockFailed) \<and> fst (find_inflight h m2) = Inl (Err LockFailed) \<and>
       mp_poisoned (snd (receive tx m2)) \<and> mp_poisoned (snd (acknowledge k m2)))"
  using assms by (auto simp: acknowledge_def receive_def find_inflight_def)

theorem acknowledge_too_many_poisons_witness:
  "fst (acknowledge 1 mempool_new) = Inl Panic"
  using acknowledge_too_many_poisons [of mempool_new 1 "fst (acknowledge 1 mempool_new)" "snd (acknowledge 1 mempool_new)"]
  by (simp add: mempool_new_def)

text \<open>
  Acknowledgements do not name transactions, so pushing out the oldest one shifts them: when a
  transaction arrives at a full mempool and the peer then acknowledges the one transaction it knows
  as the oldest, the second oldest disappears as well although it was not acknowledged.
\<close>

theorem eviction_shifts_acknowledgement:
  assumes "\<not> mp_poisoned m" "length (mp_inflight m) = MEMPOOL_CAP"
  shows "mp_inflight (snd (acknowledge 1 (snd (receive tx m)))) = drop 2 (mp_inflight m @ [tx])"
proof -
  have "1 \<le> length (mp_inflight (push tx m))"
    using assms(2) by (simp add: pool.items_add)
  then have "snd (acknowledge 1 (snd (receive tx m))) = drain 1 (push tx m)"
    using assms by (auto simp: acknowledge_def receive_def)
  then show ?thesis using pool.add_full [OF assms(2)] by simp
qed

theorem eviction_shifts_acknowledgement_witness:
  "length (mp_inflight (snd (acknowledge 1 (snd (receive (demo_mtx 1)
     (mempool_new\<lparr>mp_inflight := replicate 100 (demo_mtx 2)\<rparr>)))))) = 99"
  using eviction_shifts_acknowledgement [of "mempool_new\<lparr>mp_inflight := replicate 100 (demo_mtx 2)\<rparr>" "demo_mtx 1"]
  by (simp add: mempool_new_def MEMPOOL_CAP_def)

end
