(* ===== verification/Peer.thy ===== *)
theory Peer
  imports Mempool
begin

text \<open>
  A peer connection, \<^verbatim>\<open>src/network/peer.rs\<close>: connecting, peer sharing, and the background task that
  answers the requests of the transaction submission protocol out of the broadcast channel.

  The network is a parameter.  What the task receives on its input port is a list of events: a
  message, a receive error (the port lagged), or half a second without either.  The time limit of one
  second around a non-blocking request is the number of events that happen before it expires.
\<close>

section \<open>Connecting and sharing\<close>

datatype peer_error = Initialization | PeerDiscovery | TxSubmission | MempoolError mempool_error

record peer =
  pe_addr :: string
  pe_magic :: u64
  pe_connected :: bool
  pe_sharing_enabled :: bool
  pe_alive :: bool

definition peer_new :: "string \<Rightarrow> u64 \<Rightarrow> peer" where
  "peer_new addr magic =
     \<lparr>pe_addr = addr, pe_magic = magic, pe_connected = False, pe_sharing_enabled = False, pe_alive = False\<rparr>"

datatype connection = ConnectFailed | InitFailed | Established

definition peer_init :: "connection \<Rightarrow> peer \<Rightarrow> (peer_error + unit) \<times> peer" where
  "peer_init c p =
     (case c of
        Established \<Rightarrow> (Inr (), p\<lparr>pe_connected := True, pe_alive := True\<rparr>)
      | _ \<Rightarrow> (Inl Initialization, p))"

text \<open>An address as the peer sharing protocol delivers it, with the textual form of the IP.\<close>

datatype peer_address = V4 string u32 | V6 string u32

record sharing_io =
  si_agency :: bool
  si_send_ok :: bool
  si_addresses :: "peer_address list option"

definition discover_peers :: "sharing_io \<Rightarrow> u8 \<Rightarrow> peer \<Rightarrow> (peer_error + peer_address list) \<times> peer" where
  "discover_peers io desired_peers p =
     (if \<not> pe_connected p then (Inl PeerDiscovery, p)
      else if \<not> si_agency io then (Inr [], p\<lparr>pe_sharing_enabled := False\<rparr>)
      else if \<not> si_send_ok io then (Inl PeerDiscovery, p)
      else (case si_addresses io of None \<Rightarrow> (Inl PeerDiscovery, p) | Some as \<Rightarrow> (Inr as, p)))"

text \<open>The data of the highest version of the table; the later one among equals.\<close>

fun max_version :: "(u64 \<times> 'd) list \<Rightarrow> (u64 \<times> 'd) option" where
  "max_version [] = None"
| "max_version (x # xs) =
     (case max_version xs of None \<Rightarrow> Some x | Some y \<Rightarrow> if fst x \<le> fst y then Some y else Some x)"

definition query_peer_sharing_mode :: "(u64 \<times> u8 option) list option \<Rightarrow> peer_error + bool" where
  "query_peer_sharing_mode answer =
     (case answer of
        None \<Rightarrow> Inl Initialization
      | Some version_table \<Rightarrow>
          (case max_version version_table of
             None \<Rightarrow> Inr False
           | Some (_, peer_sharing) \<Rightarrow> Inr (peer_sharing = Some 1)))"

section \<open>Collecting transactions\<close>

datatype recv_event = Msg bytes | RecvError | Elapsed

text \<open>The wait without a time limit that follows a first half second without a message.\<close>

fun wait_first :: "recv_event list \<Rightarrow> ((peer_error + bytes list) \<times> recv_event list) option" where
  "wait_first [] = None"
| "wait_first (Msg b # es) = Some (Inr [b], es)"
| "wait_first (RecvError # es) = Some (Inl TxSubmission, es)"
| "wait_first (Elapsed # es) = wait_first es"

text \<open>
  The loop of \<open>collect_transactions\<close>; \<open>None\<close> is that it is still waiting when the events are used up.
\<close>

fun collect_transactions ::
  "nat \<Rightarrow> bytes list \<Rightarrow> recv_event list \<Rightarrow> ((peer_error + bytes list) \<times> recv_event list) option" where
  "collect_transactions 0 txs es = Some (Inr txs, es)"
| "collect_transactions (Suc remaining) txs [] = None"
| "collect_transactions (Suc remaining) txs (Msg b # es) = collect_transactions remaining (txs @ [b]) es"
| "collect_transactions (Suc remaining) txs (RecvError # es) = collect_transactions (Suc remaining) txs es"
| "collect_transactions (Suc remaining) txs (Elapsed # es) =
     (if txs = [] then wait_first es else Some (Inr txs, es))"

section \<open>The background task\<close>

datatype request = TxIds u16 u16 | TxIdsNonBlocking u16 u16 | Txs "(u16 \<times> bytes) list"

datatype peer_reply = ReplyTxIds "(u16 \<times> bytes \<times> u32) list" | ReplyTxs "(u16 \<times> bytes) list"

record session =
  se_pool :: mempool
  se_events :: "recv_event list"
  se_replies :: "peer_reply list"
  se_running :: bool
  se_plexer :: bool

text \<open>The payload of \<open>propagate_txs\<close>\<close>

definition tx_ids_payload :: "mempool_tx list \<Rightarrow> (u16 \<times> bytes \<times> u32) list" where
  "tx_ids_payload txs = map (\<lambda>x. (mt_era x, mt_hash x, of_nat (length (mt_bytes x)))) txs"

text \<open>\<open>filter_map(|raw_tx| mempool.receive_raw(&raw_tx).ok())\<close>\<close>

fun receive_all ::
  "bool \<Rightarrow> (Era \<Rightarrow> u16) \<Rightarrow> ('tx, 'out, 'rep) pallas \<Rightarrow> bytes list \<Rightarrow> mempool_tx list pool" where
  "receive_all oc era_number pl [] m = (Inr [], m)"
| "receive_all oc era_number pl (raw # raws) m =
     (case receive_raw oc era_number pl raw m of
        (Inl Panic, m') \<Rightarrow> (Inl Panic, m')
      | (Inl (Err _), m') \<Rightarrow> receive_all oc era_number pl raws m'
      | (Inr tx, m') \<Rightarrow>
          (case receive_all oc era_number pl raws m' of
             (Inl f, m'') \<Rightarrow> (Inl f, m'')
           | (Inr txs, m'') \<Rightarrow> (Inr (tx # txs), m'')))"

text \<open>From the collected bytes to the reply, common to both kinds of requests.\<close>

definition announce ::
  "bool \<Rightarrow> (Era \<Rightarrow> u16) \<Rightarrow> ('tx, 'out, 'rep) pallas \<Rightarrow> bytes list \<Rightarrow> (session, mempool_error fault, unit) sx" where
  "announce oc era_number pl raws s =
     (case receive_all oc era_number pl raws (se_pool s) of
        (Inl f, m) \<Rightarrow> (Inl f, s\<lparr>se_pool := m\<rparr>)
      | (Inr txs, m) \<Rightarrow>
          (Inr (), s\<lparr>se_pool := m, se_replies := se_replies s @ [ReplyTxIds (tx_ids_payload txs)]\<rparr>))"

text \<open>What the collection contributes: nothing on an error.\<close>

definition collected :: "peer_error + bytes list \<Rightarrow> bytes list" where
  "collected r = (case r of Inl _ \<Rightarrow> [] | Inr raws \<Rightarrow> raws)"

definition tx_ids_blocking ::
  "bool \<Rightarrow> (Era \<Rightarrow> u16) \<Rightarrow> ('tx, 'out, 'rep) pallas \<Rightarrow> u16 \<Rightarrow> u16 \<Rightarrow> session \<Rightarrow>
   ((mempool_error fault + unit) \<times> session) option" where
  "tx_ids_blocking oc era_number pl ack req s =
     (case acknowledge (unat ack) (se_pool s) of
        (Inl Panic, m) \<Rightarrow> Some (Inl Panic, s\<lparr>se_pool := m\<rparr>)
      | (_, m) \<Rightarrow>
          (case collect_transactions (unat req) [] (se_events s) of
             None \<Rightarrow> None
           | Some (r, rest) \<Rightarrow>
               Some (announce oc era_number pl (collected r) (s\<lparr>se_pool := m, se_events := rest\<rparr>))))"

definition tx_ids_non_blocking ::
  "bool \<Rightarrow> (Era \<Rightarrow> u16) \<Rightarrow> ('tx, 'out, 'rep) pallas \<Rightarrow> nat \<Rightarrow> u16 \<Rightarrow> u16 \<Rightarrow> session \<Rightarrow>
   (mempool_error fault + unit) \<times> session" where
  "tx_ids_non_blocking oc era_number pl deadline ack req s =
     (case acknowledge (unat ack) (se_pool s) of
        (Inl Panic, m) \<Rightarrow> (Inl Panic, s\<lparr>se_pool := m\<rparr>)
      | (_, m) \<Rightarrow>
          (case collect_transactions (unat req) [] (take deadline (se_events s)) of
             None \<Rightarrow> announce oc era_number pl [] (s\<lparr>se_pool := m, se_events := drop deadline (se_events s)\<rparr>)
           | Some (r, rest) \<Rightarrow>
               announce oc era_number pl (collected r)
                 (s\<lparr>se_pool := m, se_events := rest @ drop deadline (se_events s)\<rparr>)))"

text \<open>The bodies for a download request; a hash of the wrong length panics, unknown ones are left out.\<close>

fun find_bodies :: "(bytes \<Rightarrow> bytes option) \<Rightarrow> mempool \<Rightarrow> (u16 \<times> bytes) list \<Rightarrow> (mempool_error, (u16 \<times> bytes) list) outcome" where
  "find_bodies to_hash m [] = Inr []"
| "find_bodies to_hash m (x # xs) =
     res_bind (option_unwrap (to_hash (snd x))) (\<lambda>h.
     res_bind (find_bodies to_hash m xs) (\<lambda>rest.
     Inr (case fst (find_inflight h m) of
            Inr (Some tx) \<Rightarrow> (mt_era tx, mt_bytes tx) # rest
          | _ \<Rightarrow> rest)))"

definition txs_request :: "(bytes \<Rightarrow> bytes option) \<Rightarrow> (u16 \<times> bytes) list \<Rightarrow> (session, mempool_error fault, unit) sx" where
  "txs_request to_hash ids s =
     (case find_bodies to_hash (se_pool s) ids of
        Inl f \<Rightarrow> (Inl f, s)
      | Inr to_send \<Rightarrow> (Inr (), s\<lparr>se_replies := se_replies s @ [ReplyTxs to_send]\<rparr>))"

definition handle_request ::
  "bool \<Rightarrow> (Era \<Rightarrow> u16) \<Rightarrow> ('tx, 'out, 'rep) pallas \<Rightarrow> (bytes \<Rightarrow> bytes option) \<Rightarrow> nat \<Rightarrow> request \<Rightarrow> session \<Rightarrow>
   ((mempool_error fault + unit) \<times> session) option" where
  "handle_request oc era_number pl to_hash deadline req s =
     (case req of
        TxIds a n \<Rightarrow> tx_ids_blocking oc era_number pl a n s
      | TxIdsNonBlocking a n \<Rightarrow> Some (tx_ids_non_blocking oc era_number pl deadline a n s)
      | Txs ids \<Rightarrow> Some (txs_request to_hash ids s))"

text \<open>
  The loop of the task.  It ends and aborts the connection when there is no client or a request cannot
  be read; a panic ends it at once.
\<close>

datatype incoming = NoClient | ReadError | Incoming request nat

definition abort_connection :: "session \<Rightarrow> session" where
  "abort_connection s = s\<lparr>se_running := False, se_plexer := False\<rparr>"

fun background_task ::
  "bool \<Rightarrow> (Era \<Rightarrow> u16) \<Rightarrow> ('tx, 'out, 'rep) pallas \<Rightarrow> (bytes \<Rightarrow> bytes option) \<Rightarrow> incoming list \<Rightarrow> session \<Rightarrow> session option" where
  "background_task oc era_number pl to_hash [] s = Some s"
| "background_task oc era_number pl to_hash (NoClient # rest) s = Some (abort_connection s)"
| "background_task oc era_number pl to_hash (ReadError # rest) s = Some (abort_connection s)"
| "background_task oc era_number pl to_hash (Incoming req deadline # rest) s =
     (case handle_request oc era_number pl to_hash deadline req s of
        None \<Rightarrow> None
      | Some (Inl _, s') \<Rightarrow> Some (s'\<lparr>se_running := False\<rparr>)
      | Some (Inr _, s') \<Rightarrow> background_task oc era_number pl to_hash rest s')"

section \<open>Facts about collecting\<close>

fun messages :: "recv_event list \<Rightarrow> bytes list" where
  "messages [] = []"
| "messages (Msg b # es) = b # messages es"
| "messages (e # es) = messages es"

lemma messages_append: "messages (xs @ ys) = messages xs @ messages ys"
  by (induction xs rule: messages.induct) simp_all

lemma wait_first_ok:
  "wait_first es = Some (Inr txs, rest) \<Longrightarrow>
   \<exists>used. es = used @ rest \<and> messages used = txs \<and> length txs = 1"
proof (induction es rule: wait_first.induct)
  case (2 b es)
  then show ?case by (intro exI [of _ "[Msg b]"]) auto
next
  case (4 es)
  then obtain used where "es = used @ rest" "messages used = txs" "length txs = 1" by auto
  then show ?case by (intro exI [of _ "Elapsed # used"]) simp
qed simp_all

text \<open>When the collection returns.\<close>

lemma wait_first_returns:
  "messages es \<noteq> [] \<Longrightarrow> \<exists>r rest. wait_first es = Some (r, rest) \<and> length rest \<le> length es"
  by (induction es rule: wait_first.induct) (auto intro: le_SucI)

lemma collect_returns:
  "n \<le> length (messages es) \<or> (\<exists>us vs. es = us @ Elapsed # vs \<and> txs @ messages us \<noteq> []) \<Longrightarrow>
   \<exists>r rest. collect_transactions n txs es = Some (r, rest) \<and> length rest \<le> length es"
proof (induction n txs es rule: collect_transactions.induct)
  case (3 n txs b es)
  have "n \<le> length (messages es) \<or> (\<exists>us vs. es = us @ Elapsed # vs \<and> (txs @ [b]) @ messages us \<noteq> [])"
    using "3.prems" by (auto simp: Cons_eq_append_conv)
  from "3.IH" [OF this] show ?case by (auto intro: le_SucI)
next
  case (4 n txs es)
  have "Suc n \<le> length (messages es) \<or> (\<exists>us vs. es = us @ Elapsed # vs \<and> txs @ messages us \<noteq> [])"
    using "4.prems" by (auto simp: Cons_eq_append_conv)
  from "4.IH" [OF this] show ?case by (auto intro: le_SucI)
next
  case (5 n txs es)
  show ?case
  proof (cases "txs = []")
    case True
    with "5.prems" have "messages es \<noteq> []" by (auto simp: Cons_eq_append_conv messages_append)
    from wait_first_returns [OF this] True show ?thesis by (auto intro: le_SucI)
  qed simp
qed auto

lemma collect_ok:
  "collect_transactions n txs0 es = Some (Inr txs, rest) \<Longrightarrow>
   \<exists>used. es = used @ rest \<and> txs = txs0 @ messages used \<and> length txs \<le> length txs0 + n \<and>
     (0 < n \<longrightarrow> txs \<noteq> [])"
proof (induction n txs0 es rule: collect_transactions.induct)
  case (3 n txs0 b es)
  then obtain used where "es = used @ rest" "txs = (txs0 @ [b]) @ messages used"
    "length txs \<le> length (txs0 @ [b]) + n" by auto
  then show ?case by (intro exI [of _ "Msg b # used"]) auto
next
  case (4 n txs0 es)
  from "4.IH" "4.prems" have "\<exists>used. es = used @ rest \<and> txs = txs0 @ messages used \<and>
      length txs \<le> length txs0 + Suc n \<and> txs \<noteq> []" by simp
  then obtain used where "es = used @ rest" "txs = txs0 @ messages used"
    "length txs \<le> length txs0 + Suc n" "txs \<noteq> []" by blast
  then show ?case by (intro exI [of _ "RecvError # used"]) auto
next
  case (5 n txs0 es)
  show ?case
  proof (cases "txs0 = []")
    case True
    with 5 wait_first_ok [of es txs rest] obtain used where "es = used @ rest" "messages used = txs" "length txs = 1"
      by auto
    with True show ?thesis by (intro exI [of _ "Elapsed # used"]) auto
  next
    case False
    with 5 show ?thesis by (intro exI [of _ "[Elapsed]"]) auto
  qed
qed (auto intro: exI [of _ "[]"])

lemma collect_err:
  "collect_transactions n txs0 es = Some (Inl e, rest) \<Longrightarrow> \<exists>used. es = used @ rest \<and> messages used = [] \<and> txs0 = []"
proof (induction n txs0 es rule: collect_transactions.induct)
  case (3 n txs0 b es)
  then show ?case by auto
next
  case (4 n txs0 es)
  then obtain used where "es = used @ rest" "messages used = []" "txs0 = []" by auto
  then show ?case by (intro exI [of _ "RecvError # used"]) simp
next
  case (5 n txs0 es)
  have w: "wait_first es = Some (Inl e, rest) \<Longrightarrow> \<exists>used. es = used @ rest \<and> messages used = []" for es
  proof (induction es rule: wait_first.induct)
    case (3 es)
    then show ?case by (intro exI [of _ "[RecvError]"]) auto
  next
    case (4 es)
    then obtain used where "es = used @ rest" "messages used = []" by auto
    then show ?case by (intro exI [of _ "Elapsed # used"]) simp
  qed simp_all
  from 5 have "txs0 = []" "wait_first es = Some (Inl e, rest)" by (auto split: if_splits)
  with w obtain used where "es = used @ rest" "messages used = []" by blast
  with \<open>txs0 = []\<close> show ?case by (intro exI [of _ "Elapsed # used"]) simp
qed simp_all

section \<open>Facts about announcing\<close>

text \<open>Every transaction of the mempool decodes to its hash.\<close>

definition pool_ok :: "('tx, 'out, 'rep) pallas \<Rightarrow> mempool \<Rightarrow> bool" where
  "pool_ok pl m \<longleftrightarrow> (\<forall>t\<in>set (mp_inflight m). \<exists>metx. pl_decode pl (mt_bytes t) = Some metx \<and> pl_hash pl metx = mt_hash t)"

lemma pool_ok_push:
  assumes "pool_ok pl m" "pl_decode pl (mt_bytes t) = Some metx" "pl_hash pl metx = mt_hash t"
  shows "pool_ok pl (push t m)"
proof -
  have "set (tl (mp_inflight m)) \<subseteq> set (mp_inflight m)" by (cases "mp_inflight m") auto
  with assms show ?thesis by (auto simp: pool_ok_def pool.items_add)
qed

lemma receive_all_ok:
  assumes "receive_all oc era_number pl raws m = (Inr txs, m')" "pool_ok pl m"
  shows "pool_ok pl m'" "m' = fold push txs m" "mp_poisoned m' = mp_poisoned m"
    "length txs \<le> length raws" "\<forall>t\<in>set txs. mt_bytes t \<in> set raws"
    "\<forall>t\<in>set txs. \<exists>metx. pl_decode pl (mt_bytes t) = Some metx \<and> pl_hash pl metx = mt_hash t"
proof -
  have "pool_ok pl m' \<and> m' = fold push txs m \<and> mp_poisoned m' = mp_poisoned m \<and> length txs \<le> length raws \<and>
      (\<forall>t\<in>set txs. mt_bytes t \<in> set raws \<and> (\<exists>metx. pl_decode pl (mt_bytes t) = Some metx \<and> pl_hash pl metx = mt_hash t))"
    using assms
  proof (induction raws arbitrary: m txs)
    case (Cons raw raws)
    obtain r m1 where r: "receive_raw oc era_number pl raw m = (r, m1)" by fastforce
    then show ?case
    proof (cases rule: receive_raw_cases)
      case (err f)
      with r Cons show ?thesis by (cases f) (fastforce split: prod.splits sum.splits)+
    next
      case (ok tx metx)
      from Cons.prems(1) r ok(1) obtain txs' where t: "receive_all oc era_number pl raws m1 = (Inr txs', m')" "txs = tx # txs'"
        by (auto split: prod.splits sum.splits)
      have "pool_ok pl m1" using ok pool_ok_push [OF Cons.prems(2), of tx metx] by simp
      from Cons.IH [OF t(1) this] ok t(2) show ?thesis by auto
    qed
  qed simp
  then show "pool_ok pl m'" "m' = fold push txs m" "mp_poisoned m' = mp_poisoned m"
    "length txs \<le> length raws" "\<forall>t\<in>set txs. mt_bytes t \<in> set raws"
    "\<forall>t\<in>set txs. \<exists>metx. pl_decode pl (mt_bytes t) = Some metx \<and> pl_hash pl metx = mt_hash t"
    by auto
qed

lemma announce_ok:
  assumes "announce oc era_number pl raws s = (Inr (), s')" "pool_ok pl (se_pool s)"
  obtains txs where "se_pool s' = fold push txs (se_pool s)" "pool_ok pl (se_pool s')"
    "se_replies s' = se_replies s @ [ReplyTxIds (tx_ids_payload txs)]" "se_events s' = se_events s"
    "length txs \<le> length raws" "\<forall>t\<in>set txs. mt_bytes t \<in> set raws"
    "\<forall>t\<in>set txs. \<exists>metx. pl_decode pl (mt_bytes t) = Some metx \<and> pl_hash pl metx = mt_hash t"
    "mp_poisoned (se_pool s') = mp_poisoned (se_pool s)"
proof -
  from assms(1) obtain txs m where r: "receive_all oc era_number pl raws (se_pool s) = (Inr txs, m)"
    and s': "s' = s\<lparr>se_pool := m, se_replies := se_replies s @ [ReplyTxIds (tx_ids_payload txs)]\<rparr>"
    by (auto simp: announce_def split: prod.splits sum.splits)
  from receive_all_ok [OF r assms(2)] s' show thesis by (intro that [of txs]) simp_all
qed

lemma acknowledge_ok:
  assumes "acknowledge n m = (r, m')" "r \<noteq> Inl Panic"
  shows "pool_ok pl m \<Longrightarrow> pool_ok pl m'" "mp_poisoned m' = mp_poisoned m"
    "length (mp_inflight m') \<le> length (mp_inflight m)"
  using assms set_drop_subset [of n "mp_inflight m"]
  by (auto simp: acknowledge_def pool_ok_def pool.items_remove split: if_splits)

text \<open>Both kinds of requests for ids: what was consumed of the events, and the announcement.\<close>

lemma tx_ids_blocking_ok:
  assumes "tx_ids_blocking oc era_number pl ack req s = Some (Inr (), s')"
  obtains m r rest where "pool_ok pl (se_pool s) \<Longrightarrow> pool_ok pl m" "mp_poisoned m = mp_poisoned (se_pool s)"
    "length (mp_inflight m) \<le> length (mp_inflight (se_pool s))"
    "collect_transactions (unat req) [] (se_events s) = Some (r, rest)"
    "announce oc era_number pl (collected r) (s\<lparr>se_pool := m, se_events := rest\<rparr>) = (Inr (), s')"
proof -
  obtain ar m where a: "acknowledge (unat ack) (se_pool s) = (ar, m)" by fastforce
  with assms have n: "ar \<noteq> Inl Panic" by (auto simp: tx_ids_blocking_def)
  with a assms obtain r rest where
    "collect_transactions (unat req) [] (se_events s) = Some (r, rest)"
    "announce oc era_number pl (collected r) (s\<lparr>se_pool := m, se_events := rest\<rparr>) = (Inr (), s')"
    by (auto simp: tx_ids_blocking_def split: sum.splits fault.splits option.splits)
  then show thesis
    using that [of m r rest] acknowledge_ok(1) [OF a n, of pl] acknowledge_ok(2,3) [OF a n] by blast
qed

lemma collected_ok:
  assumes "collect_transactions n [] es = Some (r, rest)"
  shows "length (collected r) \<le> n" "\<exists>used. es = used @ rest \<and> collected r = messages used"
proof -
  have "length (collected r) \<le> n \<and> (\<exists>used. es = used @ rest \<and> collected r = messages used)"
  proof (cases r)
    case (Inl e)
    with assms collect_err [of n "[]" es e rest] show ?thesis by (auto simp: collected_def)
  next
    case (Inr txs)
    with assms collect_ok [of n "[]" es txs rest] show ?thesis by (auto simp: collected_def)
  qed
  then show "length (collected r) \<le> n" "\<exists>used. es = used @ rest \<and> collected r = messages used" by auto
qed

section \<open>Properties of the peer task\<close>

definition demo_session :: "recv_event list \<Rightarrow> session" where
  "demo_session es = \<lparr>se_pool = mempool_new, se_events = es, se_replies = [], se_running = True, se_plexer = True\<rparr>"

text \<open>
  Collecting loses and reorders nothing: when it returns transactions, they are exactly the
  messages it took from the channel, in order, at least one and at most as many as asked for.
\<close>

theorem collect_transactions_exact:
  assumes "collect_transactions n [] es = Some (Inr txs, rest)"
  shows "\<exists>used. es = used @ rest \<and> txs = messages used \<and> length txs \<le> n \<and> (0 < n \<longrightarrow> txs \<noteq> [])"
  using collect_ok [OF assms] by simp

theorem collect_transactions_exact_witness:
  "\<exists>used. [Msg [1], RecvError, Msg [2], Elapsed] = used @ [] \<and> [[1], [2]] = messages used"
proof -
  have "collect_transactions 3 [] [Msg [1], RecvError, Msg [2], Elapsed] = Some (Inr [[1], [2]], [])"
    by code_simp
  from collect_transactions_exact [OF this] show ?thesis by blast
qed

text \<open>
  A blocking request announces at most as many transactions as asked for, all of them taken
  from the channel by this request, under the hashes their bytes decode to.
\<close>

theorem announces_at_most_requested:
  assumes "tx_ids_blocking oc era_number pl ack req s = Some (Inr (), s')" "pool_ok pl (se_pool s)"
  shows "\<exists>ids used. se_replies s' = se_replies s @ [ReplyTxIds ids] \<and> length ids \<le> unat req \<and>
     se_events s = used @ se_events s' \<and>
     (\<forall>(era, h, size)\<in>set ids. \<exists>raw metx. raw \<in> set (messages used) \<and> pl_decode pl raw = Some metx \<and>
        pl_hash pl metx = h \<and> size = of_nat (length raw))"
proof -
  obtain m r rest where a: "pool_ok pl m" "collect_transactions (unat req) [] (se_events s) = Some (r, rest)"
    "announce oc era_number pl (collected r) (s\<lparr>se_pool := m, se_events := rest\<rparr>) = (Inr (), s')"
    by (rule tx_ids_blocking_ok [OF assms(1)]) (use assms(2) in blast)
  let ?s1 = "s\<lparr>se_pool := m, se_events := rest\<rparr>"
  have "pool_ok pl (se_pool ?s1)" using a(1) by simp
  then obtain txs where "se_replies s' = se_replies ?s1 @ [ReplyTxIds (tx_ids_payload txs)]"
    "se_events s' = se_events ?s1" and t':
      "length txs \<le> length (collected r)" "\<forall>t\<in>set txs. mt_bytes t \<in> set (collected r)"
      "\<forall>t\<in>set txs. \<exists>metx. pl_decode pl (mt_bytes t) = Some metx \<and> pl_hash pl metx = mt_hash t"
    by (rule announce_ok [OF a(3)]) blast
  then have "se_replies s' = se_replies s @ [ReplyTxIds (tx_ids_payload txs)]" "se_events s' = rest" by simp_all
  note t = this t'
  obtain used where used: "se_events s = used @ rest" "collected r = messages used"
    using collected_ok(2) [OF a(2)] by blast
  have "length (tx_ids_payload txs) \<le> unat req"
    using t(3) collected_ok(1) [OF a(2)] by (simp add: tx_ids_payload_def)
  moreover have "\<forall>(era, h, size)\<in>set (tx_ids_payload txs). \<exists>raw metx. raw \<in> set (messages used) \<and>
      pl_decode pl raw = Some metx \<and> pl_hash pl metx = h \<and> size = of_nat (length raw)"
    using t(4,5) used(2) by (fastforce simp: tx_ids_payload_def)
  ultimately show ?thesis using t(1,2) used(1) by blast
qed

theorem announces_at_most_requested_witness:
  "\<exists>s' ids. tx_ids_blocking True (\<lambda>_. 7) demo_pallas 0 2 (demo_session [Msg [1], Msg [1, 2], Msg [3]]) = Some (Inr (), s') \<and>
     se_replies s' = [ReplyTxIds ids] \<and> length ids \<le> 2"
proof -
  let ?s = "demo_session [Msg [1], Msg [1, 2], Msg [3]]"
  have "map_option fst (tx_ids_blocking True (\<lambda>_. 7) demo_pallas 0 2 ?s) = Some (Inr ())" by code_simp
  then obtain s' where s': "tx_ids_blocking True (\<lambda>_. 7) demo_pallas 0 2 ?s = Some (Inr (), s')"
    by (cases "tx_ids_blocking True (\<lambda>_. 7) demo_pallas 0 2 ?s") auto
  have "pool_ok demo_pallas (se_pool ?s)" by (simp add: pool_ok_def demo_session_def mempool_new_def)
  from announces_at_most_requested [OF s' this] s' show ?thesis by (auto simp: demo_session_def)
qed

text \<open>
  What was announced can be downloaded.  If the mempool has room for the announced
  transactions, a following request for the bodies of any announced ids is answered with one body per
  id, each of which decodes to a transaction with that hash.
\<close>

lemma find_announced:
  assumes "pool_ok pl m" "\<not> mp_poisoned m" "h \<in> mt_hash ` set (mp_inflight m)"
  shows "\<exists>t metx. fst (find_inflight h m) = Inr (Some t) \<and> pl_decode pl (mt_bytes t) = Some metx \<and> pl_hash pl metx = h"
proof -
  from assms(3) have "find (\<lambda>x. mt_hash x = h) (mp_inflight m) \<noteq> None"
    by (auto simp: find_None_iff)
  then obtain t where "find (\<lambda>x. mt_hash x = h) (mp_inflight m) = Some t" by blast
  moreover from this have "t \<in> set (mp_inflight m)" "mt_hash t = h" by (auto simp: find_Some_iff)
  ultimately show ?thesis using assms(1,2) by (auto simp: find_inflight_def pool_ok_def)
qed

lemma find_bodies_announced:
  assumes "pool_ok pl m" "\<not> mp_poisoned m" "\<forall>x\<in>set ids. snd x \<in> mt_hash ` set (mp_inflight m) \<and> to_hash (snd x) = Some (snd x)"
  shows "\<exists>bodies. find_bodies to_hash m ids = Inr bodies \<and>
    list_all2 (\<lambda>x b. \<exists>metx. pl_decode pl (snd b) = Some metx \<and> pl_hash pl metx = snd x) ids bodies"
  using assms(3)
proof (induction ids)
  case (Cons x ids)
  then obtain bodies where b: "find_bodies to_hash m ids = Inr bodies"
    "list_all2 (\<lambda>x b. \<exists>metx. pl_decode pl (snd b) = Some metx \<and> pl_hash pl metx = snd x) ids bodies" by auto
  from Cons.prems find_announced [OF assms(1,2), of "snd x"] obtain t metx where
    "fst (find_inflight (snd x) m) = Inr (Some t)" "pl_decode pl (mt_bytes t) = Some metx" "pl_hash pl metx = snd x"
    by auto
  with b Cons.prems show ?case by simp
qed simp

theorem announced_can_be_downloaded:
  assumes "tx_ids_blocking oc era_number pl ack req s = Some (Inr (), s')" "pool_ok pl (se_pool s)"
    "\<not> mp_poisoned (se_pool s)" "length (mp_inflight (se_pool s)) + unat req \<le> MEMPOOL_CAP"
    "se_replies s' = se_replies s @ [ReplyTxIds ids]" "\<forall>(era, h, size)\<in>set ids. to_hash h = Some h"
    "set wanted \<subseteq> (\<lambda>(era, h, size). (era, h)) ` set ids"
  shows "\<exists>bodies s''. txs_request to_hash wanted s' = (Inr (), s'') \<and>
     se_replies s'' = se_replies s' @ [ReplyTxs bodies] \<and>
     list_all2 (\<lambda>x b. \<exists>metx. pl_decode pl (snd b) = Some metx \<and> pl_hash pl metx = snd x) wanted bodies"
proof -
  obtain m r rest where a: "pool_ok pl m" "mp_poisoned m = mp_poisoned (se_pool s)"
    "length (mp_inflight m) \<le> length (mp_inflight (se_pool s))"
    "collect_transactions (unat req) [] (se_events s) = Some (r, rest)"
    "announce oc era_number pl (collected r) (s\<lparr>se_pool := m, se_events := rest\<rparr>) = (Inr (), s')"
    by (rule tx_ids_blocking_ok [OF assms(1)]) (use assms(2) in blast)
  let ?s1 = "s\<lparr>se_pool := m, se_events := rest\<rparr>"
  have "pool_ok pl (se_pool ?s1)" using a(1) by simp
  then obtain txs where t':
    "se_pool s' = fold push txs (se_pool ?s1)" "pool_ok pl (se_pool s')"
    "se_replies s' = se_replies ?s1 @ [ReplyTxIds (tx_ids_payload txs)]"
    "length txs \<le> length (collected r)" "mp_poisoned (se_pool s') = mp_poisoned (se_pool ?s1)"
    by (rule announce_ok [OF a(5)]) blast
  have t: "se_pool s' = fold push txs m" "pool_ok pl (se_pool s')"
    "se_replies s' = se_replies s @ [ReplyTxIds (tx_ids_payload txs)]"
    "length txs \<le> length (collected r)" "mp_poisoned (se_pool s') = mp_poisoned m"
    using t' by simp_all
  have ids: "ids = tx_ids_payload txs" using t(3) assms(5) by simp
  have "length (mp_inflight m) + length txs \<le> MEMPOOL_CAP"
    using a(3) t(4) collected_ok(1) [OF a(4)] assms(4) by linarith
  then have "mp_inflight (se_pool s') = mp_inflight m @ txs" using pool.items_add_all t(1) by simp
  then have "\<forall>x\<in>set wanted. snd x \<in> mt_hash ` set (mp_inflight (se_pool s')) \<and> to_hash (snd x) = Some (snd x)"
    using assms(6,7) unfolding ids by (force simp: tx_ids_payload_def)
  from find_bodies_announced [OF t(2) _ this] a(2) t(5) assms(3) obtain bodies where
    "find_bodies to_hash (se_pool s') wanted = Inr bodies"
    "list_all2 (\<lambda>x b. \<exists>metx. pl_decode pl (snd b) = Some metx \<and> pl_hash pl metx = snd x) wanted bodies" by auto
  then show ?thesis by (simp add: txs_request_def)
qed

theorem announced_can_be_downloaded_witness:
  "\<exists>s' s'' bodies. tx_ids_blocking True (\<lambda>_. 7) demo_pallas 0 1 (demo_session [Msg [9]]) = Some (Inr (), s') \<and>
     txs_request Some [(6, [1])] s' = (Inr (), s'') \<and> se_replies s'' = se_replies s' @ [ReplyTxs bodies] \<and> length bodies = 1"
proof -
  let ?r = "tx_ids_blocking True (\<lambda>_. 7) demo_pallas 0 1 (demo_session [Msg [9]])"
  have "map_option (\<lambda>(r, s'). (r, se_replies s')) ?r = Some (Inr (), [ReplyTxIds [(6, [1], 1)]])" by code_simp
  then obtain s' where s': "?r = Some (Inr (), s')" "se_replies s' = [ReplyTxIds [(6, [1], 1)]]" by (cases ?r) auto
  have p: "pool_ok demo_pallas (se_pool (demo_session [Msg [9]]))" "\<not> mp_poisoned (se_pool (demo_session [Msg [9]]))"
    "length (mp_inflight (se_pool (demo_session [Msg [9]]))) + unat (1 :: u16) \<le> MEMPOOL_CAP"
    "se_replies s' = se_replies (demo_session [Msg [9]]) @ [ReplyTxIds [(6, [1], 1)]]"
    by (simp_all add: pool_ok_def demo_session_def mempool_new_def MEMPOOL_CAP_def s')
  from announced_can_be_downloaded [OF s'(1) p, of Some "[(6, [1])]"] s'(1) show ?thesis
    by (auto dest: list_all2_lengthD)
qed

text \<open>
  A non-blocking request can lose transactions: when its second is over while it is still
  collecting, it answers with no ids, and the messages it had already taken from the channel are gone.
\<close>

theorem non_blocking_drops_messages:
  assumes "collect_transactions (unat req) [] (take deadline (se_events s)) = None"
    "length (mp_inflight (se_pool s)) \<ge> unat ack"
  shows "\<exists>s'. tx_ids_non_blocking oc era_number pl deadline ack req s = (Inr (), s') \<and>
     se_replies s' = se_replies s @ [ReplyTxIds []] \<and>
     messages (se_events s) = messages (take deadline (se_events s)) @ messages (se_events s')"
proof -
  have "messages (se_events s) = messages (take deadline (se_events s)) @ messages (drop deadline (se_events s))"
    unfolding messages_append [symmetric] by simp
  with assms show ?thesis
    by (auto simp: tx_ids_non_blocking_def acknowledge_def announce_def tx_ids_payload_def)
qed

theorem non_blocking_drops_messages_witness:
  "\<exists>s'. tx_ids_non_blocking True (\<lambda>_. 7) demo_pallas 1 0 2 (demo_session [Msg [9], Msg [8]]) = (Inr (), s') \<and>
     messages (se_events s') = [[8]]"
proof -
  let ?s = "demo_session [Msg [9], Msg [8]]"
  have "collect_transactions (unat (2 :: u16)) [] (take 1 (se_events ?s)) = None"
    "unat (0 :: u16) \<le> length (mp_inflight (se_pool ?s))" by code_simp+
  from non_blocking_drops_messages [OF this, of True "\<lambda>_. 7" demo_pallas] show ?thesis
    by (auto simp: demo_session_def)
qed

text \<open>C33. Collecting ends.  As soon as as many messages have arrived as were asked for, or some message
  followed by half a second of silence, the collection returns, whatever receive errors lie in between.\<close>

theorem collect_transactions_returns:
  assumes "n \<le> length (messages es) \<or> (\<exists>us vs. es = us @ Elapsed # vs \<and> messages us \<noteq> [])"
  shows "\<exists>r rest. collect_transactions n [] es = Some (r, rest) \<and> length rest \<le> length es"
  using collect_returns [of n es "[]"] assms by auto

theorem collect_transactions_returns_witness:
  "\<exists>r rest. collect_transactions 5 [] [RecvError, Msg [1], RecvError, Elapsed, Msg [2]] = Some (r, rest)"
proof -
  have "[RecvError, Msg [1], RecvError, Elapsed, Msg [2]] = [RecvError, Msg [1], RecvError] @ Elapsed # [Msg [2]]"
    by simp
  then show ?thesis using collect_transactions_returns [of 5 "[RecvError, Msg [1], RecvError, Elapsed, Msg [2]]"]
    by fastforce
qed

end
