(* ===== verification/Peer_Discovery.thy ===== *)
theory Peer_Discovery
  imports Peer Stage_Framework
begin

text \<open>
  The peer manager, \<^verbatim>\<open>src/network/peer_manager.rs\<close>, and the stage that keeps the number of connected
  peers up, \<^verbatim>\<open>src/pipeline/peer_discovery/mod.rs\<close>.

  The map of peers is a list of pairs with distinct addresses, in the order in which the map is
  iterated.  The network answers (version tables, connections, shared addresses), the random choices
  and the printing of a port number are parameters.
\<close>

section \<open>The peer manager\<close>

datatype manager_error = PeerInitializationError peer_error | PeerDiscoveryError peer_error

type_synonym peers = "(string \<times> peer option) list"

definition manager_new :: "string list \<Rightarrow> peers" where
  "manager_new addresses = map (\<lambda>a. (a, None)) (remdups addresses)"

text \<open>\<open>init\<close> stops at the first peer that cannot be queried or connected.\<close>

fun manager_init ::
  "u64 \<Rightarrow> (string \<Rightarrow> (u64 \<times> u8 option) list option) \<Rightarrow> (string \<Rightarrow> connection) \<Rightarrow> peers \<Rightarrow> (manager_error + unit) \<times> peers" where
  "manager_init magic tables connect [] = (Inr (), [])"
| "manager_init magic tables connect ((addr, old) # rest) =
     (case query_peer_sharing_mode (tables addr) of
        Inl e \<Rightarrow> (Inl (PeerInitializationError e), (addr, old) # rest)
      | Inr sharing \<Rightarrow>
          (case peer_init (connect addr) ((peer_new addr magic)\<lparr>pe_sharing_enabled := sharing\<rparr>) of
             (Inl e, _) \<Rightarrow> (Inl (PeerInitializationError e), (addr, old) # rest)
           | (Inr _, new_peer) \<Rightarrow>
               (case manager_init magic tables connect rest of
                  (r, rest') \<Rightarrow> (r, (addr, Some new_peer) # rest'))))"

definition is_candidate :: "peer option \<Rightarrow> bool" where
  "is_candidate p = (case p of None \<Rightarrow> False | Some p \<Rightarrow> pe_alive p \<and> pe_sharing_enabled p)"

definition choose_rand :: "nat \<Rightarrow> 'a list \<Rightarrow> 'a option" where
  "choose_rand r xs = (if xs = [] then None else Some (xs ! (r mod length xs)))"

fun v4_text :: "(u32 \<Rightarrow> string) \<Rightarrow> peer_address \<Rightarrow> string option" where
  "v4_text show_port (V4 ip port) = Some (ip @ '':'' @ show_port port)"
| "v4_text show_port (V6 ip port) = None"

text \<open>\<open>pick_peer_rand\<close>; \<open>r1\<close> and \<open>r2\<close> are its two random choices.\<close>

definition pick_peer_rand ::
  "(u32 \<Rightarrow> string) \<Rightarrow> (string \<Rightarrow> sharing_io) \<Rightarrow> nat \<Rightarrow> nat \<Rightarrow> u8 \<Rightarrow> peers \<Rightarrow> (manager_error + string option) \<times> peers" where
  "pick_peer_rand show_port io r1 r2 peers_per_request ps =
     (case choose_rand r1 (filter (\<lambda>(_, p). is_candidate p) ps) of
        Some (addr, Some p) \<Rightarrow>
          (case discover_peers (io addr) peers_per_request p of
             (r, p') \<Rightarrow>
               (let ps' = map (\<lambda>(a, q). if a = addr then (a, Some p') else (a, q)) ps
                in case r of
                     Inl e \<Rightarrow> (Inl (PeerDiscoveryError e), ps')
                   | Inr sub_peers \<Rightarrow> (Inr (choose_rand r2 (List.map_filter (v4_text show_port) sub_peers)), ps')))
      | _ \<Rightarrow> (Inr None, ps))"

definition is_peer_exist :: "string \<Rightarrow> peers \<Rightarrow> bool" where
  "is_peer_exist addr ps \<longleftrightarrow> addr \<in> fst ` set ps"

text \<open>\<open>add_peer\<close>; \<open>None\<close> is a connection that takes longer than five seconds.\<close>

definition add_peer :: "u64 \<Rightarrow> connection option \<Rightarrow> string \<Rightarrow> peers \<Rightarrow> peers" where
  "add_peer magic conn addr ps =
     (if is_peer_exist addr ps then ps
      else
        (case conn of
           None \<Rightarrow> ps
         | Some c \<Rightarrow>
             (case peer_init c (peer_new addr magic) of
                (Inr _, new_peer) \<Rightarrow> ps @ [(addr, Some new_peer)]
              | (Inl _, _) \<Rightarrow> ps)))"

definition connected_peers_count :: "peers \<Rightarrow> nat" where
  "connected_peers_count ps = length (filter (\<lambda>(_, p). case p of Some p \<Rightarrow> pe_alive p | None \<Rightarrow> False) ps)"

section \<open>The discovery stage\<close>

record discovery =
  ds_queue :: u8
  ds_peers :: peers

definition discovery_bootstrap :: "peers \<Rightarrow> discovery" where
  "discovery_bootstrap ps = \<lparr>ds_queue = 0, ds_peers = ps\<rparr>"

text \<open>The random choices and network answers of one call of \<open>schedule\<close>.\<close>

record schedule_env =
  sc_relays :: "string list"
  sc_relay_pick :: nat
  sc_sharing :: "string \<Rightarrow> sharing_io"
  sc_pick1 :: nat
  sc_pick2 :: nat
  sc_coin :: bool

definition discovery_schedule ::
  "bool \<Rightarrow> (u32 \<Rightarrow> string) \<Rightarrow> u8 \<Rightarrow> u8 \<Rightarrow> schedule_env \<Rightarrow> (discovery, worker_error fault, string schedule) sx" where
  "discovery_schedule oc show_port desired_count peers_per_request e s =
     (case sub_oc oc (ucast desired_count :: usize) (of_nat (connected_peers_count (ds_peers s))) of
        Inl f \<Rightarrow> (Inl f, s)
      | Inr additional_peers_required \<Rightarrow>
          if ds_queue s < ucast additional_peers_required then
            (let from_pool_relay = choose_rand (sc_relay_pick e) (sc_relays e) in
             case pick_peer_rand show_port (sc_sharing e) (sc_pick1 e) (sc_pick2 e) peers_per_request (ds_peers s) of
               (Inl _, ps) \<Rightarrow> (Inl (Err WorkerRetry), s\<lparr>ds_peers := ps\<rparr>)
             | (Inr from_peer_discovery, ps) \<Rightarrow>
                 (case (if sc_coin e then from_pool_relay else from_peer_discovery) of
                    Some peer_addr \<Rightarrow>
                      (case add_oc oc (ds_queue s) 1 of
                         Inl f \<Rightarrow> (Inl f, s\<lparr>ds_peers := ps\<rparr>)
                       | Inr q \<Rightarrow> (Inr (Unit peer_addr), s\<lparr>ds_peers := ps, ds_queue := q\<rparr>))
                  | None \<Rightarrow> (Inr Idle, s\<lparr>ds_peers := ps\<rparr>)))
          else (Inr Idle, s))"

definition discovery_execute ::
  "bool \<Rightarrow> u64 \<Rightarrow> connection option \<Rightarrow> string \<Rightarrow> (discovery, worker_error fault, unit) sx" where
  "discovery_execute oc magic conn addr s =
     (let s' = s\<lparr>ds_peers := add_peer magic conn addr (ds_peers s)\<rparr>
      in case sub_oc oc (ds_queue s') 1 of
           Inl f \<Rightarrow> (Inl f, s')
         | Inr q \<Rightarrow> (Inr (), s'\<lparr>ds_queue := q\<rparr>))"

text \<open>One round of the runtime: a schedule, and an execute when there is a unit.\<close>

definition discovery_round ::
  "bool \<Rightarrow> (u32 \<Rightarrow> string) \<Rightarrow> u64 \<Rightarrow> u8 \<Rightarrow> u8 \<Rightarrow> schedule_env \<times> connection option \<Rightarrow>
   (discovery, worker_error fault, unit) sx" where
  "discovery_round oc show_port magic desired_count peers_per_request ec =
     sx_bind (discovery_schedule oc show_port desired_count peers_per_request (fst ec)) (\<lambda>w.
     case w of Idle \<Rightarrow> sx_return () | Unit addr \<Rightarrow> discovery_execute oc magic (snd ec) addr)"

fun discovery_rounds ::
  "bool \<Rightarrow> (u32 \<Rightarrow> string) \<Rightarrow> u64 \<Rightarrow> u8 \<Rightarrow> u8 \<Rightarrow> (schedule_env \<times> connection option) list \<Rightarrow> discovery \<Rightarrow>
   worker_error fault option \<times> discovery" where
  "discovery_rounds oc show_port magic desired_count n [] s = (None, s)"
| "discovery_rounds oc show_port magic desired_count n (ec # ecs) s =
     (case discovery_round oc show_port magic desired_count n ec s of
        (Inl Panic, s') \<Rightarrow> (Some Panic, s')
      | (_, s') \<Rightarrow> discovery_rounds oc show_port magic desired_count n ecs s')"

section \<open>Facts about the manager\<close>

definition peers_wf :: "peers \<Rightarrow> bool" where
  "peers_wf ps \<longleftrightarrow> distinct (map fst ps) \<and> (\<forall>(a, p)\<in>set ps. \<forall>q. p = Some q \<longrightarrow> pe_addr q = a)"

lemma manager_new_wf: "peers_wf (manager_new as)"
  by (auto simp: peers_wf_def manager_new_def o_def)

lemma peer_init_cases:
  "peer_init c p = (if c = Established then (Inr (), p\<lparr>pe_connected := True, pe_alive := True\<rparr>) else (Inl Initialization, p))"
  by (cases c) (simp_all add: peer_init_def)

lemma add_peer_cases:
  "add_peer magic conn addr ps =
     (if \<not> is_peer_exist addr ps \<and> conn = Some Established
      then ps @ [(addr, Some ((peer_new addr magic)\<lparr>pe_connected := True, pe_alive := True\<rparr>))] else ps)"
  by (auto simp: add_peer_def peer_init_cases split: option.splits)

lemma add_peer_wf: "peers_wf ps \<Longrightarrow> peers_wf (add_peer magic conn addr ps)"
  by (auto simp: add_peer_cases peers_wf_def is_peer_exist_def peer_new_def)

lemma add_peer_count:
  "connected_peers_count (add_peer magic conn addr ps) =
     connected_peers_count ps + (if \<not> is_peer_exist addr ps \<and> conn = Some Established then 1 else 0)"
  by (simp add: add_peer_cases connected_peers_count_def)

lemma discover_peers_alive: "discover_peers io n p = (r, p') \<Longrightarrow> pe_alive p' = pe_alive p \<and> pe_addr p' = pe_addr p"
  by (auto simp: discover_peers_def split: if_splits option.splits)

lemma replace_count:
  assumes "distinct (map fst ps)" "(addr, Some p) \<in> set ps" "pe_alive p' = pe_alive p"
  shows "connected_peers_count (map (\<lambda>(a, q). if a = addr then (a, Some p') else (a, q)) ps) = connected_peers_count ps"
  using assms
proof (induction ps)
  case (Cons x ps)
  show ?case
  proof (cases "x = (addr, Some p)")
    case True
    with Cons.prems have "map (\<lambda>(a, q). if a = addr then (a, Some p') else (a, q)) ps = ps"
      by (intro map_idI) force
    with True Cons.prems(3) show ?thesis by (simp add: connected_peers_count_def)
  next
    case False
    with Cons.prems have m: "(addr, Some p) \<in> set ps" and d: "distinct (map fst ps)" by auto
    from m have "addr \<in> fst ` set ps" by (rule image_eqI [rotated]) simp
    with Cons.prems(1) have "fst x \<noteq> addr" by (auto simp: image_iff)
    with Cons.IH [OF d m Cons.prems(3)] show ?thesis
      by (cases x) (simp add: connected_peers_count_def)
  qed
qed simp

lemma choose_in: "choose_rand r xs = Some x \<Longrightarrow> x \<in> set xs"
  by (auto simp: choose_rand_def split: if_splits)

lemma pick_peer_rand_cases:
  assumes "pick_peer_rand show_port io r1 r2 n ps = (r, ps')"
  obtains (none) "ps' = ps" "r = Inr None"
  | (ask) addr p dr p' where "(addr, Some p) \<in> set ps" "pe_alive p" "pe_sharing_enabled p"
      "discover_peers (io addr) n p = (dr, p')"
      "ps' = map (\<lambda>(a, q). if a = addr then (a, Some p') else (a, q)) ps"
proof (cases "choose_rand r1 (filter (\<lambda>(_, p). is_candidate p) ps)")
  case None
  with assms show ?thesis by (intro none) (simp_all add: pick_peer_rand_def)
next
  case (Some x)
  obtain addr q where x: "x = (addr, q)" by fastforce
  from choose_in [OF Some] x have m: "(addr, q) \<in> set ps" "is_candidate q" by simp_all
  from m(2) obtain p where q: "q = Some p" "pe_alive p" "pe_sharing_enabled p"
    by (cases q) (simp_all add: is_candidate_def)
  obtain dr p' where d: "discover_peers (io addr) n p = (dr, p')" by fastforce
  have e: "ps' = map (\<lambda>(a, q). if a = addr then (a, Some p') else (a, q)) ps"
    using assms Some x q d by (cases dr) (simp_all add: pick_peer_rand_def Let_def)
  from m(1) q(1) have "(addr, Some p) \<in> set ps" by simp
  from ask [OF this q(2,3) d e] show ?thesis .
qed

lemma replace_wf:
  assumes "peers_wf ps" "pe_addr p' = addr"
  shows "peers_wf (map (\<lambda>(a, q). if a = addr then (a, Some p') else (a, q)) ps)"
proof -
  have "map fst (map (\<lambda>(a, q). if a = addr then (a, Some p') else (a, q)) ps) = map fst ps"
    by (simp add: case_prod_beta)
  with assms show ?thesis unfolding peers_wf_def by (simp only:) (auto split: if_splits)
qed

lemma pick_peer_rand_keeps:
  assumes "pick_peer_rand show_port io r1 r2 n ps = (r, ps')" "peers_wf ps"
  shows "peers_wf ps' \<and> map fst ps' = map fst ps \<and> connected_peers_count ps' = connected_peers_count ps"
  using assms(1)
proof (cases rule: pick_peer_rand_cases)
  case none
  with assms(2) show ?thesis by simp
next
  case (ask addr p dr p')
  note d' = discover_peers_alive [OF ask(4)]
  have "pe_addr p' = addr" using assms(2) ask(1) d' by (auto simp: peers_wf_def)
  then have "peers_wf ps'" using assms(2) unfolding ask(5) by (intro replace_wf)
  moreover have "map fst ps' = map fst ps" unfolding ask(5) by (simp add: case_prod_beta)
  moreover have "connected_peers_count ps' = connected_peers_count ps"
    unfolding ask(5) using assms(2) ask(1) d' by (intro replace_count) (auto simp: peers_wf_def)
  ultimately show ?thesis by blast
qed

text \<open>The number of missing peers, computed in 64 bits and cast to 8, is exact while the count does
  not exceed the desired one.\<close>

lemma required_le:
  fixes d :: u8 assumes "c \<le> unat d"
  shows "(of_nat c :: usize) \<le> ucast d" "unat (ucast d - of_nat c :: usize) = unat d - c"
proof -
  have d: "unat d < 256" using unsigned_less [of d] by simp
  have u: "unat (ucast d :: usize) = unat d"
    by (simp add: unsigned_ucast_eq take_bit_nat_eq_self_iff) (use d in simp)
  have c: "unat (of_nat c :: usize) = c" using assms d by (simp add: unat_of_nat)
  show le: "(of_nat c :: usize) \<le> ucast d" using assms by (simp add: word_le_nat_alt u c)
  show "unat (ucast d - of_nat c :: usize) = unat d - c"
    using unat_sub_exact [OF le] u c by simp
qed
lemma required_u8:
  fixes d :: u8 assumes "c \<le> unat d"
  shows "unat (ucast (ucast d - of_nat c :: usize) :: u8) = unat d - c"
proof -
  have d: "unat d < 256" using unsigned_less [of d] by simp
  then show ?thesis using required_le(2) [OF assms]
    by (simp add: unsigned_ucast_eq take_bit_nat_eq_self_iff)
qed

definition discovery_good :: "u8 \<Rightarrow> discovery \<Rightarrow> bool" where
  "discovery_good desired_count s \<longleftrightarrow>
     peers_wf (ds_peers s) \<and> ds_queue s = 0 \<and> connected_peers_count (ds_peers s) \<le> unat desired_count"

lemma discovery_schedule_good:
  assumes "discovery_good d s" "discovery_schedule oc show_port d n e s = (r, s')"
  shows "peers_wf (ds_peers s') \<and> map fst (ds_peers s') = map fst (ds_peers s)
    \<and> connected_peers_count (ds_peers s') = connected_peers_count (ds_peers s)
    \<and> (r = Inl (Err WorkerRetry) \<and> ds_queue s' = 0 \<or> r = Inr Idle \<and> ds_queue s' = 0
       \<or> (\<exists>a. r = Inr (Unit a)) \<and> ds_queue s' = 1 \<and> connected_peers_count (ds_peers s) < unat d)"
proof -
  let ?c = "connected_peers_count (ds_peers s)"
  from assms(1) have wf: "peers_wf (ds_peers s)" and q: "ds_queue s = 0" and c: "?c \<le> unat d"
    by (simp_all add: discovery_good_def)
  note sub = sub_oc_exact [OF required_le(1) [OF c], of oc]
  show ?thesis
  proof (cases "0 < (ucast (ucast d - of_nat ?c :: usize) :: u8)")
    case False
    with assms(2) wf q show ?thesis by (auto simp: discovery_schedule_def sub)
  next
    case True
    then have lt: "?c < unat d" using required_u8 [OF c] by (simp add: word_less_nat_alt)
    obtain pr ps where p:
      "pick_peer_rand show_port (sc_sharing e) (sc_pick1 e) (sc_pick2 e) n (ds_peers s) = (pr, ps)" by fastforce
    have one: "add_oc oc (0 :: u8) 1 = Inr 1" by (simp add: add_oc_def)
    show ?thesis using assms(2) True q p lt pick_peer_rand_keeps [OF p wf]
      by (auto simp: discovery_schedule_def Let_def sub one split: sum.splits option.splits)
  qed
qed

lemma discovery_round_good:
  assumes "discovery_good d s" "discovery_round oc show_port magic d n ec s = (r, s')"
  shows "discovery_good d s' \<and> r \<noteq> Inl Panic
    \<and> connected_peers_count (ds_peers s) \<le> connected_peers_count (ds_peers s')"
proof -
  obtain sr t where sch: "discovery_schedule oc show_port d n (fst ec) s = (sr, t)" by fastforce
  note g = discovery_schedule_good [OF assms(1) sch]
  show ?thesis
  proof (cases "\<exists>a. sr = Inr (Unit a)")
    case True
    then obtain a where a: "sr = Inr (Unit a)" ..
    with g have q: "ds_queue t = 1" and lt: "connected_peers_count (ds_peers s) < unat d"
      and w: "peers_wf (ds_peers t)" and c: "connected_peers_count (ds_peers t) = connected_peers_count (ds_peers s)"
      by auto
    have "discovery_execute oc magic (snd ec) a t = (r, s')"
      using assms(2) sch a by (simp add: discovery_round_def sx_bind_def)
    then have "r = Inr ()" "s' = t\<lparr>ds_peers := add_peer magic (snd ec) a (ds_peers t), ds_queue := 0\<rparr>"
      using q by (auto simp: discovery_execute_def Let_def sub_oc_def)
    with lt w c show ?thesis by (simp add: discovery_good_def add_peer_wf add_peer_count)
  next
    case False
    with g assms sch show ?thesis
      by (auto simp: discovery_round_def sx_bind_def sx_return_def discovery_good_def)
  qed
qed

lemma discovery_rounds_good:
  "discovery_good d s \<Longrightarrow> \<exists>s'. discovery_rounds oc show_port magic d n ecs s = (None, s') \<and> discovery_good d s'
     \<and> connected_peers_count (ds_peers s) \<le> connected_peers_count (ds_peers s')"
proof (induction ecs arbitrary: s)
  case (Cons ec ecs)
  obtain r t where r: "discovery_round oc show_port magic d n ec s = (r, t)" by fastforce
  note g = discovery_round_good [OF Cons.prems r]
  then obtain s' where "discovery_rounds oc show_port magic d n ecs t = (None, s')" "discovery_good d s'"
    "connected_peers_count (ds_peers t) \<le> connected_peers_count (ds_peers s')"
    using Cons.IH by blast
  with g r show ?case by (auto split: sum.splits fault.splits)
qed simp

lemma discover_peers_sharing:
  "discover_peers io n p = (r, p') \<Longrightarrow> pe_sharing_enabled p' \<Longrightarrow> pe_sharing_enabled p"
  by (auto simp: discover_peers_def split: if_splits option.splits)

definition sharing_candidates :: "peers \<Rightarrow> string set" where
  "sharing_candidates ps = {a. \<exists>p. (a, p) \<in> set ps \<and> is_candidate p}"

lemma add_peer_candidates: "sharing_candidates (add_peer magic conn a ps) = sharing_candidates ps"
  by (auto simp: add_peer_cases sharing_candidates_def is_candidate_def peer_new_def)

lemma pick_peer_rand_candidates:
  assumes "pick_peer_rand show_port io r1 r2 n ps = (r, ps')"
  shows "sharing_candidates ps' \<subseteq> sharing_candidates ps"
  using assms
proof (cases rule: pick_peer_rand_cases)
  case (ask addr p dr p')
  have "is_candidate (Some p)" using ask(2,3) by (simp add: is_candidate_def)
  with ask(1) show ?thesis unfolding ask(5)
    by (auto simp: sharing_candidates_def split: if_splits)
qed simp

lemma discovery_schedule_candidates:
  assumes "discovery_schedule oc show_port d n e s = (r, s')"
  shows "sharing_candidates (ds_peers s') \<subseteq> sharing_candidates (ds_peers s)"
proof -
  obtain pr ps where p:
    "pick_peer_rand show_port (sc_sharing e) (sc_pick1 e) (sc_pick2 e) n (ds_peers s) = (pr, ps)" by fastforce
  have "ds_peers s' = ds_peers s \<or> ds_peers s' = ps"
    using assms p by (auto simp: discovery_schedule_def Let_def split: sum.splits option.splits if_splits)
  with pick_peer_rand_candidates [OF p] show ?thesis by auto
qed

lemma discovery_execute_peers:
  "ds_peers (snd (discovery_execute oc magic conn a s)) = add_peer magic conn a (ds_peers s)"
  by (simp add: discovery_execute_def Let_def split: sum.split)

lemma discovery_round_candidates:
  "sharing_candidates (ds_peers (snd (discovery_round oc show_port magic d n ec s))) \<subseteq> sharing_candidates (ds_peers s)"
proof -
  obtain r t where t: "discovery_schedule oc show_port d n (fst ec) s = (r, t)" by fastforce
  note discovery_schedule_candidates [OF t]
  then show ?thesis using t
    by (auto simp: discovery_round_def sx_bind_def sx_return_def discovery_execute_peers add_peer_candidates
        split: sum.splits schedule.splits)
qed

lemma manager_init_all:
  assumes "\<forall>a\<in>fst ` set ps. tables a \<noteq> None \<and> connect a = Established"
  shows "\<exists>ps'. manager_init magic tables connect ps = (Inr (), ps') \<and> map fst ps' = map fst ps
    \<and> connected_peers_count ps' = length ps
    \<and> ps' = map (\<lambda>(a, _). (a, Some ((peer_new a magic)\<lparr>pe_sharing_enabled :=
        query_peer_sharing_mode (tables a) = Inr True, pe_connected := True, pe_alive := True\<rparr>))) ps"
  using assms
proof (induction ps)
  case (Cons x ps)
  obtain a old where x: "x = (a, old)" by fastforce
  with Cons.prems obtain vt where vt: "tables a = Some vt" "connect a = Established" by auto
  obtain b where b: "query_peer_sharing_mode (tables a) = Inr b"
    using vt by (cases "max_version vt") (auto simp: query_peer_sharing_mode_def)
  from Cons.IH Cons.prems obtain ps' where "manager_init magic tables connect ps = (Inr (), ps')"
    "map fst ps' = map fst ps" "connected_peers_count ps' = length ps"
    "ps' = map (\<lambda>(a, _). (a, Some ((peer_new a magic)\<lparr>pe_sharing_enabled :=
        query_peer_sharing_mode (tables a) = Inr True, pe_connected := True, pe_alive := True\<rparr>))) ps" by auto
  with x b vt(2) show ?case by (simp add: peer_init_cases connected_peers_count_def)
qed (simp add: connected_peers_count_def)

lemma surplus_u8:
  fixes d :: u8 assumes "unat d < c" "(c - unat d) mod 256 \<noteq> 0"
  shows "(ucast (ucast d - of_nat c :: usize) :: u8) \<noteq> 0"
proof
  assume z: "(ucast (ucast d - of_nat c :: usize) :: u8) = 0"
  have "(ucast d - of_nat c :: usize) = word_of_int (uint d - int c)"
  proof -
    have "(ucast d :: usize) = word_of_int (uint d)" by (rule ucast_eq)
    moreover have "(of_nat c :: usize) = word_of_int (int c)" by (simp only: of_int_of_nat_eq)
    ultimately show ?thesis by (simp only: of_int_diff)
  qed
  moreover have "ucast (word_of_int (uint d - int c) :: usize) = (word_of_int (uint d - int c) :: u8)"
    by (rule ucast_down_wi) (simp add: is_down)
  ultimately have "(word_of_int (uint d - int c) :: u8) = 0" using z by (simp only:)
  then have "256 dvd (uint d - int c)" unfolding word_of_int_eq_0_iff by simp
  then have "256 dvd (int c - int (unat d))" by (simp add: dvd_diff_commute)
  moreover have "int c - int (unat d) = int (c - unat d)" using assms(1) by simp
  ultimately have "int 256 dvd int (c - unat d)" by simp
  then have "256 dvd c - unat d" unfolding int_dvd_int_iff .
  with assms(2) show False by (simp add: mod_eq_0_iff_dvd)
qed

section \<open>Properties\<close>

text \<open>Adding a peer keeps the addresses of the manager distinct and every peer stored under its own
  address; an address that is already there is left alone, whatever its state, so that adding it is
  without effect; the number of connected peers grows by one exactly when the address is new and the
  connection is established in time, and is otherwise unchanged.\<close>

theorem add_peer_once:
  assumes "peers_wf ps"
  shows "peers_wf (add_peer magic conn addr ps)
    \<and> (\<forall>a p. (a, p) \<in> set ps \<longrightarrow> (a, p) \<in> set (add_peer magic conn addr ps))
    \<and> (is_peer_exist addr ps \<longrightarrow> add_peer magic conn addr ps = ps)
    \<and> connected_peers_count (add_peer magic conn addr ps) =
        connected_peers_count ps + (if \<not> is_peer_exist addr ps \<and> conn = Some Established then 1 else 0)"
  using add_peer_wf [OF assms] by (simp add: add_peer_count) (simp add: add_peer_cases)

theorem add_peer_once_witness:
  "connected_peers_count (add_peer 2 (Some Established) ''relay:3001'' (manager_new [''a:1'', ''b:2''])) = 1"
  using add_peer_once [OF manager_new_wf [of "[''a:1'', ''b:2'']"], of 2 "Some Established" "''relay:3001''"]
  by (simp add: manager_new_def is_peer_exist_def connected_peers_count_def)

text \<open>C18. A manager that starts with no more connected peers than desired never overshoots: in every
  sequence of rounds, whatever the network answers, whatever the random choices and with or without
  overflow checks, the stage never panics, the number of connected peers never falls and never
  exceeds the desired one, and no discovery stays queued.\<close>

theorem discovery_never_overshoots:
  assumes "peers_wf (ds_peers s)" "ds_queue s = 0"
    and "connected_peers_count (ds_peers s) \<le> unat desired"
  shows "\<exists>s'. discovery_rounds oc show_port magic desired n ecs s = (None, s')
    \<and> peers_wf (ds_peers s') \<and> ds_queue s' = 0
    \<and> connected_peers_count (ds_peers s) \<le> connected_peers_count (ds_peers s')
    \<and> connected_peers_count (ds_peers s') \<le> unat desired"
  using discovery_rounds_good [of desired s oc show_port magic n ecs] assms by (auto simp: discovery_good_def)

definition demo_schedule_env :: schedule_env where
  "demo_schedule_env = \<lparr>sc_relays = [''r:1'', ''r:2''], sc_relay_pick = 1,
     sc_sharing = (\<lambda>_. \<lparr>si_agency = True, si_send_ok = True, si_addresses = Some []\<rparr>),
     sc_pick1 = 0, sc_pick2 = 0, sc_coin = True\<rparr>"

theorem discovery_never_overshoots_witness:
  "\<exists>s'. discovery_rounds True (\<lambda>_. []) 2 1 10 (replicate 3 (demo_schedule_env, Some Established)) (discovery_bootstrap []) = (None, s')
    \<and> connected_peers_count (ds_peers s') \<le> 1"
  using discovery_never_overshoots [of "discovery_bootstrap []" 1 True "\<lambda>_. []" 2 10 "replicate 3 (demo_schedule_env, Some Established)"]
  by (auto simp: discovery_bootstrap_def peers_wf_def connected_peers_count_def)

text \<open>A configuration with more reachable peers than \<open>desired_peer_count\<close> breaks the stage.  The
  manager connects all of them, and the first schedule subtracts the larger count from the smaller:
  with overflow checks it panics; without them the difference wraps, so that, unless the surplus is a
  multiple of 256, the stage asks for yet another peer as soon as a relay is chosen.\<close>

theorem surplus_peers_break_discovery:
  assumes "distinct addrs" "unat desired < length addrs" "length addrs < 2 ^ 64"
    and "\<And>a. tables a = Some []" "\<And>a. connect a = Established"
    and "(length addrs - unat desired) mod 256 \<noteq> 0" "sc_relays e \<noteq> []" "sc_coin e"
    and "s = discovery_bootstrap (snd (manager_init magic tables connect (manager_new addrs)))"
  shows "discovery_schedule True show_port desired n e s = (Inl Panic, s)
    \<and> (\<exists>a s'. discovery_schedule False show_port desired n e s = (Inr (Unit a), s'))"
proof -
  let ?c = "connected_peers_count (ds_peers s)"
  obtain ps' where i: "manager_init magic tables connect (manager_new addrs) = (Inr (), ps')"
    "connected_peers_count ps' = length (manager_new addrs)"
    "ps' = map (\<lambda>(a, _). (a, Some ((peer_new a magic)\<lparr>pe_sharing_enabled :=
        query_peer_sharing_mode (tables a) = Inr True, pe_connected := True, pe_alive := True\<rparr>))) (manager_new addrs)"
    using manager_init_all [of "manager_new addrs" tables connect magic] assms(4,5) by auto
  have s: "ds_peers s = ps'" "ds_queue s = 0" by (simp_all add: assms(9) i(1) discovery_bootstrap_def)
  have c: "?c = length addrs" using i(2) assms(1) s by (simp add: manager_new_def distinct_remdups_id)
  have "filter (\<lambda>(_, p). is_candidate p) ps' = []"
    unfolding i(3) by (auto simp: filter_empty_conv is_candidate_def query_peer_sharing_mode_def assms(4))
  then have pick: "\<And>io r1 r2. pick_peer_rand show_port io r1 r2 n ps' = (Inr None, ps')"
    by (simp add: pick_peer_rand_def choose_rand_def)
  have w: "unat (of_nat ?c :: usize) = length addrs" using assms(3) c by (simp add: unat_of_nat)
  have d: "unat (ucast desired :: usize) = unat desired" using required_le(2) [of 0 desired] by simp
  have "(ucast desired :: usize) < of_nat ?c" using assms(2) by (simp add: word_less_nat_alt w d)
  then have panics: "discovery_schedule True show_port desired n e s = (Inl Panic, s)"
    by (simp add: discovery_schedule_def sub_oc_def)
  have "(ucast (ucast desired - of_nat ?c :: usize) :: u8) \<noteq> 0"
    using surplus_u8 [of desired "length addrs"] assms(2,6) c by simp
  then have "0 < (ucast (ucast desired - of_nat ?c :: usize) :: u8)" by (simp add: word_gt_0)
  moreover obtain a where "choose_rand (sc_relay_pick e) (sc_relays e) = Some a"
    using assms(7) by (simp add: choose_rand_def)
  ultimately show ?thesis using panics s pick assms(8)
    by (auto simp: discovery_schedule_def sub_oc_def add_oc_def)
qed

theorem surplus_peers_break_discovery_witness:
  "\<exists>a s'. discovery_schedule False (\<lambda>_. []) 1 10 demo_schedule_env
     (discovery_bootstrap (snd (manager_init 2 (\<lambda>_. Some []) (\<lambda>_. Established) (manager_new [''a'', ''b'']))))
     = (Inr (Unit a), s')"
  using surplus_peers_break_discovery [of "[''a'', ''b'']" 1 "\<lambda>_. Some []" "\<lambda>_. Established" demo_schedule_env _ 2 "\<lambda>_. []" 10,
    OF _ _ _ _ _ _ _ _ refl]
  by (simp add: demo_schedule_env_def)

text \<open>Peers found by discovery are never asked for further peers: a round of the stage can only
  remove addresses from the peers that are alive and share, because an added peer is stored without
  the sharing flag and nothing sets the flag later.\<close>

theorem discovered_peers_never_asked:
  "sharing_candidates (ds_peers (snd (discovery_rounds oc show_port magic desired n ecs s)))
     \<subseteq> sharing_candidates (ds_peers s)"
proof (induction ecs arbitrary: s)
  case (Cons ec ecs)
  obtain r t where r: "discovery_round oc show_port magic desired n ec s = (r, t)" by fastforce
  have t: "sharing_candidates (ds_peers t) \<subseteq> sharing_candidates (ds_peers s)"
    using discovery_round_candidates [of oc show_port magic desired n ec s] r by simp
  show ?case
  proof (cases "r = Inl Panic")
    case True
    with r t show ?thesis by simp
  next
    case False
    with r have "discovery_rounds oc show_port magic desired n (ec # ecs) s = discovery_rounds oc show_port magic desired n ecs t"
      by (auto split: sum.splits fault.splits)
    with Cons.IH [of t] t show ?thesis by auto
  qed
qed simp

end
