(* ===== verification/Node_Startup.thy ===== *)
theory Node_Startup
  imports Pipeline_System Peer_Discovery
begin

text \<open>
  How a node starts: the configuration (\<open>Config\<close> of \<^verbatim>\<open>src/main.rs\<close>), \<open>main\<close> up to the pipeline, and
  \<open>run\<close> of \<^verbatim>\<open>src/pipeline/mod.rs\<close>, which connects the peers and the signer and builds the stages.  Reading
  the files, opening the connections and spawning the threads are parameters or left out; what they
  return decides whether the node starts and with which state.
\<close>

section \<open>Configuration\<close>

record peer_manager_config =
  pm_peers :: "string list"
  pm_desired_peer_count :: u8
  pm_peers_per_request :: u8

record signing_config =
  sc_api_addr :: string
  sc_token :: string
  sc_path :: string
  sc_key :: string

record config =
  cf_peer_manager :: peer_manager_config
  cf_retry_slot_diff :: u64
  cf_queues :: queue_set
  cf_signing :: "signing_config option"

text \<open>A sequence read into the set of queues: an entry whose name is already there is dropped.\<close>

definition read_queues :: "queue_config list \<Rightarrow> queue_set" where
  "read_queues qs = fold queues_insert qs []"

text \<open>\<open>Config::new\<close>, from what the sources deserialize to.\<close>

definition config_new :: "'e + config \<Rightarrow> 'e + config" where
  "config_new built =
     (case built of
        Inl e \<Rightarrow> Inl e
      | Inr config \<Rightarrow>
          Inr (if \<exists>q\<in>set (cf_queues config). qc_name q = DEFAULT_QUEUE then config
               else config\<lparr>cf_queues := queues_insert queue_config_default (cf_queues config)\<rparr>))"

section \<open>Starting\<close>

text \<open>\<open>HashicorpVaultClient::new\<close>; \<open>settings\<close> and \<open>client\<close> are the constructors of the vault library.\<close>

definition vault_new ::
  "(string \<Rightarrow> string \<Rightarrow> 's option) \<Rightarrow> ('s \<Rightarrow> 'c option) \<Rightarrow> signing_config \<Rightarrow> signing_error + 'c \<times> signing_config" where
  "vault_new settings client cfg =
     (case settings (sc_api_addr cfg) (sc_token cfg) of
        None \<Rightarrow> Inl ConfigError
      | Some st \<Rightarrow> (case client st of None \<Rightarrow> Inl ClientError | Some c \<Rightarrow> Inr (c, cfg)))"

text \<open>\<open>transpose\<close> of an optional result.\<close>

definition transpose_option :: "('e + 'a) option \<Rightarrow> 'e + 'a option" where
  "transpose_option r = (case r of None \<Rightarrow> Inr None | Some (Inl e) \<Rightarrow> Inl e | Some (Inr x) \<Rightarrow> Inr (Some x))"

datatype start_error = PeerManagerFailed manager_error | SigningFailed signing_error

record 'c pipeline =
  pp_peers :: peers
  pp_discovery :: discovery
  pp_signer :: "('c \<times> signing_config) option"
  pp_relays :: "string list"
  pp_queues :: queue_set
  pp_diff :: u64

text \<open>\<open>run\<close> up to the daemon: any peer that cannot be reached and a bad vault configuration end it.\<close>

definition pipeline_run ::
  "(string \<Rightarrow> (u64 \<times> u8 option) list option) \<Rightarrow> (string \<Rightarrow> connection) \<Rightarrow>
   (string \<Rightarrow> string \<Rightarrow> 's option) \<Rightarrow> ('s \<Rightarrow> 'c option) \<Rightarrow> config \<Rightarrow> start_error + 'c pipeline" where
  "pipeline_run tables connect settings client config =
     (case manager_init 2 tables connect (manager_new (pm_peers (cf_peer_manager config))) of
        (Inl e, _) \<Rightarrow> Inl (PeerManagerFailed e)
      | (Inr _, peer_manager) \<Rightarrow>
          (case transpose_option (map_option (vault_new settings client) (cf_signing config)) of
             Inl e \<Rightarrow> Inl (SigningFailed e)
           | Inr signing_adapter \<Rightarrow>
               Inr \<lparr>pp_peers = peer_manager, pp_discovery = discovery_bootstrap peer_manager,
                    pp_signer = signing_adapter, pp_relays = mock_relays, pp_queues = cf_queues config,
                    pp_diff = cf_retry_slot_diff config\<rparr>))"

text \<open>\<open>From<Cursor> for Point\<close>, and the point from which \<open>main\<close> lets the ledger adapter follow the chain.\<close>

definition cursor_point :: "Cursor \<Rightarrow> point" where
  "cursor_point c = (cursor_slot c, cursor_hash c)"

definition start_point :: "point option sql" where
  "start_point = sx_bind cursor_current (\<lambda>c. sx_return (map_option cursor_point c))"

section \<open>The set of queues\<close>

lemma find_snoc: "find P (xs @ [x]) = (case find P xs of Some y \<Rightarrow> Some y | None \<Rightarrow> if P x then Some x else None)"
  by (induction xs) auto

lemma queues_insert_get:
  "queues_get (queues_insert c qs) name =
     (case queues_get qs name of Some q \<Rightarrow> Some q | None \<Rightarrow> if qc_name c = name then Some c else None)"
proof (cases "\<exists>q\<in>set qs. qc_name q = qc_name c")
  case True
  then have "queues_insert c qs = qs" by (simp add: queues_insert_def queue_config_eq_def)
  moreover from True have "qc_name c \<in> qc_name ` set qs" by (metis image_eqI)
  then have "queues_get qs (qc_name c) \<noteq> None" by (simp add: queues_get_None_iff)
  ultimately show ?thesis by (auto split: option.splits)
next
  case False
  then have "queues_insert c qs = qs @ [c]" by (auto simp: queues_insert_def queue_config_eq_def)
  then show ?thesis by (simp add: queues_get_def find_snoc)
qed

lemma read_queues_get:
  "queues_get (fold queues_insert xs qs) name =
     (case queues_get qs name of Some q \<Rightarrow> Some q | None \<Rightarrow> find (\<lambda>c. qc_name c = name) xs)"
  by (induction xs arbitrary: qs) (auto simp: queues_insert_get split: option.splits)

lemma read_queues_wf: "queues_wf qs \<Longrightarrow> queues_wf (fold queues_insert xs qs)"
  by (induction xs arbitrary: qs) (auto intro: queues_insert_wf)

section \<open>Connecting the peers\<close>

lemma manager_init_step:
  assumes "manager_init magic tables connect ((addr, old) # rest) = (Inr (), ps')"
  shows "tables addr \<noteq> None \<and> connect addr = Established \<and> (\<exists>rest'. manager_init magic tables connect rest = (Inr (), rest'))"
proof (cases "query_peer_sharing_mode (tables addr)")
  case (Inr sharing)
  obtain r rest' where r: "manager_init magic tables connect rest = (r, rest')" by fastforce
  have "connect addr = Established"
    using assms Inr by (cases "connect addr = Established") (simp_all add: peer_init_cases)
  moreover from this have "r = Inr ()" using assms Inr r by (simp add: peer_init_cases)
  moreover have "tables addr \<noteq> None" using Inr by (cases "tables addr") (simp_all add: query_peer_sharing_mode_def)
  ultimately show ?thesis using r by simp
qed (use assms in simp)

lemma manager_init_reached:
  "manager_init magic tables connect ps = (Inr (), ps') \<Longrightarrow>
   \<forall>a\<in>fst ` set ps. tables a \<noteq> None \<and> connect a = Established"
proof (induction ps arbitrary: ps')
  case (Cons x ps)
  obtain addr old where x: "x = (addr, old)" by fastforce
  from manager_init_step Cons x show ?case by fastforce
qed simp

lemma manager_new_keys: "fst ` set (manager_new as) = set as" "length (manager_new as) = length (remdups as)"
  by (auto simp: manager_new_def image_image)

section \<open>Properties of the start\<close>

text \<open>The configured queues.  Whatever queues the configuration lists, and in whatever order: the set of
  queues has one entry per name, the first one listed under it, and it has the default queue, with its
  default weight, not chained and without server signing unless the configuration says otherwise; nothing
  else is added.\<close>

theorem config_queues_exact:
  assumes "config_new (Inr c) = Inr c'" "cf_queues c = read_queues qs"
  shows "queues_wf (cf_queues c') \<and>
    (\<forall>name. queues_get (cf_queues c') name =
       (case find (\<lambda>q. qc_name q = name) qs of
          Some q \<Rightarrow> Some q
        | None \<Rightarrow> if name = DEFAULT_QUEUE then Some queue_config_default else None))"
proof -
  have wf: "queues_wf (read_queues qs)" unfolding read_queues_def by (rule read_queues_wf) (simp add: queues_wf_def)
  have get: "queues_get (read_queues qs) name = find (\<lambda>q. qc_name q = name) qs" for name
    by (simp add: read_queues_def read_queues_get) (simp add: queues_get_def)
  have d: "(\<exists>q\<in>set (read_queues qs). qc_name q = DEFAULT_QUEUE) \<longleftrightarrow> queues_get (read_queues qs) DEFAULT_QUEUE \<noteq> None"
    unfolding queues_get_None_iff by (metis (no_types, opaque_lifting) image_iff)
  have n: "qc_name queue_config_default = DEFAULT_QUEUE" by (simp add: queue_config_default_def)
  show ?thesis
  proof (cases "\<exists>q\<in>set (read_queues qs). qc_name q = DEFAULT_QUEUE")
    case True
    with assms have "cf_queues c' = read_queues qs" by (simp add: config_new_def split: if_splits)
    with True wf d get show ?thesis by (auto split: option.splits)
  next
    case False
    with assms have "cf_queues c' = queues_insert queue_config_default (read_queues qs)"
      by (auto simp: config_new_def split: if_splits)
    with wf get n show ?thesis by (auto simp: queues_insert_wf queues_insert_get split: option.splits)
  qed
qed

definition demo_config :: "queue_config list \<Rightarrow> config" where
  "demo_config qs = \<lparr>cf_peer_manager = \<lparr>pm_peers = [''a:1'', ''b:2''], pm_desired_peer_count = 5, pm_peers_per_request = 10\<rparr>,
     cf_retry_slot_diff = 1000, cf_queues = read_queues qs, cf_signing = None\<rparr>"

theorem config_queues_exact_witness:
  "\<exists>c'. config_new (Inr (demo_config []) :: string + config) = Inr c' \<and>
     queues_get (cf_queues c') DEFAULT_QUEUE = Some queue_config_default"
proof -
  obtain c' where c: "config_new (Inr (demo_config []) :: string + config) = Inr c'"
    by (auto simp: config_new_def)
  from config_queues_exact [OF c, of "[]"] c show ?thesis by (simp add: demo_config_def)
qed

lemma pipeline_run_iff:
  "(\<exists>p. pipeline_run tables connect settings client config = Inr p) \<longleftrightarrow>
     (\<forall>a\<in>set (pm_peers (cf_peer_manager config)). tables a \<noteq> None \<and> connect a = Established) \<and>
     (\<forall>cfg. cf_signing config = Some cfg \<longrightarrow> (\<exists>s. vault_new settings client cfg = Inr s))"
  (is "?starts \<longleftrightarrow> ?peers \<and> ?signer")
proof -
  let ?ps = "manager_new (pm_peers (cf_peer_manager config))"
  have signer: "(\<exists>s. transpose_option (map_option (vault_new settings client) (cf_signing config)) = Inr s) \<longleftrightarrow> ?signer"
    by (auto simp: transpose_option_def split: option.splits sum.splits)
  have "?starts \<longleftrightarrow> (\<exists>ps'. manager_init 2 tables connect ?ps = (Inr (), ps')) \<and>
      (\<exists>s. transpose_option (map_option (vault_new settings client) (cf_signing config)) = Inr s)"
    by (auto simp: pipeline_run_def split: prod.splits sum.splits)
  moreover have "(\<exists>ps'. manager_init 2 tables connect ?ps = (Inr (), ps')) \<longleftrightarrow> ?peers"
    using manager_init_all [of ?ps tables connect 2] manager_init_reached [of 2 tables connect ?ps]
    unfolding manager_new_keys by auto
  ultimately show ?thesis using signer by simp
qed

lemma pipeline_run_state:
  assumes "pipeline_run tables connect settings client config = Inr p"
  shows "peers_wf (pp_peers p) \<and> ds_queue (pp_discovery p) = 0 \<and> ds_peers (pp_discovery p) = pp_peers p \<and>
    connected_peers_count (pp_peers p) = length (remdups (pm_peers (cf_peer_manager config)))"
proof -
  let ?ps = "manager_new (pm_peers (cf_peer_manager config))"
  from assms have all: "\<forall>a\<in>fst ` set ?ps. tables a \<noteq> None \<and> connect a = Established"
    unfolding manager_new_keys using pipeline_run_iff [of tables connect settings client config] by blast
  then obtain ps' where i: "manager_init 2 tables connect ?ps = (Inr (), ps')" "map fst ps' = map fst ?ps"
    "connected_peers_count ps' = length ?ps"
    "ps' = map (\<lambda>(a, _). (a, Some ((peer_new a 2)\<lparr>pe_sharing_enabled :=
        query_peer_sharing_mode (tables a) = Inr True, pe_connected := True, pe_alive := True\<rparr>))) ?ps"
    using manager_init_all [OF all, of 2] by blast
  from assms i(1) have p: "pp_peers p = ps'" "pp_discovery p = discovery_bootstrap ps'"
    by (auto simp: pipeline_run_def split: sum.splits)
  have "distinct (map fst ps')" unfolding i(2) using manager_new_wf by (simp add: peers_wf_def)
  moreover have "\<forall>(a, q)\<in>set ps'. \<forall>x. q = Some x \<longrightarrow> pe_addr x = a" unfolding i(4) by (auto simp: peer_new_def)
  ultimately show ?thesis using p i(3) by (simp add: peers_wf_def discovery_bootstrap_def manager_new_keys)
qed

text \<open>The pipeline starts exactly when every configured peer answers the query and the connection and, if
  signing is configured, the vault client can be built; then all configured peers are connected and known under
  distinct addresses, and the discovery stage begins with nothing queued.\<close>

theorem pipeline_starts_iff:
  "((\<exists>p. pipeline_run tables connect settings client config = Inr p) \<longleftrightarrow>
     (\<forall>a\<in>set (pm_peers (cf_peer_manager config)). tables a \<noteq> None \<and> connect a = Established) \<and>
     (\<forall>cfg. cf_signing config = Some cfg \<longrightarrow> (\<exists>s. vault_new settings client cfg = Inr s))) \<and>
   (\<forall>p. pipeline_run tables connect settings client config = Inr p \<longrightarrow>
     peers_wf (pp_peers p) \<and> ds_queue (pp_discovery p) = 0 \<and> ds_peers (pp_discovery p) = pp_peers p \<and>
     connected_peers_count (pp_peers p) = length (remdups (pm_peers (cf_peer_manager config))))"
proof
  show "\<forall>p. pipeline_run tables connect settings client config = Inr p \<longrightarrow>
     peers_wf (pp_peers p) \<and> ds_queue (pp_discovery p) = 0 \<and> ds_peers (pp_discovery p) = pp_peers p \<and>
     connected_peers_count (pp_peers p) = length (remdups (pm_peers (cf_peer_manager config)))"
    by (intro allI impI) (rule pipeline_run_state)
qed (rule pipeline_run_iff)

theorem pipeline_starts_iff_witness:
  "\<exists>p. pipeline_run (\<lambda>_. Some []) (\<lambda>_. Established) (\<lambda>_ _. Some ()) (\<lambda>_. Some ()) (demo_config []) = Inr p"
  using pipeline_starts_iff [of "\<lambda>_. Some []" "\<lambda>_. Established" "\<lambda>_ _. Some ()" "\<lambda>_. Some ()" "demo_config []"]
  by (simp add: demo_config_def)

text \<open>C26. A restart continues where the monitor stopped.  After an event has been processed, starting again on
  the same database reads back the point of the event and asks the ledger service for the chain from there.\<close>

theorem restart_resumes:
  assumes "monitor_ready ev d" "monitor_execute hex oc diff ev d = (Inr (), d')" "no_faults d'"
  shows "\<exists>d''. start_point d' = (Inr (Some (event_point ev)), d'') \<and>
    follow_tip_intersect (Some (event_point ev)) = [event_point ev]"
proof -
  have "cursor_tbl d' = [cursor_row_of (event_point ev)]" "slot_small (Some (fst (event_point ev)))"
    using monitor_execute_cases [OF assms(1,2)] by (auto simp: monitor_ready_def)
  moreover obtain d2 where "stmt d' = (Inr (), d2)" "same_tables d' d2"
    using stmt_no_faults [OF assms(3)] stmt_same_tables by blast
  ultimately show ?thesis
    by (simp add: start_point_def cursor_current_def sx_defs fetch_rows_def cursor_from_row_def cursor_row_of_def
        slot_small_def same_tables_def cursor_point_def follow_tip_intersect_def decode_u64_def)
qed

theorem restart_resumes_witness:
  "\<exists>d'. start_point (snd (monitor_execute (\<lambda>_. ''aa'') True 3 (RollForward (9, [1]) []) (chain_db [flying, settled] []))) =
     (Inr (Some (9, [1])), d')"
proof -
  let ?ev = "RollForward (9, [1]) []" and ?d = "chain_db [flying, settled] []"
  obtain r d' where x: "monitor_execute (\<lambda>_. ''aa'') True 3 ?ev ?d = (r, d')" by fastforce
  have "\<not> stuck True 9 (entries ?d)" by (simp add: stuck_def chain_db_entries)
  then have "r = Inr ()" "no_faults d'"
    using monitor_execute_undisturbed [OF chain_db_ready(1) [of "[]"] chain_db_no_faults,
        where hex = "\<lambda>_. ''aa''" and oc = True and diff = 3] x
    by simp_all
  with restart_resumes [OF chain_db_ready(1) [of "[]"], of "\<lambda>_. ''aa''" True 3 "[]" d'] x show ?thesis by auto
qed

end
