(* ===== verification/Node_Main.thy ===== *)
theory Node_Main
  imports Node_Startup
begin

text \<open>
  \<open>main\<close> of \<^verbatim>\<open>src/main.rs\<close> from the configuration to the running pipeline and server, with \<open>try_new\<close> of the ledger
  adapter (\<^verbatim>\<open>src/ledger/u5c/mod.rs\<close>), \<open>SqliteStorage::new\<close> (\<^verbatim>\<open>src/storage/sqlite.rs\<close>) and \<open>server::run\<close>
  (\<^verbatim>\<open>src/server/mod.rs\<close>).  What the operating system and the libraries answer is the record \<open>main_env\<close>.
\<close>

section \<open>The parts\<close>

text \<open>The configuration with the fields that only \<open>main\<close> reads; the set of queues is completed as before.\<close>

record full_config =
  fc_base :: config
  fc_listen_address :: string
  fc_db_path :: string
  fc_u5c_uri :: string
  fc_u5c_metadata :: "(string \<times> string) list"

definition full_config_new :: "'e + full_config \<Rightarrow> 'e + full_config" where
  "full_config_new built =
     (case built of
        Inl e \<Rightarrow> Inl e
      | Inr c \<Rightarrow> res_bind (config_new (Inr (fc_base c))) (\<lambda>base. Inr (c\<lparr>fc_base := base\<rparr>)))"

text \<open>\<open>SqliteStorage::new\<close>: the address that is opened; the file is created when it is missing.\<close>

definition db_url :: "string \<Rightarrow> string" where
  "db_url path = ''sqlite:'' @ path @ ''?mode=rwc''"

text \<open>\<open>U5cDataAdapterImpl::try_new\<close>\<close>

datatype ledger_start_error = BadUri | TlsFailed | ConnectFailed

record 'h ledger_adapter =
  la_channel :: 'h
  la_metadata :: "(string \<times> string) list"
  la_cursor :: "point option"

definition u5c_try_new ::
  "(string \<Rightarrow> 'u option) \<Rightarrow> ('u \<Rightarrow> 'b option) \<Rightarrow> ('b \<Rightarrow> 'h option) \<Rightarrow> string \<Rightarrow> (string \<times> string) list \<Rightarrow>
   point option \<Rightarrow> ledger_start_error + 'h ledger_adapter" where
  "u5c_try_new parse_uri tls open_channel uri metadata cursor =
     (case parse_uri uri of
        None \<Rightarrow> Inl BadUri
      | Some u \<Rightarrow>
          (case tls u of
             None \<Rightarrow> Inl TlsFailed
           | Some b \<Rightarrow>
               (case open_channel b of
                  None \<Rightarrow> Inl ConnectFailed
                | Some channel \<Rightarrow>
                    Inr \<lparr>la_channel = channel, la_metadata = metadata, la_cursor = cursor\<rparr>)))"

text \<open>\<open>server::run\<close> spawns a task with these parts and returns; when serving ends with an error, for example because the
  address cannot be bound, the task ends the whole process.\<close>

record grpc_server =
  gs_address :: string
  gs_queues :: queue_set
  gs_chaining :: chaining

datatype process = Running | Exited nat

definition server_run :: "full_config \<Rightarrow> chaining \<Rightarrow> grpc_server" where
  "server_run config tx_chaining =
     \<lparr>gs_address = fc_listen_address config, gs_queues = cf_queues (fc_base config), gs_chaining = tx_chaining\<rparr>"

text \<open>What becomes of the process: \<open>None\<close> while the task is serving.\<close>

definition after_serving :: "('e + unit) option \<Rightarrow> process" where
  "after_serving result = (case result of Some (Inl _) \<Rightarrow> Exited 1 | _ \<Rightarrow> Running)"

text \<open>The process beside a server that was started or not.\<close>

definition process_beside :: "(grpc_server \<Rightarrow> ('e + unit) option) \<Rightarrow> grpc_server option \<Rightarrow> process" where
  "process_beside serve server = (case server of None \<Rightarrow> Running | Some srv \<Rightarrow> after_serving (serve srv))"

section \<open>\<open>main\<close>\<close>

record ('s, 'c, 'u, 'b, 'h, 'v) main_env =
  me_open :: "string \<Rightarrow> db option"
  me_migrate :: "unit sql"
  me_parse_uri :: "string \<Rightarrow> 'u option"
  me_tls :: "'u \<Rightarrow> 'b option"
  me_channel :: "'b \<Rightarrow> 'h option"
  me_tables :: "string \<Rightarrow> (u64 \<times> u8 option) list option"
  me_connect :: "string \<Rightarrow> connection"
  me_settings :: "string \<Rightarrow> string \<Rightarrow> 's option"
  me_client :: "'s \<Rightarrow> 'c option"
  me_suspends :: "string \<Rightarrow> bool"
  me_serve :: "grpc_server \<Rightarrow> ('v + unit) option"

datatype main_error =
  StorageFailed | MigrationFailed sql_error | CursorFailed sql_error | LedgerFailed ledger_start_error
  | PipelineFailed start_error

record ('c, 'h) running_node =
  rn_db :: db
  rn_chaining :: chaining
  rn_adapter :: "'h ledger_adapter"
  rn_pipeline :: "'c pipeline"
  rn_server :: "grpc_server option"
  rn_process :: process

text \<open>
  \<open>try_join!\<close> polls the pipeline first, and the server when the pipeline suspends.  Where it can suspend: the only thing
  that \<open>run\<close> of the pipeline waits for before \<open>daemon.block()\<close>, which does not return, is \<open>peer_manager.init()\<close>, that is,
  the answers of the configured peers.  Whether waiting for a peer suspends the task is the argument \<open>me_suspends\<close>.
\<close>

definition pipeline_suspends :: "(string \<Rightarrow> bool) \<Rightarrow> config \<Rightarrow> bool" where
  "pipeline_suspends suspends config \<longleftrightarrow> (\<exists>peer\<in>set (pm_peers (cf_peer_manager config)). suspends peer)"

text \<open>An invalid configuration panics, every other failure ends \<open>main\<close> with an error.\<close>

definition main_run ::
  "('s, 'c, 'u, 'b, 'h, 'v) main_env \<Rightarrow> 'e + full_config \<Rightarrow> (main_error, ('c, 'h) running_node) outcome" where
  "main_run env built =
     (case full_config_new built of
        Inl _ \<Rightarrow> Inl Panic
      | Inr config \<Rightarrow>
     (case me_open env (db_url (fc_db_path config)) of
        None \<Rightarrow> Inl (Err StorageFailed)
      | Some d0 \<Rightarrow>
     (case me_migrate env d0 of
        (Inl e, _) \<Rightarrow> Inl (Err (MigrationFailed e))
      | (Inr _, d1) \<Rightarrow>
     let tx_chaining = chaining_new (cf_queues (fc_base config)) in
     (case start_point d1 of
        (Inl e, _) \<Rightarrow> Inl (Err (CursorFailed e))
      | (Inr cursor, d2) \<Rightarrow>
     (case u5c_try_new (me_parse_uri env) (me_tls env) (me_channel env) (fc_u5c_uri config) (fc_u5c_metadata config) cursor of
        Inl e \<Rightarrow> Inl (Err (LedgerFailed e))
      | Inr adapter \<Rightarrow>
     (case pipeline_run (me_tables env) (me_connect env) (me_settings env) (me_client env) (fc_base config) of
        Inl e \<Rightarrow> Inl (Err (PipelineFailed e))
      | Inr p \<Rightarrow>
          let server = (if pipeline_suspends (me_suspends env) (fc_base config)
                        then Some (server_run config tx_chaining) else None) in
          Inr \<lparr>rn_db = d2, rn_chaining = tx_chaining, rn_adapter = adapter, rn_pipeline = p, rn_server = server,
               rn_process = process_beside (me_serve env) server\<rparr>))))))"

section \<open>What a started node looks like\<close>

lemma main_run_ok:
  assumes "main_run env built = Inr r"
  obtains config d0 d1 cursor p where "full_config_new built = Inr config" "me_open env (db_url (fc_db_path config)) = Some d0"
    "me_migrate env d0 = (Inr (), d1)" "start_point d1 = (Inr cursor, rn_db r)" "la_cursor (rn_adapter r) = cursor"
    "la_metadata (rn_adapter r) = fc_u5c_metadata config"
    "pipeline_run (me_tables env) (me_connect env) (me_settings env) (me_client env) (fc_base config) = Inr (rn_pipeline r)"
    "rn_chaining r = chaining_new (cf_queues (fc_base config))"
    "rn_server r = (if pipeline_suspends (me_suspends env) (fc_base config) then Some (server_run config (rn_chaining r)) else None)"
    "rn_process r = process_beside (me_serve env) (rn_server r)"
  using assms
  by (auto simp: main_run_def u5c_try_new_def Let_def split: sum.splits option.splits prod.splits)

lemma pipeline_run_queues:
  "pipeline_run tables connect settings client config = Inr p \<Longrightarrow> pp_queues p = cf_queues config"
  by (auto simp: pipeline_run_def split: sum.splits prod.splits)

lemma full_config_queues:
  "full_config_new (Inr c :: 'e + full_config) = Inr c' \<Longrightarrow> config_new (Inr (fc_base c) :: 'e + config) = Inr (fc_base c')"
  by (auto simp: full_config_new_def)

lemma config_new_peers: "config_new (Inr c) = Inr c' \<Longrightarrow> cf_peer_manager c' = cf_peer_manager c"
  by (auto simp: config_new_def split: if_splits)

text \<open>Which failure is reported, in the order in which \<open>main\<close> meets them.\<close>

lemma main_run_failures:
  "main_run env (Inl e) = Inl Panic"
  "full_config_new built = Inr config \<Longrightarrow> me_open env (db_url (fc_db_path config)) = None \<Longrightarrow>
   main_run env built = Inl (Err StorageFailed)"
  "full_config_new built = Inr config \<Longrightarrow> me_open env (db_url (fc_db_path config)) = Some d0 \<Longrightarrow>
   me_migrate env d0 = (Inl x, d1) \<Longrightarrow> main_run env built = Inl (Err (MigrationFailed x))"
  "full_config_new built = Inr config \<Longrightarrow> me_open env (db_url (fc_db_path config)) = Some d0 \<Longrightarrow>
   me_migrate env d0 = (Inr (), d1) \<Longrightarrow> start_point d1 = (Inl x, d2) \<Longrightarrow> main_run env built = Inl (Err (CursorFailed x))"
  by (simp_all add: main_run_def full_config_new_def Let_def)


definition demo_main_env :: "(unit, unit, unit, unit, unit, unit) main_env" where
  "demo_main_env = \<lparr>me_open = (\<lambda>_. Some (migrate [] [])), me_migrate = sx_return (), me_parse_uri = (\<lambda>_. Some ()),
     me_tls = Some, me_channel = Some, me_tables = (\<lambda>_. Some []), me_connect = (\<lambda>_. Established),
     me_settings = (\<lambda>_ _. Some ()), me_client = Some,
     me_suspends = (\<lambda>_. True), me_serve = (\<lambda>_. None)\<rparr>"

definition demo_full_config :: full_config where
  "demo_full_config = \<lparr>fc_base = demo_config [], fc_listen_address = ''[::]:50052'', fc_db_path = ''boros.db'',
     fc_u5c_uri = ''http://localhost:50051'', fc_u5c_metadata = []\<rparr>"

lemma demo_main_runs: "\<exists>r. main_run demo_main_env (Inr demo_full_config :: string + full_config) = Inr r"
proof -
  obtain base where base: "config_new (Inr (demo_config []) :: string + config) = Inr base"
    "cf_peer_manager base = cf_peer_manager (demo_config [])" "cf_signing base = None"
    by (auto simp: config_new_def demo_config_def)
  have "\<exists>p. pipeline_run (\<lambda>_. Some []) (\<lambda>_. Established) (\<lambda>_ _. Some ()) (Some :: unit \<Rightarrow> unit option) base = Inr p"
    unfolding pipeline_run_iff using base by simp
  moreover have "start_point (migrate [] []) = (Inr None, migrate [] [])" by code_simp
  ultimately show ?thesis
    using base(1)
    by (auto simp: main_run_def full_config_new_def demo_full_config_def demo_main_env_def sx_return_def u5c_try_new_def Let_def
        simp del: res_bind_eq_Inr)
qed


end
