(* ===== verification/Monitor_Life.thy ===== *)
theory Monitor_Life
  imports Node_Main Monitor_Stage
begin

text \<open>
  The monitor as the runtime lives through it: \<open>bootstrap\<close> opens the chain stream through \<open>stream\<close> of
  \<^verbatim>\<open>src/ledger/u5c/mod.rs\<close>, \<open>schedule\<close> takes its items one by one, \<open>execute\<close> is called until it succeeds, and an error
  of the stream makes the runtime bootstrap the worker again.  The remaining parts of the node share the database and may
  change it at any time, except for the cursor, which only the monitor writes.
\<close>

section \<open>The stream of the adapter\<close>

text \<open>\<open>follow_tip\<close> is the remote call: an error, or the responses that arrive before the service closes the stream.\<close>

definition u5c_stream ::
  "(string \<Rightarrow> string \<Rightarrow> bool) \<Rightarrow> (point list \<Rightarrow> u5c_error + (u5c_error + tip_action option) list) \<Rightarrow> 'h ledger_adapter \<Rightarrow>
   (u5c_error, stream_item list) outcome" where
  "u5c_stream legal follow_tip adapter =
     res_bind (interceptor legal (la_metadata adapter)) (\<lambda>_.
     (case follow_tip (follow_tip_intersect (la_cursor adapter)) of
        Inl e \<Rightarrow> Inl (Err e)
      | Inr tip_stream \<Rightarrow> Inr (chain_events tip_stream)))"

section \<open>The life of the stage\<close>

record 'h life_setup =
  ls_legal :: "string \<Rightarrow> string \<Rightarrow> bool"
  ls_follow :: "nat \<Rightarrow> point list \<Rightarrow> u5c_error + (u5c_error + tip_action option) list"
  ls_adapter :: "'h ledger_adapter"
  ls_hex :: "bytes \<Rightarrow> string"
  ls_oc :: bool
  ls_diff :: u64

datatype monitor_phase = Starting | Following "stream_item list" | Executing Event "stream_item list" | Stopped

record life =
  ml_phase :: monitor_phase
  ml_db :: db
  ml_connections :: nat
  ml_done :: "Event list"

text \<open>\<open>bootstrap\<close> of the \<open>k\<close>-th connection: a failed call becomes an error that ends the stage, and so does a panic.\<close>

definition life_bootstrap :: "'h life_setup \<Rightarrow> nat \<Rightarrow> monitor_phase" where
  "life_bootstrap su k =
     (case u5c_stream (ls_legal su) (ls_follow su k) (ls_adapter su) of
        Inl Panic \<Rightarrow> Stopped
      | Inl (Err e) \<Rightarrow> (case monitor_bootstrap (Inl e :: u5c_error + stream_item list) of Inr items \<Rightarrow> Following items | Inl _ \<Rightarrow> Stopped)
      | Inr items \<Rightarrow> (case monitor_bootstrap (Inr items :: u5c_error + stream_item list) of Inr items' \<Rightarrow> Following items' | Inl _ \<Rightarrow> Stopped))"

text \<open>\<open>schedule\<close>: with nothing to do the stage stays as it is.\<close>

definition life_schedule :: "stream_item list \<Rightarrow> monitor_phase" where
  "life_schedule items =
     (case monitor_schedule items of
        (Inr Idle, rest) \<Rightarrow> Following rest
      | (Inr (Unit ev), rest) \<Rightarrow> Executing ev rest
      | (Inl (Err WorkerRestart), rest) \<Rightarrow> Starting
      | (Inl _, rest) \<Rightarrow> Stopped)"

inductive life_step :: "'h life_setup \<Rightarrow> life \<Rightarrow> life \<Rightarrow> bool" for su :: "'h life_setup" where
  bootstraps:
    "ml_phase s = Starting \<Longrightarrow>
     life_step su s (s\<lparr>ml_phase := life_bootstrap su (ml_connections s), ml_connections := Suc (ml_connections s)\<rparr>)"
| schedules:
    "ml_phase s = Following items \<Longrightarrow> life_step su s (s\<lparr>ml_phase := life_schedule items\<rparr>)"
| executes:
    "ml_phase s = Executing ev rest \<Longrightarrow> monitor_execute (ls_hex su) (ls_oc su) (ls_diff su) ev (ml_db s) = (Inr (), d) \<Longrightarrow>
     life_step su s (s\<lparr>ml_phase := Following rest, ml_db := d, ml_done := ml_done s @ [ev]\<rparr>)"
| retries:
    "ml_phase s = Executing ev rest \<Longrightarrow>
     monitor_execute (ls_hex su) (ls_oc su) (ls_diff su) ev (ml_db s) = (Inl (Err WorkerRetry), d) \<Longrightarrow>
     life_step su s (s\<lparr>ml_db := d\<rparr>)"
| fails:
    "ml_phase s = Executing ev rest \<Longrightarrow>
     monitor_execute (ls_hex su) (ls_oc su) (ls_diff su) ev (ml_db s) = (Inl f, d) \<Longrightarrow>
     life_step su s (s\<lparr>ml_phase := Stopped, ml_db := d\<rparr>)"
| others:
    "db_wf d \<Longrightarrow> slots_wf d \<Longrightarrow> cursor_tbl d = cursor_tbl (ml_db s) \<Longrightarrow> life_step su s (s\<lparr>ml_db := d\<rparr>)"

inductive_cases life_stepE: "life_step su s t"

definition life_init :: "db \<Rightarrow> life \<Rightarrow> bool" where
  "life_init d0 s \<longleftrightarrow> s = \<lparr>ml_phase = Starting, ml_db = d0, ml_connections = 0, ml_done = []\<rparr> \<and> db_wf d0 \<and> slots_wf d0"

definition life_reachable :: "'h life_setup \<Rightarrow> db \<Rightarrow> life \<Rightarrow> bool" where
  "life_reachable su d0 = reach (life_init d0) (life_step su)"

section \<open>The invariant\<close>

text \<open>The chain has slots that the signed integers of the database can hold.\<close>

definition item_small :: "stream_item \<Rightarrow> bool" where
  "item_small x = (case x of Yield ev \<Rightarrow> slot_small (Some (fst (event_point ev))) | _ \<Rightarrow> True)"

definition chain_small :: "'h life_setup \<Rightarrow> bool" where
  "chain_small su \<longleftrightarrow> (\<forall>k ps resp. ls_follow su k ps = Inr resp \<longrightarrow> list_all item_small (chain_events resp))"

fun phase_small :: "monitor_phase \<Rightarrow> bool" where
  "phase_small (Following items) \<longleftrightarrow> list_all item_small items"
| "phase_small (Executing ev rest) \<longleftrightarrow> slot_small (Some (fst (event_point ev))) \<and> list_all item_small rest"
| "phase_small _ \<longleftrightarrow> True"

definition life_inv :: "'h life_setup \<Rightarrow> db \<Rightarrow> life \<Rightarrow> bool" where
  "life_inv su d0 s \<longleftrightarrow> db_wf (ml_db s) \<and> slots_wf (ml_db s) \<and> phase_small (ml_phase s) \<and>
     cursor_tbl (ml_db s) = (if ml_done s = [] then cursor_tbl d0 else [cursor_row_of (event_point (last (ml_done s)))])"

lemma bootstrap_small: "chain_small su \<Longrightarrow> phase_small (life_bootstrap su k)"
  by (auto simp: life_bootstrap_def u5c_stream_def monitor_bootstrap_def or_panic_def chain_small_def interceptor_def
      split: sum.splits fault.splits if_splits)

lemma schedule_small: "list_all item_small items \<Longrightarrow> phase_small (life_schedule items)"
  by (cases items rule: monitor_schedule.cases) (auto simp: life_schedule_def item_small_def)

lemma execute_inv:
  assumes "life_inv su d0 s" "ml_phase s = Executing ev rest"
    "monitor_execute (ls_hex su) (ls_oc su) (ls_diff su) ev (ml_db s) = (r, d)"
  shows "db_wf d" "slots_wf d" "r = Inr () \<Longrightarrow> cursor_tbl d = [cursor_row_of (event_point ev)]"
    "r \<noteq> Inr () \<Longrightarrow> cursor_tbl d = cursor_tbl (ml_db s)"
proof -
  have "monitor_ready ev (ml_db s)" using assms(1,2) by (simp add: life_inv_def monitor_ready_def)
  from monitor_execute_cases [OF this assms(3)]
  show "db_wf d" "slots_wf d" "r = Inr () \<Longrightarrow> cursor_tbl d = [cursor_row_of (event_point ev)]"
    "r \<noteq> Inr () \<Longrightarrow> cursor_tbl d = cursor_tbl (ml_db s)"
    by (auto simp: monitor_ready_def)
qed

lemma life_step_inv:
  assumes "chain_small su" "life_step su s t" "life_inv su d0 s"
  shows "life_inv su d0 t"
  using assms(2)
proof cases
  case bootstraps
  with assms(1,3) bootstrap_small show ?thesis by (simp add: life_inv_def)
next
  case (schedules items)
  with assms(3) schedule_small show ?thesis by (simp add: life_inv_def)
next
  case (executes ev rest d)
  with execute_inv [OF assms(3) executes(2,3)] assms(3) show ?thesis by (simp add: life_inv_def)
next
  case (retries ev rest d)
  with execute_inv [OF assms(3) retries(2,3)] assms(3) show ?thesis by (simp add: life_inv_def)
next
  case (fails ev rest f d)
  with execute_inv [OF assms(3) fails(2,3)] assms(3) show ?thesis by (simp add: life_inv_def)
next
  case (others d)
  with assms(3) show ?thesis by (simp add: life_inv_def)
qed

interpretation life: inductive_invariant "life_init d0" "life_step su" "\<lambda>s. chain_small su \<longrightarrow> life_inv su d0 s" for d0 su
proof unfold_locales
  show "life_init d0 s \<Longrightarrow> chain_small su \<longrightarrow> life_inv su d0 s" for s by (auto simp: life_init_def life_inv_def)
  show "life_step su s t \<Longrightarrow> chain_small su \<longrightarrow> life_inv su d0 s \<Longrightarrow> chain_small su \<longrightarrow> life_inv su d0 t" for s t
    using life_step_inv by blast
qed

lemma life_reachable_inv: "life_reachable su d0 s \<Longrightarrow> chain_small su \<Longrightarrow> life_inv su d0 s"
  unfolding life_reachable_def using life.reach_inv by blast

section \<open>Following the chain\<close>

text \<open>Events that can be processed one after the other from the given entries.\<close>

fun smooth :: "'h life_setup \<Rightarrow> Event list \<Rightarrow> (string \<Rightarrow> entry option) \<Rightarrow> bool" where
  "smooth su [] m \<longleftrightarrow> True"
| "smooth su (ev # evs) m \<longleftrightarrow>
     (case ev of RollForward p txs \<Rightarrow> \<not> stuck (ls_oc su) (fst p) m | Rollback p \<Rightarrow> True) \<and>
     smooth su evs (event_effect (ls_hex su) (ls_diff su) ev m)"

lemma life_executes:
  assumes "life_inv su d0 s" "ml_phase s = Executing ev rest" "no_faults (ml_db s)"
    "case ev of RollForward p txs \<Rightarrow> \<not> stuck (ls_oc su) (fst p) (entries (ml_db s)) | Rollback p \<Rightarrow> True"
  shows "\<exists>d. life_step su s (s\<lparr>ml_phase := Following rest, ml_db := d, ml_done := ml_done s @ [ev]\<rparr>) \<and> no_faults d \<and>
    entries d = event_effect (ls_hex su) (ls_diff su) ev (entries (ml_db s))"
proof -
  have ready: "monitor_ready ev (ml_db s)" using assms(1,2) by (simp add: life_inv_def monitor_ready_def)
  obtain r d where x: "monitor_execute (ls_hex su) (ls_oc su) (ls_diff su) ev (ml_db s) = (r, d)" by fastforce
  have "\<not> (\<exists>slot h txs. ev = RollForward (slot, h) txs \<and> stuck (ls_oc su) slot (entries (ml_db s)))"
    using assms(4) by auto
  with monitor_execute_undisturbed [OF ready assms(3), of "ls_hex su" "ls_oc su" "ls_diff su"] x
  have "r = Inr ()" "no_faults d" by simp_all
  with monitor_execute_cases [OF ready x] executes [OF assms(2), of su d] x show ?thesis by auto
qed

lemma life_follows:
  assumes "chain_small su" "life_inv su d0 s" "ml_phase s = Following (map Yield evs @ rest)" "no_faults (ml_db s)"
    "smooth su evs (entries (ml_db s))"
  shows "\<exists>t. (life_step su)\<^sup>*\<^sup>* s t \<and> ml_phase t = Following rest \<and> ml_done t = ml_done s @ evs \<and>
    entries (ml_db t) = fold (event_effect (ls_hex su) (ls_diff su)) evs (entries (ml_db s)) \<and>
    ml_connections t = ml_connections s \<and> no_faults (ml_db t)"
  using assms(2-)
proof (induction evs arbitrary: s)
  case Nil
  then show ?case by (intro exI [of _ s]) simp
next
  case (Cons ev evs)
  let ?s1 = "s\<lparr>ml_phase := Executing ev (map Yield evs @ rest)\<rparr>"
  have s1: "life_step su s ?s1" using schedules [OF Cons.prems(2), of su] by (simp add: life_schedule_def)
  have c: "case ev of RollForward p txs \<Rightarrow> \<not> stuck (ls_oc su) (fst p) (entries (ml_db ?s1)) | Rollback p \<Rightarrow> True"
    using Cons.prems(4) by (cases ev) simp_all
  have i1: "life_inv su d0 ?s1" using life_step_inv [OF assms(1) s1 Cons.prems(1)] .
  obtain d where d: "life_step su ?s1 (?s1\<lparr>ml_phase := Following (map Yield evs @ rest), ml_db := d, ml_done := ml_done ?s1 @ [ev]\<rparr>)"
    "no_faults d" "entries d = event_effect (ls_hex su) (ls_diff su) ev (entries (ml_db s))"
    using life_executes [OF i1 _ _ c, of "map Yield evs @ rest"] Cons.prems(3) by auto
  let ?s2 = "?s1\<lparr>ml_phase := Following (map Yield evs @ rest), ml_db := d, ml_done := ml_done ?s1 @ [ev]\<rparr>"
  have "life_inv su d0 ?s2" using life_step_inv [OF assms(1) d(1) i1] .
  from Cons.IH [OF this] d(2,3) Cons.prems(4) obtain t where t: "(life_step su)\<^sup>*\<^sup>* ?s2 t" "ml_phase t = Following rest"
    "ml_done t = ml_done s @ ev # evs"
    "entries (ml_db t) = fold (event_effect (ls_hex su) (ls_diff su)) (ev # evs) (entries (ml_db s))"
    "ml_connections t = ml_connections s" "no_faults (ml_db t)" by auto
  from s1 d(1) t(1) have "(life_step su)\<^sup>*\<^sup>* s t" by (meson converse_rtranclp_into_rtranclp)
  with t show ?case by blast
qed

text \<open>C3. The monitor follows the stream.  When the stream offers events that can be processed, the stage gets
  through all of them, in order: the stored transactions then show the effect of the whole sequence, the cursor is
  the point of the last event, and the stage is where the stream goes on.\<close>

theorem monitor_follows_stream:
  assumes "chain_small su" "life_reachable su d0 s" "ml_phase s = Following (map Yield evs @ rest)" "no_faults (ml_db s)"
    "smooth su evs (entries (ml_db s))" "evs \<noteq> []"
  shows "\<exists>t. (life_step su)\<^sup>*\<^sup>* s t \<and> ml_phase t = Following rest \<and> ml_done t = ml_done s @ evs \<and>
    entries (ml_db t) = fold (event_effect (ls_hex su) (ls_diff su)) evs (entries (ml_db s)) \<and>
    cursor_tbl (ml_db t) = [cursor_row_of (event_point (last evs))]"
proof -
  have inv: "life_inv su d0 s" using life_reachable_inv [OF assms(2,1)] .
  obtain t where t: "(life_step su)\<^sup>*\<^sup>* s t" "ml_phase t = Following rest" "ml_done t = ml_done s @ evs"
    "entries (ml_db t) = fold (event_effect (ls_hex su) (ls_diff su)) evs (entries (ml_db s))"
    using life_follows [OF assms(1) inv assms(3-5)] by blast
  have "life_inv su d0 t" using life.run_inv [OF t(1), of d0] inv assms(1) by blast
  with t(3) assms(6) have "cursor_tbl (ml_db t) = [cursor_row_of (event_point (last evs))]" by (simp add: life_inv_def)
  with t show ?thesis by blast
qed

section \<open>After the stream\<close>

lemma ended_step:
  assumes "life_step su s t" "ml_phase s = Following [] \<or> ml_phase s = Stopped"
  shows "ml_phase t = ml_phase s \<and> ml_done t = ml_done s \<and> ml_connections t = ml_connections s"
  using assms by cases (auto simp: life_schedule_def)

text \<open>C40. The end of the stream is the end of the monitor.  When the service closes the stream without an error the
  stage does not connect again: it keeps answering that it is idle, and no later block is ever processed, whatever
  else the node does; the same holds after a panic or a failed connection.\<close>

theorem ended_stream_is_final:
  assumes "(life_step su)\<^sup>*\<^sup>* s t" "ml_phase s = Following [] \<or> ml_phase s = Stopped"
  shows "ml_phase t = ml_phase s \<and> ml_done t = ml_done s \<and> ml_connections t = ml_connections s \<and>
    cursor_tbl (ml_db t) = cursor_tbl (ml_db s)"
  using assms(1)
proof (induction rule: rtranclp_induct)
  case (step u v)
  then have p: "ml_phase u = Following [] \<or> ml_phase u = Stopped" using assms(2) by auto
  have "cursor_tbl (ml_db v) = cursor_tbl (ml_db u)" using step(2) p by cases auto
  with ended_step [OF step(2) p] step(3) show ?case by simp
qed simp

text \<open>C39. A reconnection goes back to where the process started.  The adapter keeps the point it was created with, so
  that after an error of the stream, however many events have been processed and whatever the stored cursor says, the
  chain is read again from that point on.  When the first block after it is older than a transaction in flight, the
  stage panics for good in a build with overflow checks; without them the age of the transaction wraps
  around, and the transaction goes back to pending although it has just been sent.\<close>

theorem reconnection_replays:
  assumes "chain_small su" "life_reachable su d0 s" "ml_phase s = Following (StreamError # rest)" "no_faults (ml_db s)"
    "la_cursor (ls_adapter su) = Some p" "interceptor (ls_legal su) (la_metadata (ls_adapter su)) = (Inr () :: (u5c_error, unit) outcome)"
    "ls_follow su (ml_connections s) [p] = Inr (Inr (Some (Apply (Some b))) # later)" "blk_header b = Some h" "blk_body b = Some txs"
    "entries (ml_db s) i = Some e" "e_status e = InFlight" "e_slot e = Some slot" "h_slot h < slot"
    "\<not> in_block (ls_hex su) txs i" "ls_diff su < h_slot h - slot"
    "\<forall>i e. entries (ml_db s) i = Some e \<and> e_status e = InFlight \<longrightarrow> e_slot e \<noteq> None"
  shows "\<exists>t u. (life_step su)\<^sup>*\<^sup>* s t \<and> ml_phase t = Executing (RollForward (h_slot h, h_hash h) txs) (chain_events later) \<and>
    ml_db t = ml_db s \<and>
    cursor_tbl (ml_db t) = (if ml_done s = [] then cursor_tbl d0 else [cursor_row_of (event_point (last (ml_done s)))]) \<and>
    life_step su t u \<and>
    (if ls_oc su then ml_phase u = Stopped
     else entries (ml_db u) i = Some (e\<lparr>e_status := Pending, e_slot := None\<rparr>))"
proof -
  let ?ev = "RollForward (h_slot h, h_hash h) txs"
  let ?s1 = "s\<lparr>ml_phase := Starting\<rparr>" and ?n = "Suc (ml_connections s)"
  let ?s2 = "s\<lparr>ml_phase := Following (Yield ?ev # chain_events later), ml_connections := ?n\<rparr>"
  let ?t = "s\<lparr>ml_connections := ?n, ml_phase := Executing ?ev (chain_events later)\<rparr>"
  have s1: "life_step su s ?s1" using schedules [OF assms(3), of su] by (simp add: life_schedule_def)
  have "life_bootstrap su (ml_connections s) = Following (Yield ?ev # chain_events later)"
    using assms(5-9) by (simp add: life_bootstrap_def u5c_stream_def follow_tip_intersect_def monitor_bootstrap_def or_panic_def)
  then have s2: "life_step su ?s1 ?s2" using bootstraps [of ?s1 su] by simp
  have s3: "life_step su ?s2 ?t" using schedules [of ?s2 "Yield ?ev # chain_events later" su] by (simp add: life_schedule_def)
  have run: "(life_step su)\<^sup>*\<^sup>* s ?t" using s1 s2 s3 by (meson converse_rtranclp_into_rtranclp rtranclp.rtrancl_refl)
  have inv: "life_inv su d0 ?t"
    using life.run_inv [OF run, of d0] life_reachable_inv [OF assms(2,1)] assms(1) by blast
  then have cur: "cursor_tbl (ml_db s) = (if ml_done s = [] then cursor_tbl d0 else [cursor_row_of (event_point (last (ml_done s)))])"
    by (simp add: life_inv_def)
  have st: "stuck (ls_oc su) (h_slot h) (entries (ml_db s)) \<longleftrightarrow> ls_oc su"
    using assms(10-13,16) by (fastforce simp: stuck_def split: option.splits)
  show ?thesis
  proof (cases "ls_oc su")
    case True
    have "monitor_ready ?ev (ml_db ?t)" using inv by (simp add: life_inv_def monitor_ready_def)
    from monitor_execute_undisturbed [OF this, of "ls_hex su" "ls_oc su" "ls_diff su"] assms(4) st True obtain d where
      "monitor_execute (ls_hex su) (ls_oc su) (ls_diff su) ?ev (ml_db ?t) = (Inl Panic, d)"
      by (cases "monitor_execute (ls_hex su) (ls_oc su) (ls_diff su) ?ev (ml_db s)") auto
    from fails [OF _ this] have "life_step su ?t (?t\<lparr>ml_phase := Stopped, ml_db := d\<rparr>)" by simp
    with run True cur show ?thesis by (intro exI [of _ ?t] exI [of _ "?t\<lparr>ml_phase := Stopped, ml_db := d\<rparr>"]) simp
  next
    case False
    obtain d where d: "life_step su ?t (?t\<lparr>ml_phase := Following (chain_events later), ml_db := d, ml_done := ml_done ?t @ [?ev]\<rparr>)"
      "entries d = event_effect (ls_hex su) (ls_diff su) ?ev (entries (ml_db s))"
      using life_executes [OF inv, of ?ev "chain_events later"] assms(4) st False by auto
    have "entries d i = Some (e\<lparr>e_status := Pending, e_slot := None\<rparr>)"
      using d(2) assms(10-12,14,15) by (simp add: event_effect_def forward_entry_def overdue_def)
    with run False d(1) cur show ?thesis
      by (intro exI [of _ ?t] exI [of _ "?t\<lparr>ml_phase := Following (chain_events later), ml_db := d, ml_done := ml_done ?t @ [?ev]\<rparr>"]) simp
  qed
qed

section \<open>Witnesses\<close>

lemma life_run: "life_reachable su d0 s \<Longrightarrow> (life_step su)\<^sup>*\<^sup>* s t \<Longrightarrow> life_reachable su d0 t"
  unfolding life_reachable_def by (rotate_tac, induction rule: rtranclp_induct) (auto intro: reach_step)

text \<open>A service whose first stream has a block at slot 9 and then an error, and whose later ones begin at slot 3.\<close>

definition block_at :: "u64 \<Rightarrow> u5c_error + tip_action option" where
  "block_at slot = Inr (Some (Apply (Some \<lparr>blk_header = Some \<lparr>h_slot = slot, h_hash = [1]\<rparr>, blk_body = Some []\<rparr>)))"

definition demo_life :: "unit life_setup" where
  "demo_life = \<lparr>ls_legal = (\<lambda>_ _. True), ls_follow = (\<lambda>k ps. Inr (if k = 0 then [block_at 9, Inl RpcFailed] else [block_at 3])),
     ls_adapter = \<lparr>la_channel = (), la_metadata = [], la_cursor = Some (2, [0])\<rparr>, ls_hex = (\<lambda>_. ''zz''), ls_oc = True, ls_diff = 100\<rparr>"

definition demo_followed :: life where
  "demo_followed = \<lparr>ml_phase = Following [Yield (RollForward (9, [1]) []), StreamError], ml_db = chain_db [flying, settled] [],
     ml_connections = 1, ml_done = []\<rparr>"

lemma demo_life_small: "chain_small demo_life"
  by (auto simp: chain_small_def demo_life_def block_at_def item_small_def slot_small_def)

lemma demo_followed_reachable: "life_reachable demo_life (chain_db [flying, settled] []) demo_followed"
proof -
  let ?s = "\<lparr>ml_phase = Starting, ml_db = chain_db [flying, settled] [], ml_connections = 0, ml_done = []\<rparr>"
  have "life_init (chain_db [flying, settled] []) ?s"
    using chain_db_ready(2) by (simp add: life_init_def monitor_ready_def)
  moreover have "life_bootstrap demo_life 0 = Following [Yield (RollForward (9, [1]) []), StreamError]"
    by (simp add: life_bootstrap_def u5c_stream_def interceptor_def demo_life_def block_at_def monitor_bootstrap_def or_panic_def)
  then have "life_step demo_life ?s demo_followed"
    using bootstraps [of ?s demo_life] by (simp add: demo_followed_def)
  ultimately show ?thesis unfolding life_reachable_def by (blast intro: reach_init reach_step)
qed

lemma demo_followed_facts:
  "ml_phase demo_followed = Following (map Yield [RollForward (9, [1]) []] @ [StreamError])" "no_faults (ml_db demo_followed)"
  "smooth demo_life [RollForward (9, [1]) []] (entries (ml_db demo_followed))"
  by (simp_all add: demo_followed_def chain_db_no_faults stuck_def chain_db_entries)

theorem monitor_follows_stream_witness:
  "\<exists>t. (life_step demo_life)\<^sup>*\<^sup>* demo_followed t \<and> ml_phase t = Following [StreamError] \<and> ml_done t = [RollForward (9, [1]) []] \<and>
     cursor_tbl (ml_db t) = [cursor_row_of (9, [1])]"
  using monitor_follows_stream [OF demo_life_small demo_followed_reachable demo_followed_facts] by (auto simp: demo_followed_def)

theorem ended_stream_is_final_witness:
  "\<exists>t. life_step demo_life (demo_followed\<lparr>ml_phase := Following []\<rparr>) t \<and> ml_phase t = Following [] \<and> ml_connections t = 1 \<and> ml_done t = []"
proof -
  let ?s = "demo_followed\<lparr>ml_phase := Following []\<rparr>"
  obtain t where t: "life_step demo_life ?s t" using schedules [of ?s "[]" demo_life] by auto
  then have "(life_step demo_life)\<^sup>*\<^sup>* ?s t" by (rule r_into_rtranclp)
  from ended_stream_is_final [OF this] t show ?thesis by (auto simp: demo_followed_def)
qed

theorem reconnection_replays_witness:
  "\<exists>s t u. life_reachable demo_life (chain_db [flying, settled] []) s \<and> cursor_tbl (ml_db s) = [cursor_row_of (9, [1])] \<and>
     (life_step demo_life)\<^sup>*\<^sup>* s t \<and> ml_phase t = Executing (RollForward (3, [1]) []) [] \<and> life_step demo_life t u \<and> ml_phase u = Stopped"
proof -
  have inv: "life_inv demo_life (chain_db [flying, settled] []) demo_followed"
    using life_reachable_inv [OF demo_followed_reachable demo_life_small] .
  obtain s where s: "(life_step demo_life)\<^sup>*\<^sup>* demo_followed s" "ml_phase s = Following [StreamError]"
    "ml_done s = [RollForward (9, [1]) []]" "ml_connections s = 1" "no_faults (ml_db s)"
    "entries (ml_db s) = event_effect (\<lambda>_. ''zz'') 100 (RollForward (9, [1]) []) (entries (chain_db [flying, settled] []))"
    using life_follows [OF demo_life_small inv demo_followed_facts] by (auto simp: demo_followed_def demo_life_def)
  have r: "life_reachable demo_life (chain_db [flying, settled] []) s" using life_run [OF demo_followed_reachable s(1)] .
  have e: "entries (ml_db s) = [''aa'' \<mapsto> entry_of_row flying, ''bb'' \<mapsto> entry_of_row settled]"
    using s(6) by (auto simp: chain_db_entries event_effect_def forward_entry_def overdue_def in_block_def fun_eq_iff)
  have "cursor_tbl (ml_db s) = [cursor_row_of (9, [1])]"
    using life_reachable_inv [OF r demo_life_small] s(3) by (simp add: life_inv_def)
  moreover have "\<exists>t u. (life_step demo_life)\<^sup>*\<^sup>* s t \<and> ml_phase t = Executing (RollForward (3, [1]) []) [] \<and>
      ml_db t = ml_db s \<and>
      cursor_tbl (ml_db t) = (if ml_done s = [] then cursor_tbl (chain_db [flying, settled] []) else [cursor_row_of (event_point (last (ml_done s)))]) \<and>
      life_step demo_life t u \<and>
      (if ls_oc demo_life then ml_phase u = Stopped
       else entries (ml_db u) ''aa'' = Some ((entry_of_row flying)\<lparr>e_status := Pending, e_slot := None\<rparr>))"
    using reconnection_replays [OF demo_life_small r s(2,5), of "(2, [0])" "\<lparr>blk_header = Some \<lparr>h_slot = 3, h_hash = [1]\<rparr>, blk_body = Some []\<rparr>"
        "[]" "\<lparr>h_slot = 3, h_hash = [1]\<rparr>" "[]" "''aa''" "entry_of_row flying" 5]
    by (simp add: demo_life_def s(4) e chain_db_entries interceptor_def block_at_def in_block_def)
  ultimately show ?thesis using r by (auto simp: demo_life_def)
qed

end
