(* ===== verification/Fine_Interleaving.thy ===== *)
theory Fine_Interleaving
  imports Pipeline_System
begin

text \<open>
  The node with the ingest worker cut where it waits.  In \<open>node_step\<close> the worker handles one transaction of its
  unit in one move.  In the source it waits several times while it does so, and the moment that matters is between
  \<open>output.send\<close> and \<open>storage.update\<close>: the message is on its way to the peers, the tip is being fetched, and the
  database still calls the transaction pending.  Here sending and marking are two moves, and submissions and chain
  events may come in between.
\<close>

section \<open>The two halves of a broadcast\<close>

definition send_message :: "Transaction \<Rightarrow> unit ingest" where
  "send_message tx = sx_modify (\<lambda>s. s\<lparr>is_sent := is_sent s @ [tx_raw tx]\<rparr>)"

definition mark_flight :: "tx_env \<Rightarrow> Transaction \<Rightarrow> unit ingest" where
  "mark_flight e tx =
     sx_bind (sx_lift (retry_outcome (te_tip e))) (\<lambda>tip.
     on_db (or_retry (update_one (tx\<lparr>tx_status := InFlight, tx_slot := Some (fst tip)\<rparr>))))"

lemma broadcast_halves:
  "broadcast e tx = (if te_send_ok e then sx_bind (send_message tx) (\<lambda>_. mark_flight e tx) else sx_return ())"
  by (simp add: broadcast_def send_message_def mark_flight_def)

section \<open>The fine-grained node\<close>

text \<open>\<open>fn_sent\<close> is the transaction that was sent and is not marked yet, with the answers it will be marked by.\<close>

record fine_node =
  fn_node :: node
  fn_sent :: "(Transaction \<times> tx_env) option"

datatype fine_action = Coarse node_action | Sent | Marked | MarkRetried

fun interferes :: "node_action \<Rightarrow> bool" where
  "interferes (Submitted items) \<longleftrightarrow> True"
| "interferes (Followed ev) \<longleftrightarrow> True"
| "interferes _ \<longleftrightarrow> False"

inductive fine_step :: "('tx, 'out, 'rep) node_setup \<Rightarrow> fine_action \<Rightarrow> fine_node \<Rightarrow> fine_node \<Rightarrow> bool"
  for su :: "('tx, 'out, 'rep) node_setup" where
  coarse:
    "node_step su a (fn_node f) n \<Longrightarrow> fn_sent f = None \<or> interferes a \<Longrightarrow>
     fine_step su (Coarse a) f (f\<lparr>fn_node := n\<rparr>)"
| sent:
    "fn_sent f = None \<Longrightarrow> nd_unit (fn_node f) = Some txs \<Longrightarrow> nd_next (fn_node f) < length txs \<Longrightarrow>
     tx = txs ! nd_next (fn_node f) \<Longrightarrow> e = su_env su (is_now (nd_work (fn_node f))) \<Longrightarrow>
     judge (su_pallas su) (su_queues su) (su_has_signer su) e tx = Accepted raw \<Longrightarrow> te_send_ok e \<Longrightarrow>
     send_message (tx\<lparr>tx_raw := raw\<rparr>) ((nd_work (fn_node f))\<lparr>is_now := Suc (is_now (nd_work (fn_node f)))\<rparr>) = (Inr (), w) \<Longrightarrow>
     fine_step su Sent f \<lparr>fn_node = (fn_node f)\<lparr>nd_work := w\<rparr>, fn_sent = Some (tx\<lparr>tx_raw := raw\<rparr>, e)\<rparr>"
| marked:
    "fn_sent f = Some (tx, e) \<Longrightarrow> mark_flight e tx (nd_work (fn_node f)) = (Inr (), w) \<Longrightarrow>
     fine_step su Marked f \<lparr>fn_node = (fn_node f)\<lparr>nd_work := w, nd_next := Suc (nd_next (fn_node f)),
       nd_mark := max (nd_mark (fn_node f)) (Suc (nd_next (fn_node f)))\<rparr>, fn_sent = None\<rparr>"
| mark_retried:
    "fn_sent f = Some (tx, e) \<Longrightarrow> mark_flight e tx (nd_work (fn_node f)) = (Inl x, w) \<Longrightarrow>
     fine_step su MarkRetried f \<lparr>fn_node = (fn_node f)\<lparr>nd_work := w, nd_next := 0\<rparr>, fn_sent = None\<rparr>"

inductive_cases fine_stepE: "fine_step su a f f'"

definition fine_init :: "('tx, 'out, 'rep) node_setup \<Rightarrow> fine_node \<Rightarrow> bool" where
  "fine_init su f \<longleftrightarrow> node_init su (fn_node f) \<and> fn_sent f = None"

definition fine_reachable :: "('tx, 'out, 'rep) node_setup \<Rightarrow> fine_node \<Rightarrow> bool" where
  "fine_reachable su = reach (fine_init su) (\<lambda>f f'. \<exists>a. fine_step su a f f')"

text \<open>With nothing in between, sending and marking are the one move of the coarse node.\<close>

lemma halves_are_work:
  assumes "fn_sent f = None" "nd_unit (fn_node f) = Some txs" "nd_next (fn_node f) < length txs"
    "judge (su_pallas su) (su_queues su) (su_has_signer su) (su_env su (is_now (nd_work (fn_node f)))) (txs ! nd_next (fn_node f)) = Accepted raw"
    "te_send_ok (su_env su (is_now (nd_work (fn_node f))))"
    "fine_step su Sent f f1" "fine_step su Marked f1 f2"
  shows "fn_sent f2 = None \<and> node_step su Worked (fn_node f) (fn_node f2)"
proof -
  let ?n = "fn_node f" and ?tx = "txs ! nd_next (fn_node f)" and ?e = "su_env su (is_now (nd_work (fn_node f)))"
  let ?w0 = "(nd_work ?n)\<lparr>is_now := Suc (is_now (nd_work ?n))\<rparr>"
  from assms(6,2,4) obtain w where f1: "f1 = \<lparr>fn_node = ?n\<lparr>nd_work := w\<rparr>, fn_sent = Some (?tx\<lparr>tx_raw := raw\<rparr>, ?e)\<rparr>"
    "send_message (?tx\<lparr>tx_raw := raw\<rparr>) ?w0 = (Inr (), w)"
    by (auto elim!: fine_stepE)
  from assms(7) f1(1) obtain w' where f2: "mark_flight ?e (?tx\<lparr>tx_raw := raw\<rparr>) w = (Inr (), w')"
    "f2 = \<lparr>fn_node = ?n\<lparr>nd_work := w', nd_next := Suc (nd_next ?n), nd_mark := max (nd_mark ?n) (Suc (nd_next ?n))\<rparr>, fn_sent = None\<rparr>"
    by (auto elim!: fine_stepE)
  have "work_on su ?tx (nd_work ?n) = (Inr (), w')"
    using f1(2) f2(1) assms(4,5) by (simp add: work_on_def ingest_tx_judge Let_def broadcast_halves sx_bind_def)
  with assms(2,3) f2(2) show ?thesis by (auto intro: worked)
qed

section \<open>The invariant, through all interleavings\<close>

text \<open>A message that is out and not marked is the current transaction of the unit.\<close>

definition sent_ok :: "('tx, 'out, 'rep) node_setup \<Rightarrow> fine_node \<Rightarrow> bool" where
  "sent_ok su f \<longleftrightarrow> (\<forall>t e. fn_sent f = Some (t, e) \<longrightarrow> e \<in> range (su_env su) \<and> tx_raw t \<in> set (nd_sent (fn_node f)) \<and>
     (\<exists>txs. nd_unit (fn_node f) = Some txs \<and> nd_next (fn_node f) < length txs \<and> tx_id t = tx_id (txs ! nd_next (fn_node f))))"

definition fine_inv :: "('tx, 'out, 'rep) node_setup \<Rightarrow> fine_node \<Rightarrow> bool" where
  "fine_inv su f \<longleftrightarrow> node_inv su (fn_node f) \<and> sent_ok su f"

lemma interferes_keeps:
  assumes "node_step su a n n'" "interferes a"
  shows "nd_unit n' = nd_unit n \<and> nd_next n' = nd_next n \<and> nd_mark n' = nd_mark n \<and> nd_sent n' = nd_sent n"
  using assms by cases auto

lemma mark_flight_cases:
  assumes "mark_flight e t w = (r, w')"
  shows "w' = w\<lparr>is_db := is_db w'\<rparr> \<and>
    ((\<exists>tip. r = Inr () \<and> te_tip e = Inr tip \<and>
        entries (is_db w') = map_put (t\<lparr>tx_status := InFlight, tx_slot := Some (fst tip)\<rparr>) (entries (is_db w))) \<or>
     (\<exists>x. r = Inl x) \<and> entries (is_db w') = entries (is_db w))"
proof (cases "te_tip e")
  case (Inl f)
  with assms show ?thesis by (cases f) (auto simp: mark_flight_def sx_defs retry_outcome_def)
next
  case (Inr tip)
  with assms have "on_db (or_retry (update_one (t\<lparr>tx_status := InFlight, tx_slot := Some (fst tip)\<rparr>))) w = (r, w')"
    by (simp add: mark_flight_def sx_defs retry_outcome_def)
  from on_db_update [OF this] Inr show ?thesis by auto
qed

lemma mark_flight_wf:
  assumes "mark_flight e t w = (r, w')" "db_wf (is_db w)" "slots_wf (is_db w)" "small_tips su" "e \<in> range (su_env su)"
  shows "db_wf (is_db w') \<and> slots_wf (is_db w')"
proof (cases "te_tip e")
  case (Inl f)
  with assms show ?thesis by (cases f) (auto simp: mark_flight_def sx_defs retry_outcome_def)
next
  case (Inr tip)
  let ?t = "t\<lparr>tx_status := InFlight, tx_slot := Some (fst tip)\<rparr>"
  have "slot_small (tx_slot ?t)" using Inr assms(4,5) unfolding small_tips_def by auto (metis prod.collapse)
  then have "keeps slots_wf (or_retry (update_one ?t))" by (rule keeps_or_retry [OF update_one_slots])
  moreover have "keeps db_wf (or_retry (update_one ?t))" by (rule keeps_or_retry [OF update_one_keeps_wf])
  moreover have "on_db (or_retry (update_one ?t)) w = (r, w')"
    using assms(1) Inr by (simp add: mark_flight_def sx_defs retry_outcome_def)
  ultimately show ?thesis using assms(2,3)
    by (auto simp: on_db_def keeps_def split: prod.splits)
qed

lemma sent_inv:
  assumes "node_inv su n" "judge (su_pallas su) (su_queues su) (su_has_signer su) (su_env su k) tx = Accepted raw"
  shows "node_inv su (n\<lparr>nd_work := (nd_work n)\<lparr>is_now := j, is_sent := nd_sent n @ [raw]\<rparr>\<rparr>)"
  using assms judge_accepted [of "su_pallas su" _ _ "su_env su", OF assms(2)] by (auto simp: node_inv_def unit_ok_def flown_def)

lemma marked_inv:
  assumes inv: "node_inv su n" and u: "nd_unit n = Some txs" "nd_next n < length txs" "tx_id t = tx_id (txs ! nd_next n)"
    and sent: "tx_raw t \<in> set (nd_sent n)" and e: "e \<in> range (su_env su)"
    and m: "mark_flight e t (nd_work n) = (Inr (), w)"
  shows "node_inv su (n\<lparr>nd_work := w, nd_next := Suc (nd_next n), nd_mark := max (nd_mark n) (Suc (nd_next n))\<rparr>)"
    (is "node_inv su ?n'")
proof -
  from mark_flight_cases [OF m] obtain tip where w: "w = (nd_work n)\<lparr>is_db := is_db w\<rparr>"
    "entries (is_db w) = map_put (t\<lparr>tx_status := InFlight, tx_slot := Some (fst tip)\<rparr>) (entries (nd_db n))" by auto
  have same: "is_sent w = nd_sent n" by (subst w(1)) simp
  have wf: "db_wf (is_db w)" "slots_wf (is_db w)"
    using mark_flight_wf [OF m _ _ _ e] inv by (simp_all add: node_inv_def)
  from inv u(1) have un: "distinct (map tx_id txs)" "nd_mark n \<le> length txs" "\<forall>t\<in>set txs. slot_small (tx_slot t)"
    "\<forall>k. nd_mark n \<le> k \<and> k < length txs \<longrightarrow>
        tx_status (txs ! k) = Pending \<and> entries (nd_db n) (tx_id (txs ! k)) = Some (entry_of_tx (txs ! k))"
    by (simp_all add: node_inv_def unit_ok_def)
  have other: "tx_id (txs ! j) \<noteq> tx_id t" if "Suc (nd_next n) \<le> j" "j < length txs" for j
    using un(1) that u(2,3) nth_eq_iff_index_eq [OF un(1), of j "nd_next n"] by simp
  have "unit_ok ?n'" using un u other w(2) by (simp add: unit_ok_def map_put_def)
  moreover have "flown ?n'"
    using map_put_Some inv w(2) sent same unfolding flown_def node_inv_def by fastforce
  ultimately show ?thesis using inv wf same by (simp add: node_inv_def)
qed

lemma mark_retried_inv:
  assumes "node_inv su n" "e \<in> range (su_env su)" "mark_flight e t (nd_work n) = (Inl x, w)"
  shows "node_inv su (n\<lparr>nd_work := w, nd_next := 0\<rparr>)"
proof -
  from mark_flight_cases [OF assms(3)] have w: "w = (nd_work n)\<lparr>is_db := is_db w\<rparr>"
    "entries (is_db w) = entries (nd_db n)" by auto
  have same: "is_sent w = nd_sent n" by (subst w(1)) simp
  have "db_wf (is_db w)" "slots_wf (is_db w)"
    using mark_flight_wf [OF assms(3) _ _ _ assms(2)] assms(1) by (simp_all add: node_inv_def)
  with assms(1) w(2) same show ?thesis by (auto simp: node_inv_def unit_ok_def flown_def)
qed

lemma fine_step_inv:
  assumes "fine_step su a f f'" "fine_inv su f"
  shows "fine_inv su f'"
  using assms(1)
proof cases
  case (coarse a n)
  from node_step_inv [OF coarse(3)] assms(2) have "node_inv su n" by (simp add: fine_inv_def)
  moreover have "sent_ok su (f\<lparr>fn_node := n\<rparr>)"
    using coarse(4) assms(2) interferes_keeps [OF coarse(3)] by (auto simp: fine_inv_def sent_ok_def)
  ultimately show ?thesis using coarse(2) by (simp add: fine_inv_def)
next
  case (sent txs tx e raw w)
  then have "w = (nd_work (fn_node f))\<lparr>is_now := Suc (is_now (nd_work (fn_node f))), is_sent := nd_sent (fn_node f) @ [raw]\<rparr>"
    by (simp add: send_message_def sx_modify_def)
  with sent assms(2) sent_inv [of su "fn_node f"] show ?thesis by (auto simp: fine_inv_def sent_ok_def)
next
  case (marked tx e w)
  then show ?thesis using assms(2) marked_inv [of su "fn_node f" _ tx e w] by (auto simp: fine_inv_def sent_ok_def)
next
  case (mark_retried tx e x w)
  then show ?thesis using assms(2) mark_retried_inv [of su "fn_node f" e tx x w] by (auto simp: fine_inv_def sent_ok_def)
qed

interpretation fine: inductive_invariant "fine_init su" "\<lambda>f f'. \<exists>a. fine_step su a f f'" "fine_inv su" for su
proof
  show "fine_inv su f" if "fine_init su f" for f
    using that by (simp add: fine_init_def fine_inv_def sent_ok_def node_init_inv)
qed (auto intro: fine_step_inv)

lemma fine_reachable_inv: "fine_reachable su f \<Longrightarrow> fine_inv su f"
  unfolding fine_reachable_def by (rule fine.reach_inv)

section \<open>Properties\<close>

text \<open>C1. The safety of the node does not depend on the worker being atomic.  Also when submissions and chain
  events come between the sending of a message and the update of the database, a transaction that the database calls
  in flight or confirmed was broadcast, and its bytes had passed validation and evaluation before; and a message that
  is out but not yet marked has passed them too.\<close>

theorem fine_flight_checked:
  assumes "fine_reachable su f"
  shows "(\<forall>i e. entries (nd_db (fn_node f)) i = Some e \<and> e_status e \<in> {InFlight, Confirmed} \<longrightarrow>
      e_raw e \<in> set (nd_sent (fn_node f)) \<and> checked (su_pallas su) (su_env su) (e_raw e)) \<and>
    (\<forall>t e. fn_sent f = Some (t, e) \<longrightarrow> checked (su_pallas su) (su_env su) (tx_raw t))"
  using fine_reachable_inv [OF assms] by (auto simp: fine_inv_def node_inv_def flown_def sent_ok_def)

text \<open>The demonstration node, cut: the first transaction is sent and not yet marked.\<close>

definition demo_fine :: fine_node where
  "demo_fine = \<lparr>fn_node = demo_node demo_stored (Some [tx_x, tx_xx]), fn_sent = None\<rparr>"

lemma coarse_reachable:
  assumes "node_reachable su n"
  shows "fine_reachable su \<lparr>fn_node = n, fn_sent = None\<rparr>"
  using assms unfolding node_reachable_def fine_reachable_def
proof (induction rule: reach.induct)
  case (reach_init n)
  then show ?case by (intro reach.reach_init) (simp add: fine_init_def)
next
  case (reach_step n n')
  then obtain a where "node_step su a n n'" by blast
  then have "fine_step su (Coarse a) \<lparr>fn_node = n, fn_sent = None\<rparr> (\<lparr>fn_node = n, fn_sent = None\<rparr>\<lparr>fn_node := n'\<rparr>)"
    by (intro coarse) simp_all
  with reach_step.IH show ?case by (auto intro: reach.reach_step)
qed

definition demo_sent :: fine_node where
  "demo_sent = \<lparr>fn_node = (fn_node demo_fine)\<lparr>nd_work := \<lparr>is_db = demo_stored, is_sent = [[1]], is_now = 1\<rparr>\<rparr>,
     fn_sent = Some (tx_x\<lparr>tx_raw := [1]\<rparr>, su_env demo_setup 0)\<rparr>"

lemma demo_sent_step: "fine_step demo_setup Sent demo_fine demo_sent"
proof -
  let ?n = "fn_node demo_fine"
  have n: "nd_unit ?n = Some [tx_x, tx_xx]" "nd_next ?n = 0" "nd_work ?n = \<lparr>is_db = demo_stored, is_sent = [], is_now = 0\<rparr>"
    by (simp_all add: demo_fine_def demo_node_def)
  have "fine_step demo_setup Sent demo_fine \<lparr>fn_node = ?n\<lparr>nd_work := \<lparr>is_db = demo_stored, is_sent = [[1]], is_now = 1\<rparr>\<rparr>,
      fn_sent = Some (tx_x\<lparr>tx_raw := [1]\<rparr>, su_env demo_setup 0)\<rparr>"
    using n demo_verdicts(1) demo_answers_facts(1)
    by (intro sent [where txs = "[tx_x, tx_xx]"]) (simp_all add: send_message_def sx_modify_def, simp add: demo_fine_def)
  then show ?thesis by (simp add: demo_sent_def)
qed

lemma demo_sent_reachable: "fine_reachable demo_setup demo_sent"
  using coarse_reachable [OF demo_reachable] demo_sent_step unfolding fine_reachable_def demo_fine_def
  by (blast intro: reach_step)

theorem fine_flight_checked_witness: "checked (su_pallas demo_setup) (su_env demo_setup) [1]"
  using fine_flight_checked [OF demo_sent_reachable] by (simp add: demo_sent_def)

text \<open>
  A pending transaction is not touched by chain events, whatever the blocks contain.
\<close>

lemma block_skips_pending:
  assumes "node_inv su n" "no_faults (nd_db n)" "slot_small (Some slot)" "flights_before slot n"
    "entries (nd_db n) i = Some e" "e_status e = Pending"
  shows "\<exists>d. node_step su (Followed (RollForward (slot, h) btxs)) n (with_db d n) \<and> no_faults d \<and> entries d i = Some e \<and>
    entries d = event_effect (su_hex su) (su_diff su) (RollForward (slot, h) btxs) (entries (nd_db n))"
  using block_step [OF assms(1-3) flights_before_unstuck [OF assms(4)], of h btxs] assms(5,6)
  by (auto simp: event_effect_def forward_entry_def overdue_def)

lemma flights_before_effect:
  assumes "flights_before slot n" "slot \<le> slot'" "entries (nd_db n') = event_effect hex diff (RollForward (slot, h) btxs) (entries (nd_db n))"
  shows "flights_before slot' n'"
  unfolding flights_before_def
proof (intro allI impI)
  fix i e assume "entries (nd_db n') i = Some e \<and> e_status e = InFlight"
  with assms(3) have "entries (nd_db n) i = Some e \<and> e_status e = InFlight"
    by (auto simp: event_effect_def forward_entry_def confirm_entry_def split: if_splits)
  with assms(1,2) show "\<exists>s. e_slot e = Some s \<and> s \<le> slot'" unfolding flights_before_def by (meson order_trans)
qed

text \<open>C36. A block can confirm a transaction too early for the node.  While a message is out and not yet marked, the
  database calls the transaction pending, and a block that contains it changes nothing; the transaction is marked in
  flight afterwards, so that the node waits for a confirmation that has already passed.\<close>

theorem early_block_missed:
  assumes "fine_reachable su f" "fn_sent f = Some (t, e)" "te_tip e = Inr tip"
    "no_faults (nd_db (fn_node f))" "slot_small (Some slot)" "flights_before slot (fn_node f)"
    "entries (nd_db (fn_node f)) (tx_id t) = Some x" "e_status x = Pending" "in_block (su_hex su) btxs (tx_id t)"
  shows "\<exists>f1 f2. fine_step su (Coarse (Followed (RollForward (slot, h) btxs))) f f1 \<and> fine_step su Marked f1 f2 \<and>
    entries (nd_db (fn_node f1)) (tx_id t) = Some x \<and>
    entries (nd_db (fn_node f2)) (tx_id t) = Some (x\<lparr>e_raw := tx_raw t, e_status := InFlight, e_slot := Some (fst tip)\<rparr>)"
proof -
  have inv: "node_inv su (fn_node f)" using fine_reachable_inv [OF assms(1)] by (simp add: fine_inv_def)
  obtain d where d: "node_step su (Followed (RollForward (slot, h) btxs)) (fn_node f) (with_db d (fn_node f))" "no_faults d"
    "entries d (tx_id t) = Some x"
    using block_skips_pending [OF inv assms(4-8)] by blast
  let ?f1 = "f\<lparr>fn_node := with_db d (fn_node f)\<rparr>"
  have s1: "fine_step su (Coarse (Followed (RollForward (slot, h) btxs))) f ?f1" using d(1) by (intro coarse) simp_all
  let ?t = "t\<lparr>tx_status := InFlight, tx_slot := Some (fst tip)\<rparr>" and ?w = "nd_work (with_db d (fn_node f))"
  obtain d' where d': "on_db (or_retry (update_one ?t)) ?w = (Inr (), ?w\<lparr>is_db := d'\<rparr>)" "entries d' = map_put ?t (entries d)"
    using update_undisturbed [of ?w ?t] d(2) by auto
  have m: "mark_flight e t (nd_work (fn_node ?f1)) = (Inr (), ?w\<lparr>is_db := d'\<rparr>)"
    using d'(1) assms(3) by (simp add: mark_flight_def sx_defs retry_outcome_def)
  have "fn_sent ?f1 = Some (t, e)" using assms(2) by simp
  from marked [OF this m] have s2: "fine_step su Marked ?f1
      \<lparr>fn_node = (fn_node ?f1)\<lparr>nd_work := ?w\<lparr>is_db := d'\<rparr>, nd_next := Suc (nd_next (fn_node ?f1)),
       nd_mark := max (nd_mark (fn_node ?f1)) (Suc (nd_next (fn_node ?f1)))\<rparr>, fn_sent = None\<rparr>" .
  from s1 s2 show ?thesis
    by (rule_tac exI, rule_tac exI, intro conjI) (assumption | use d(3) d'(2) in \<open>simp add: map_put_def put_entry_def\<close>)+
qed

theorem early_block_missed_witness:
  "\<exists>f1 f2 x. fine_step demo_setup (Coarse (Followed (RollForward (120, []) [\<lparr>btx_hash = [1]\<rparr>]))) demo_sent f1 \<and>
     fine_step demo_setup Marked f1 f2 \<and> entries (nd_db (fn_node f2)) ''x'' = Some x \<and> e_status x = InFlight"
proof -
  have s: "slot_small (Some 120)" by (simp add: slot_small_def)
  have f: "fn_sent demo_sent = Some (tx_x\<lparr>tx_raw := [1]\<rparr>, su_env demo_setup 0)" "nd_db (fn_node demo_sent) = demo_stored"
    by (simp_all add: demo_sent_def)
  have "flights_before 120 (fn_node demo_sent)"
    using demo_node_facts(5,8) f(2) by (simp add: flights_before_def)
  from early_block_missed [OF demo_sent_reachable f(1) demo_answers_facts(2) _ s this, where btxs = "[\<lparr>btx_hash = [1]\<rparr>]" and h = "[]"]
    demo_node_facts(6,7,9,10,11) demo_node_facts(5) f(2)
  show ?thesis by (fastforce simp: entry_of_tx_def)
qed

text \<open>C37. A retry gives up on the first broadcast.  A transaction that stays in flight too long goes back to pending;
  when a later block contains it after all, the block does not confirm it, and no further event of the chain ever
  will: the transaction stays pending, bytes and all, until the ingest stage looks at it again.\<close>

theorem confirmation_after_retry_missed:
  assumes "node_reachable su n" "no_faults (nd_db n)" "entries (nd_db n) i = Some e"
    "overdue (su_diff su) slot1 e" "\<not> in_block (su_hex su) btxs1 i" "in_block (su_hex su) btxs2 i"
    "flights_before slot1 n" "slot1 \<le> slot2" "slot_small (Some slot1)" "slot_small (Some slot2)"
  shows "\<exists>n1 n2. node_step su (Followed (RollForward (slot1, h1) btxs1)) n n1 \<and>
    node_step su (Followed (RollForward (slot2, h2) btxs2)) n1 n2 \<and>
    (\<forall>evs n3. node_run su (map Followed evs) n2 n3 \<longrightarrow>
       entries (nd_db n3) i = Some (e\<lparr>e_status := Pending, e_slot := None\<rparr>))"
proof -
  let ?e = "e\<lparr>e_status := Pending, e_slot := None\<rparr>"
  have inv: "node_inv su n" using node_reachable_inv [OF assms(1)] .
  obtain d1 where d1: "node_step su (Followed (RollForward (slot1, h1) btxs1)) n (with_db d1 n)" "no_faults d1"
    "entries d1 = event_effect (su_hex su) (su_diff su) (RollForward (slot1, h1) btxs1) (entries (nd_db n))"
    using block_step [OF inv assms(2,9) flights_before_unstuck [OF assms(7)]] by blast
  have e1: "entries (nd_db (with_db d1 n)) i = Some ?e" "e_status ?e = Pending"
    using assms(3-5) d1(3) by (auto simp: event_effect_def forward_entry_def)
  have inv1: "node_inv su (with_db d1 n)" using node_step_inv [OF d1(1) inv] .
  have fl: "flights_before slot2 (with_db d1 n)" using flights_before_effect [OF assms(7,8)] d1(3) by simp
  obtain d2 where d2: "node_step su (Followed (RollForward (slot2, h2) btxs2)) (with_db d1 n) (with_db d2 (with_db d1 n))"
    "entries d2 i = Some ?e"
    using block_skips_pending [OF inv1 _ assms(10) fl e1] d1(2) by auto
  have stays: "entries (nd_db n3) i = Some ?e"
    if "node_run su (map Followed evs) m n3" "node_inv su m" "entries (nd_db m) i = Some ?e" for evs m n3
    using that
  proof (induction evs arbitrary: m)
    case (Cons ev evs)
    then obtain m1 where m1: "node_step su (Followed ev) m m1" "node_run su (map Followed evs) m1 n3" by auto
    have "entries (nd_db m1) i = Some ?e"
      using m1(1)
    proof cases
      case (followed r d)
      have "monitor_ready ev (nd_db m)" using Cons.prems(2) followed(2) by (simp add: monitor_ready_def node_inv_def)
      from monitor_moved [OF this followed(3), of i] Cons.prems(3) moved_pending [of ?e] followed(1) show ?thesis
        by (auto simp: option_rel_Some1)
    qed
    with Cons.IH [OF m1(2) node_step_inv [OF m1(1) Cons.prems(2)]] show ?case .
  qed simp
  have "node_inv su (with_db d2 (with_db d1 n))" using node_step_inv [OF d2(1) inv1] .
  with stays d1(1) d2 show ?thesis by (metis with_db_sel(1))
qed

theorem confirmation_after_retry_missed_witness:
  "\<exists>n n2. node_reachable demo_setup n \<and> (\<exists>n1. node_step demo_setup (Followed (RollForward (500, []) [])) n n1 \<and>
     node_step demo_setup (Followed (RollForward (520, []) [\<lparr>btx_hash = [1]\<rparr>])) n1 n2) \<and>
     (\<exists>e. entries (nd_db n2) ''x'' = Some e \<and> e_status e = Pending)"
proof -
  let ?n0 = "demo_node demo_stored (Some [tx_x, tx_xx])"
  obtain n where n: "node_step demo_setup Worked ?n0 n" "no_faults (nd_db n)"
    "entries (nd_db n) = map_put (tx_x\<lparr>tx_raw := [1], tx_status := InFlight, tx_slot := Some 100\<rparr>) (entries (nd_db ?n0))"
    using accepted_step [where n = ?n0 and su = demo_setup and tx = tx_x, OF demo_node_facts(1) _ _ demo_node_facts(6)]
      demo_verdicts(1) demo_answers_facts(1,2) demo_node_facts by fastforce
  have r: "node_reachable demo_setup n"
    using demo_reachable n(1) unfolding node_reachable_def by (blast intro: reach_step)
  have e: "entries (nd_db n) ''x'' = Some ((entry_of_tx tx_x)\<lparr>e_raw := [1], e_status := InFlight, e_slot := Some 100\<rparr>)"
    using n(3) demo_node_facts(7,9) by (simp add: map_put_def put_entry_def)
  have fl: "flights_before 500 n" using flights_before_put [OF demo_node_facts(8) n(3)] by simp
  have o: "overdue (su_diff demo_setup) 500 ((entry_of_tx tx_x)\<lparr>e_raw := [1], e_status := InFlight, e_slot := Some 100\<rparr>)"
    by (simp add: overdue_def demo_setup_def)
  have s: "slot_small (Some 500)" "slot_small (Some 520)" by (simp_all add: slot_small_def)
  have b: "\<not> in_block (su_hex demo_setup) [] ''x''" "in_block (su_hex demo_setup) [\<lparr>btx_hash = [1]\<rparr>] ''x''"
    using demo_node_facts(9,11) by (simp_all add: in_block_def)
  obtain n1 n2 where steps: "node_step demo_setup (Followed (RollForward (500, []) [])) n n1"
    "node_step demo_setup (Followed (RollForward (520, []) [\<lparr>btx_hash = [1]\<rparr>])) n1 n2"
    "\<forall>evs n3. node_run demo_setup (map Followed evs) n2 n3 \<longrightarrow> entries (nd_db n3) ''x'' =
       Some ((entry_of_tx tx_x)\<lparr>e_raw := [1], e_status := Pending, e_slot := None\<rparr>)"
    using confirmation_after_retry_missed [OF r n(2) e o b fl _ s, of "[]" "[]"] by auto
  from steps(3) have "entries (nd_db n2) ''x'' = Some ((entry_of_tx tx_x)\<lparr>e_raw := [1], e_status := Pending, e_slot := None\<rparr>)"
    by (elim allE [of _ "[]"]) simp
  with r steps(1,2) show ?thesis by (intro exI conjI) (assumption | simp)+
qed

end
