(* ===== verification/Tx_Identity.thy ===== *)
theory Tx_Identity
  imports Pipeline_System
begin

text \<open>
  The id of a stored transaction is the text of its hash, and the monitor recognises a transaction in a block by
  comparing these texts.  The bytes of a transaction change once on their way, when the ingest stage signs them.
  Here: the id remains the hash of the bytes through every run of the node, so that what is confirmed is what the
  chain contains.
\<close>

section \<open>Identity\<close>

definition named :: "('tx, 'out, 'rep) pallas \<Rightarrow> (bytes \<Rightarrow> string) \<Rightarrow> string \<Rightarrow> bytes \<Rightarrow> bool" where
  "named pl hex i raw \<longleftrightarrow> (\<exists>metx. pl_decode pl raw = Some metx \<and> hex (pl_hash pl metx) = i)"

text \<open>What is asked of the signer; the vault client has it by \<open>vault_sign_hash\<close>.\<close>

definition signing_keeps :: "('tx, 'out, 'rep) node_setup \<Rightarrow> bool" where
  "signing_keeps su \<longleftrightarrow> (\<forall>k raw raw' metx. te_sign (su_env su k) raw = Inr raw' \<and> pl_decode (su_pallas su) raw = Some metx \<longrightarrow>
     (\<exists>metx'. pl_decode (su_pallas su) raw' = Some metx' \<and> pl_hash (su_pallas su) metx' = pl_hash (su_pallas su) metx))"

lemma vault_signing_keeps:
  assumes "\<forall>k. te_sign (su_env su k) = vault_sign sg (su_pallas su)"
    and "\<And>b k b'. sg_add_signature sg b k = Some b' \<Longrightarrow>
        (\<exists>tx. pl_decode (su_pallas su) (bt_bytes b) = Some tx \<and> pl_hash (su_pallas su) tx = bt_hash b) \<Longrightarrow>
        \<exists>tx'. pl_decode (su_pallas su) (bt_bytes b') = Some tx' \<and> pl_hash (su_pallas su) tx' = bt_hash b"
    and "\<And>tx. \<exists>tx'. pl_decode (su_pallas su) (sg_encode sg tx) = Some tx' \<and> pl_hash (su_pallas su) tx' = pl_hash (su_pallas su) tx"
  shows "signing_keeps su"
  using vault_sign_hash [OF assms(2,3)] assms(1) unfolding signing_keeps_def by fastforce

lemma judge_named:
  assumes "signing_keeps su" "named (su_pallas su) hex i (tx_raw tx)"
    "judge (su_pallas su) queues has_signer (su_env su k) tx \<in> {Rejected raw, Accepted raw}"
  shows "named (su_pallas su) hex i raw"
proof -
  from assms(3) obtain cfg :: queue_config and tx' :: Transaction where
    s: "sign_if (qc_server_signing cfg) has_signer (su_env su k) tx = Inr tx'" "tx_raw tx' = raw"
    by (auto simp: judge_def split: option.splits sum.splits fault.splits)
  then have "raw = tx_raw tx \<or> te_sign (su_env su k) (tx_raw tx) = Inr raw"
    by (auto simp: sign_if_def retry_outcome_def split: if_splits sum.splits fault.splits)
  with assms(1,2) show ?thesis unfolding named_def signing_keeps_def by metis
qed

section \<open>The invariant\<close>

definition ids_ok :: "('tx, 'out, 'rep) node_setup \<Rightarrow> node \<Rightarrow> bool" where
  "ids_ok su n \<longleftrightarrow>
     (\<forall>i e. entries (nd_db n) i = Some e \<longrightarrow> named (su_pallas su) (su_hex su) i (e_raw e)) \<and>
     (\<forall>txs t. nd_unit n = Some txs \<and> t \<in> set txs \<longrightarrow>
        named (su_pallas su) (su_hex su) (tx_id t) (tx_raw t) \<and> entries (nd_db n) (tx_id t) \<noteq> None) \<and>
     (\<forall>raw\<in>set (nd_sent n). \<exists>i. entries (nd_db n) i \<noteq> None \<and> named (su_pallas su) (su_hex su) i raw)"

lemma admit_all_named:
  "admit_all pl hex queues chained obs idx items = Inr adm \<Longrightarrow> t \<in> set (map fst adm) \<Longrightarrow> named pl hex (tx_id t) (tx_raw t)"
proof (induction items arbitrary: idx adm)
  case (Cons item items)
  then obtain a rest where a: "admit_item pl hex queues chained (obs idx) idx item = Inr a"
    and rest: "admit_all pl hex queues chained obs (Suc idx) items = Inr rest"
    and adm: "adm = (case a of None \<Rightarrow> rest | Some x \<Rightarrow> x # rest)" by auto
  have "named pl hex (tx_id t') (tx_raw t')" if "a = Some (t', hash, cq)" for t' hash cq
    using a unfolding that by (rule admit_item_Some) (simp add: named_def Transaction_new_def)
  with Cons.IH [OF rest] Cons.prems(2) adm show ?case by (fastforce split: option.splits)
qed simp

text \<open>A step that keeps the unit and the messages, keeps all entries, and adds named ones only.\<close>

lemma ids_with_db:
  assumes "ids_ok su n" "\<And>i. entries (nd_db n) i \<noteq> None \<Longrightarrow> entries d i \<noteq> None"
    "\<And>i e. entries d i = Some e \<Longrightarrow> named (su_pallas su) (su_hex su) i (e_raw e)"
  shows "ids_ok su (with_db d n)"
  using assms unfolding ids_ok_def by (metis with_db_sel(1-3))

lemma create_named:
  assumes "create txs d = (r, d')" "\<And>t. t \<in> set txs \<Longrightarrow> named pl hex (tx_id t) (tx_raw t)"
    "\<And>i e. entries d i = Some e \<Longrightarrow> named pl hex i (e_raw e)" "entries d' i = Some e"
  shows "named pl hex i (e_raw e)"
proof (cases r)
  case (Inl x)
  with assms(1) have "entries d' = entries d" using create_err same_tables_predicates(3) by blast
  with assms(3,4) show ?thesis by simp
next
  case (Inr u)
  with assms(1) have "entries d' = fold map_add_new txs (entries d)" using create_entries by auto
  with assms(4) fold_map_add_new [of txs "entries d" i e] assms(2,3) show ?thesis by (auto simp: new_entry_def)
qed

lemma submitted_ids:
  assumes "ids_ok su n"
    "submit_tx (su_pallas su) (su_hex su) (su_queues su) chained gone obs items \<lparr>sv_db = nd_db n, sv_unlocks = us\<rparr> = (r, s')"
  shows "ids_ok su (with_db (sv_db s') n)"
  using submit_tx_created [OF assms(2)]
proof (elim disjE exE conjE)
  assume "sv_db s' = sv_db \<lparr>sv_db = nd_db n, sv_unlocks = us\<rparr>"
  with assms(1) show ?thesis by (simp add: with_db_def)
next
  fix adm r1
  assume adm: "admit_all (su_pallas su) (su_hex su) (su_queues su) chained obs 0 items = Inr adm"
    "create (map fst adm) (sv_db \<lparr>sv_db = nd_db n, sv_unlocks = us\<rparr>) = (r1, sv_db s')"
  then have c: "create (map fst adm) (nd_db n) = (r1, sv_db s')" by simp
  note grows = create_grows [OF c admit_all_pending [OF adm(1)]]
  show ?thesis
  proof (rule ids_with_db [OF assms(1)])
    show "entries (nd_db n) i \<noteq> None \<Longrightarrow> entries (sv_db s') i \<noteq> None" for i using grows by fastforce
    show "entries (sv_db s') i = Some e \<Longrightarrow> named (su_pallas su) (su_hex su) i (e_raw e)" for i e
      using create_named [OF c admit_all_named [OF adm(1)]] assms(1) unfolding ids_ok_def by blast
  qed
qed

text \<open>One transaction of the unit, with whatever outcome.\<close>

lemma work_on_ids:
  assumes "signing_keeps su" "ids_ok su n" "nd_unit n = Some txs" "nd_next n < length txs"
    "work_on su (txs ! nd_next n) (nd_work n) = (r, w)"
  shows "ids_ok su (n\<lparr>nd_work := w\<rparr>)"
proof -
  let ?tx = "txs ! nd_next n" and ?m = "entries (nd_db n)"
  let ?v = "judge (su_pallas su) (su_queues su) (su_has_signer su) (su_env su (is_now (nd_work n))) ?tx"
  have tx: "named (su_pallas su) (su_hex su) (tx_id ?tx) (tx_raw ?tx)" "?m (tx_id ?tx) \<noteq> None"
    using assms(2-4) unfolding ids_ok_def by (meson nth_mem)+
  have raw: "named (su_pallas su) (su_hex su) (tx_id ?tx) raw" if "?v \<in> {Rejected raw, Accepted raw}" for raw
    using judge_named [OF assms(1) tx(1) that] .
  note c = ingest_tx_cases [OF assms(5) [unfolded work_on_def]]
  have e: "entries (is_db w) = ?m \<or> (\<exists>t. tx_id t = tx_id ?tx \<and> entries (is_db w) = map_put t ?m \<and>
      named (su_pallas su) (su_hex su) (tx_id ?tx) (tx_raw t))"
  proof (cases ?v)
    case (Rejected y)
    with c raw [of y] show ?thesis by (auto intro!: exI [of _ "?tx\<lparr>tx_raw := y, tx_status := Failed\<rparr>"])
  next
    case (Accepted y)
    have "tx_id (?tx\<lparr>tx_raw := y, tx_status := InFlight, tx_slot := sl\<rparr>) = tx_id ?tx"
      "tx_raw (?tx\<lparr>tx_raw := y, tx_status := InFlight, tx_slot := sl\<rparr>) = y" for sl by simp_all
    with c Accepted raw [of y] show ?thesis by (fastforce split: if_splits)
  qed (use c in simp)
  have s: "\<forall>x\<in>set (is_sent w). x \<in> set (nd_sent n) \<or> named (su_pallas su) (su_hex su) (tx_id ?tx) x"
    using c raw by (auto split: verdict.splits if_splits)
  have dom: "entries (is_db w) i \<noteq> None \<longleftrightarrow> ?m i \<noteq> None" for i using e by (auto simp: map_put_def split: if_splits)
  have "named (su_pallas su) (su_hex su) i (e_raw x)" if "entries (is_db w) i = Some x" for i x
    using that e assms(2) unfolding ids_ok_def by (auto simp: map_put_def put_entry_def split: if_splits)
  with s dom tx(2) assms(2) show ?thesis unfolding ids_ok_def by (simp, blast)
qed

lemma node_step_ids:
  assumes "signing_keeps su" "node_inv su n" "node_step su a n n'" "ids_ok su n"
  shows "ids_ok su n'"
  using assms(3)
proof cases
  case (submitted chained gone obs items us r s')
  with submitted_ids [OF assms(4)] show ?thesis by blast
next
  case (scheduled iter_w iter_q len txs d)
  have "db_wf (nd_db n)" using assms(2) by (simp add: node_inv_def)
  note u = schedule_unit [OF this scheduled(4-6)] and s = schedule_same_tables [OF scheduled(6), THEN same_tables_predicates(3)]
  have "named (su_pallas su) (su_hex su) (tx_id t) (tx_raw t)" if "t \<in> set txs" for t
  proof -
    have "named (su_pallas su) (su_hex su) (tx_id t) (e_raw (entry_of_tx t))" using u that assms(4) unfolding ids_ok_def by blast
    then show ?thesis by (simp add: entry_of_tx_def)
  qed
  with u s assms(4) scheduled(2) show ?thesis by (auto simp: ids_ok_def)
next
  case (idle iter_w iter_q len r d)
  with assms(4) schedule_same_tables [THEN same_tables_predicates(3)] show ?thesis by (simp add: ids_ok_def)
next
  case (worked txs w)
  with work_on_ids [OF assms(1,4) worked(3-5)] show ?thesis by (simp add: ids_ok_def)
next
  case (retried txs f w)
  with work_on_ids [OF assms(1,4) retried(3-5)] show ?thesis by (simp add: ids_ok_def)
next
  case (abandoned txs f w)
  with work_on_ids [OF assms(1,4) abandoned(3-5)] show ?thesis by (simp add: ids_ok_def)
next
  case (finished txs)
  with assms(4) show ?thesis by (simp add: ids_ok_def)
next
  case (followed ev r d)
  have "monitor_ready ev (nd_db n)" using assms(2) followed(3) by (simp add: monitor_ready_def node_inv_def)
  note m = monitor_moved [OF this followed(4)]
  have "ids_ok su (with_db d n)"
  proof (rule ids_with_db [OF assms(4)])
    show "entries (nd_db n) i \<noteq> None \<Longrightarrow> entries d i \<noteq> None" for i using m [of i] by (auto simp: option_rel_Some1)
    show "named (su_pallas su) (su_hex su) i (e_raw e)" if "entries d i = Some e" for i e
      using m [of i] that assms(4) by (auto simp: option_rel_Some2 moved_def ids_ok_def)
  qed
  with followed show ?thesis by simp
qed

interpretation identity: inductive_invariant "node_init su" "\<lambda>n n'. \<exists>a. node_step su a n n'"
  "\<lambda>n. node_inv su n \<and> (signing_keeps su \<longrightarrow> ids_ok su n)" for su
proof unfold_locales
  show "node_init su n \<Longrightarrow> node_inv su n \<and> (signing_keeps su \<longrightarrow> ids_ok su n)" for n
    using node_init_inv by (auto simp: node_init_def ids_ok_def)
  show "node_inv su n' \<and> (signing_keeps su \<longrightarrow> ids_ok su n')"
    if "\<exists>a. node_step su a n n'" "node_inv su n \<and> (signing_keeps su \<longrightarrow> ids_ok su n)" for n n'
    using that node_step_inv node_step_ids by blast
qed

lemma node_reachable_ids: "node_reachable su n \<Longrightarrow> signing_keeps su \<Longrightarrow> ids_ok su n"
  unfolding node_reachable_def using identity.reach_inv by blast

section \<open>Properties\<close>

text \<open>C9. The id is the hash, always.  In every interleaving of submissions, ingestion, signing, retries and chain
  events, the bytes stored for a transaction decode to one whose hash is its id, and every message that was
  broadcast decodes to a transaction that is stored: nothing is sent that was not submitted.\<close>

theorem node_identity:
  assumes "node_reachable su n" "signing_keeps su"
  shows "(\<forall>i e. entries (nd_db n) i = Some e \<longrightarrow>
      (\<exists>metx. pl_decode (su_pallas su) (e_raw e) = Some metx \<and> su_hex su (pl_hash (su_pallas su) metx) = i)) \<and>
    (\<forall>raw\<in>set (nd_sent n). \<exists>metx. pl_decode (su_pallas su) raw = Some metx \<and>
       entries (nd_db n) (su_hex su (pl_hash (su_pallas su) metx)) \<noteq> None)"
  using node_reachable_ids [OF assms] by (fastforce simp: ids_ok_def named_def)

text \<open>What a chain event confirms: by the effect of a block or, when a later statement fails, by a part of it.\<close>

lemma monitor_confirms:
  assumes "monitor_ready ev d" "monitor_execute hex oc diff ev d = (r, d')"
    "entries d i = Some e" "e_status e \<noteq> Confirmed" "entries d' i = Some e'" "e_status e' = Confirmed"
  shows "\<exists>slot h txs. ev = RollForward (slot, h) txs \<and> in_block hex txs i \<and> e' = confirm_entry slot e"
  using assms(1,2)
proof (cases rule: monitor_entries)
  case effect
  with assms(3-6) show ?thesis
    by (cases ev) (auto simp: event_effect_def forward_entry_def rollback_entry_def split: if_splits prod.splits)
next
  case (confirms slot h txs)
  with assms(3-6) show ?thesis by (auto simp: upd_where_def split: if_splits)
qed (use assms(3-6) in simp)

text \<open>C8. Confirmed means on the chain.  Whenever a step of the node makes a stored transaction confirmed, the step is the
  processing of a block, the block contains a transaction with the hash of the stored bytes, and the slot recorded
  is that of the block; no other part of the node ever confirms anything.  The text form of a hash has to be injective on
  the hashes that occur (32 bytes each in the program).\<close>

theorem confirmed_is_on_chain:
  assumes "node_reachable su n" "signing_keeps su" "inj_on (su_hex su) hashes" "range (pl_hash (su_pallas su)) \<subseteq> hashes"
    "\<And>p btxs. a = Followed (RollForward p btxs) \<Longrightarrow> btx_hash ` set btxs \<subseteq> hashes" "node_step su a n n'"
    "entries (nd_db n) i = Some e" "e_status e \<noteq> Confirmed" "entries (nd_db n') i = Some e'" "e_status e' = Confirmed"
  shows "\<exists>slot h btxs metx. a = Followed (RollForward (slot, h) btxs) \<and> pl_decode (su_pallas su) (e_raw e') = Some metx \<and>
    pl_hash (su_pallas su) metx \<in> btx_hash ` set btxs \<and> e_slot e' = Some slot"
proof -
  have inv: "node_inv su n" using node_reachable_inv [OF assms(1)] .
  from node_step_keeps [OF inv assms(6,7)] assms(8-10) obtain ev where a: "a = Followed ev"
    by auto
  from assms(6) [unfolded a] obtain r d where f: "slot_small (Some (fst (event_point ev)))"
    "monitor_execute (su_hex su) (su_checks su) (su_diff su) ev (nd_db n) = (r, d)" "n' = with_db d n"
    by (auto elim: node_stepE)
  have "monitor_ready ev (nd_db n)" using inv f(1) by (simp add: monitor_ready_def node_inv_def)
  from monitor_confirms [OF this f(2) assms(7,8)] assms(9,10) f(3) obtain slot h btxs where
    b: "ev = RollForward (slot, h) btxs" "in_block (su_hex su) btxs i" "e' = confirm_entry slot e" by auto
  have "named (su_pallas su) (su_hex su) i (e_raw e)" using node_reachable_ids [OF assms(1,2)] assms(7) by (simp add: ids_ok_def)
  then obtain metx where m: "pl_decode (su_pallas su) (e_raw e) = Some metx" "su_hex su (pl_hash (su_pallas su) metx) = i"
    by (auto simp: named_def)
  from b(2) obtain t where t: "t \<in> set btxs" "su_hex su (btx_hash t) = i" by (auto simp: in_block_def)
  moreover have "btx_hash t \<in> hashes" "pl_hash (su_pallas su) metx \<in> hashes" using assms(4,5) a b(1) t(1) by auto
  ultimately have "btx_hash t = pl_hash (su_pallas su) metx" using m(2) assms(3) by (simp add: inj_on_def)
  then have "pl_hash (su_pallas su) metx \<in> btx_hash ` set btxs" using t(1) by (metis image_eqI)
  with a b m show ?thesis by (auto simp: confirm_entry_def)
qed

section \<open>Witnesses\<close>

lemma demo_signing_keeps: "signing_keeps demo_setup"
  by (simp add: signing_keeps_def demo_setup_def demo_answers_def demo_env_def)

lemma demo_hex_inj: "inj_on demo_hex {h. length h = 1}"
  by (auto simp: inj_on_def demo_hex_def length_Suc_conv replicate_eq_replicate intro: word_unat_eq_iff [THEN iffD2])

text \<open>The first transaction of the demo is in flight; then the block with hash \<open>[1]\<close> arrives.\<close>

lemma demo_in_flight:
  obtains n where "node_reachable demo_setup n" "nd_sent n = [[1]]" "no_faults (nd_db n)" "flights_before 120 n"
    "entries (nd_db n) ''x'' = Some ((entry_of_tx tx_x)\<lparr>e_raw := [1], e_status := InFlight, e_slot := Some 100\<rparr>)"
proof -
  let ?n = "demo_node demo_stored (Some [tx_x, tx_xx])"
  obtain n where n: "node_step demo_setup Worked ?n n" "no_faults (nd_db n)" "nd_sent n = nd_sent ?n @ [[1]]"
    "entries (nd_db n) = map_put (tx_x\<lparr>tx_raw := [1], tx_status := InFlight, tx_slot := Some 100\<rparr>) (entries (nd_db ?n))"
    using accepted_step [where n = ?n and su = demo_setup and tx = tx_x, OF demo_node_facts(1) _ _ demo_node_facts(6)]
      demo_verdicts(1) demo_answers_facts(1,2) demo_node_facts by fastforce
  have "node_reachable demo_setup n"
    using demo_reachable n(1) unfolding node_reachable_def by (blast intro: reach_step)
  moreover have "flights_before 120 n" using flights_before_put [OF demo_node_facts(8) n(4)] by simp
  moreover have "nd_sent n = [[1]]" using n(3) by (simp add: demo_node_def)
  ultimately show thesis using n(2,4) demo_node_facts(7,9) that by (simp add: map_put_def put_entry_def)
qed

theorem node_identity_witness:
  "\<exists>n metx. node_reachable demo_setup n \<and> [1] \<in> set (nd_sent n) \<and> pl_decode demo_pallas [1] = Some metx \<and>
     entries (nd_db n) (demo_hex (pl_hash demo_pallas metx)) \<noteq> None"
proof -
  obtain n where n: "node_reachable demo_setup n" "nd_sent n = [[1]]" by (rule demo_in_flight)
  with node_identity [OF n(1) demo_signing_keeps] show ?thesis by (force simp: demo_setup_def)
qed

theorem confirmed_is_on_chain_witness:
  "\<exists>n n' e. node_step demo_setup (Followed (RollForward (120, []) [\<lparr>btx_hash = [1]\<rparr>])) n n' \<and>
     entries (nd_db n') ''x'' = Some e \<and> e_status e = Confirmed \<and> e_slot e = Some 120 \<and>
     (\<exists>metx. pl_decode demo_pallas (e_raw e) = Some metx \<and> pl_hash demo_pallas metx = [1])"
proof -
  obtain n where n: "node_reachable demo_setup n" "no_faults (nd_db n)" "flights_before 120 n"
    "entries (nd_db n) ''x'' = Some ((entry_of_tx tx_x)\<lparr>e_raw := [1], e_status := InFlight, e_slot := Some 100\<rparr>)"
    by (rule demo_in_flight)
  have "slot_small (Some 120)" by (simp add: slot_small_def)
  from block_confirms [OF node_reachable_inv [OF n(1)] n(2) this n(3) demo_node_facts(11) [unfolded demo_node_facts(9)] n(4)]
  obtain d where d: "node_step demo_setup (Followed (RollForward (120, []) [\<lparr>btx_hash = [1]\<rparr>])) n (with_db d n)"
    "entries d ''x'' = Some (confirm_entry 120 ((entry_of_tx tx_x)\<lparr>e_raw := [1], e_status := InFlight, e_slot := Some 100\<rparr>))"
    by simp blast
  have "su_hex demo_setup = demo_hex" "su_pallas demo_setup = demo_pallas" "range (pl_hash demo_pallas) \<subseteq> {h. length h = 1}"
    by (auto simp: demo_setup_def demo_pallas_def)
  with confirmed_is_on_chain [OF n(1) demo_signing_keeps _ _ _ d(1) n(4), of "{h. length h = 1}"] demo_hex_inj d show ?thesis
    by (fastforce simp: confirm_entry_def)
qed

end
