(* ===== verification/Fine_Monitor.thy ===== *)
theory Fine_Monitor
  imports Fine_Interleaving Tx_Identity
begin

text \<open>
  The node with the monitor cut where it waits, too.  \<open>execute\<close> of \<^verbatim>\<open>src/pipeline/monitor.rs\<close> reads transactions,
  writes the confirmed (or rolled back) ones, then the ones to be retried, then the cursor, and waits for the storage each
  time.  It goes on working with the copies it has read, while submissions are stored and the ingest stage marks
  transactions.  Here the four parts are moves of their own and everything else may happen between them.
\<close>

section \<open>The parts of \<open>execute\<close>\<close>

definition monitor_find :: "Event \<Rightarrow> Transaction list work" where
  "monitor_find ev =
     (case ev of
        RollForward _ _ \<Rightarrow> or_retry (find_status InFlight)
      | Rollback (slot, _) \<Rightarrow> or_retry (find_to_rollback slot))"

definition txs_confirm :: "(bytes \<Rightarrow> string) \<Rightarrow> u64 \<Rightarrow> block_tx list \<Rightarrow> Transaction list \<Rightarrow> Transaction list" where
  "txs_confirm hex slot txs txs_inflight = map (confirm_tx slot) (filter (\<lambda>itx. in_block hex txs (tx_id itx)) txs_inflight)"

definition monitor_batch :: "(bytes \<Rightarrow> string) \<Rightarrow> Event \<Rightarrow> Transaction list \<Rightarrow> (worker_error, Transaction list) outcome" where
  "monitor_batch hex ev ts =
     (case ev of
        RollForward (slot, _) txs \<Rightarrow> Inr (txs_confirm hex slot txs ts)
      | Rollback (slot, _) \<Rightarrow> sequence (map (rollback_tx slot) ts))"

definition monitor_write :: "Event \<Rightarrow> Transaction list \<Rightarrow> unit work" where
  "monitor_write ev batch =
     (case ev of
        RollForward _ _ \<Rightarrow> update_unless_empty batch
      | Rollback _ \<Rightarrow> or_retry (update_batch batch))"

definition monitor_due :: "(bytes \<Rightarrow> string) \<Rightarrow> bool \<Rightarrow> u64 \<Rightarrow> Event \<Rightarrow> Transaction list \<Rightarrow> (worker_error, Transaction list) outcome" where
  "monitor_due hex oc diff ev ts =
     (case ev of
        RollForward (slot, _) txs \<Rightarrow> filter_res (retry_due oc diff slot (txs_confirm hex slot txs ts)) ts
      | Rollback _ \<Rightarrow> Inr [])"

definition monitor_record :: "Event \<Rightarrow> unit work" where
  "monitor_record ev = (case event_point ev of (slot, hash) \<Rightarrow> or_retry (cursor_set (Cursor_new slot hash)))"

text \<open>Where the monitor waits: before an event, with the copies it has read, after the first batch, before the cursor.\<close>

datatype mon_phase =
  Resting | Looked Event "Transaction list" | Batched Event "Transaction list" | Settled Event

fun monitor_turn :: "(bytes \<Rightarrow> string) \<Rightarrow> bool \<Rightarrow> u64 \<Rightarrow> mon_phase \<Rightarrow> mon_phase work" where
  "monitor_turn hex oc diff Resting = sx_return Resting"
| "monitor_turn hex oc diff (Looked ev ts) =
     sx_bind (sx_lift (monitor_batch hex ev ts)) (\<lambda>batch.
     sx_bind (monitor_write ev batch) (\<lambda>_. sx_return (Batched ev ts)))"
| "monitor_turn hex oc diff (Batched ev ts) =
     sx_bind (sx_lift (monitor_due hex oc diff ev ts)) (\<lambda>due.
     sx_bind (update_unless_empty (map retry_tx due)) (\<lambda>_. sx_return (Settled ev)))"
| "monitor_turn hex oc diff (Settled ev) = sx_bind (monitor_record ev) (\<lambda>_. sx_return Resting)"

text \<open>With nothing in between, the parts are \<open>execute\<close>.\<close>

lemma monitor_execute_parts:
  "monitor_execute hex oc diff ev =
     sx_bind (monitor_find ev) (\<lambda>ts. sx_bind (monitor_turn hex oc diff (Looked ev ts)) (\<lambda>p.
     sx_bind (monitor_turn hex oc diff p) (\<lambda>p'. sx_bind (monitor_turn hex oc diff p') (\<lambda>_. sx_return ()))))"
proof (rule ext)
  fix d
  show "monitor_execute hex oc diff ev d = sx_bind (monitor_find ev) (\<lambda>ts. sx_bind (monitor_turn hex oc diff (Looked ev ts)) (\<lambda>p.
     sx_bind (monitor_turn hex oc diff p) (\<lambda>p'. sx_bind (monitor_turn hex oc diff p') (\<lambda>_. sx_return ())))) d"
  proof (cases ev)
    case (RollForward p txs)
    then show ?thesis
      by (cases p) (simp add: monitor_execute_def roll_forward_def monitor_find_def monitor_batch_def monitor_write_def
          monitor_due_def monitor_record_def txs_confirm_def Let_def sx_bind_def sx_lift_def sx_return_def
          split: prod.splits sum.splits)
  next
    case (Rollback p)
    then show ?thesis
      by (cases p) (simp add: monitor_execute_def roll_back_def monitor_find_def monitor_batch_def monitor_write_def
          monitor_due_def monitor_record_def update_unless_empty_def sx_bind_def sx_lift_def sx_return_def
          split: prod.splits sum.splits)
  qed
qed

section \<open>The node, cut\<close>

record mon_node =
  mo_fine :: fine_node
  mo_phase :: mon_phase

abbreviation mo_node :: "mon_node \<Rightarrow> node" where
  "mo_node m \<equiv> fn_node (mo_fine m)"

abbreviation mo_db :: "mon_node \<Rightarrow> db" where
  "mo_db m \<equiv> nd_db (mo_node m)"

definition mo_with_db :: "db \<Rightarrow> mon_phase \<Rightarrow> mon_node \<Rightarrow> mon_node" where
  "mo_with_db d p m = \<lparr>mo_fine = (mo_fine m)\<lparr>fn_node := with_db d (mo_node m)\<rparr>, mo_phase = p\<rparr>"

lemma mo_with_db_sel [simp]:
  "mo_db (mo_with_db d p m) = d" "nd_sent (mo_node (mo_with_db d p m)) = nd_sent (mo_node m)"
  "nd_unit (mo_node (mo_with_db d p m)) = nd_unit (mo_node m)" "nd_next (mo_node (mo_with_db d p m)) = nd_next (mo_node m)"
  "nd_mark (mo_node (mo_with_db d p m)) = nd_mark (mo_node m)" "mo_phase (mo_with_db d p m) = p"
  "fn_sent (mo_fine (mo_with_db d p m)) = fn_sent (mo_fine m)" "mo_node (mo_with_db d p m) = with_db d (mo_node m)"
  by (simp_all add: mo_with_db_def)

text \<open>
  \<open>Beside\<close> is a move of the submit service or of the ingest stage, \<open>Looks\<close> the first part of an event, \<open>Turns\<close> the next
  part.  After a fault of any kind the monitor is before an event again, the same one or another.
\<close>

datatype mon_action = Beside fine_action | Looks Event | Turns

inductive mon_step :: "('tx, 'out, 'rep) node_setup \<Rightarrow> mon_action \<Rightarrow> mon_node \<Rightarrow> mon_node \<Rightarrow> bool"
  for su :: "('tx, 'out, 'rep) node_setup" where
  beside:
    "fine_step su a (mo_fine m) f \<Longrightarrow> (\<And>ev. a \<noteq> Coarse (Followed ev)) \<Longrightarrow> mon_step su (Beside a) m (m\<lparr>mo_fine := f\<rparr>)"
| looks:
    "mo_phase m = Resting \<Longrightarrow> slot_small (Some (fst (event_point ev))) \<Longrightarrow> monitor_find ev (mo_db m) = (r, d) \<Longrightarrow>
     mon_step su (Looks ev) m (mo_with_db d (case r of Inl _ \<Rightarrow> Resting | Inr ts \<Rightarrow> Looked ev ts) m)"
| turns:
    "mo_phase m \<noteq> Resting \<Longrightarrow> monitor_turn (su_hex su) (su_checks su) (su_diff su) (mo_phase m) (mo_db m) = (r, d) \<Longrightarrow>
     mon_step su Turns m (mo_with_db d (case r of Inl _ \<Rightarrow> Resting | Inr p \<Rightarrow> p) m)"

inductive_cases mon_stepE: "mon_step su a m m'"

definition mon_init :: "('tx, 'out, 'rep) node_setup \<Rightarrow> mon_node \<Rightarrow> bool" where
  "mon_init su m \<longleftrightarrow> fine_init su (mo_fine m) \<and> mo_phase m = Resting"

definition mon_reachable :: "('tx, 'out, 'rep) node_setup \<Rightarrow> mon_node \<Rightarrow> bool" where
  "mon_reachable su = reach (mon_init su) (\<lambda>m m'. \<exists>a. mon_step su a m m')"


text \<open>An event that nothing disturbs is the one move of the coarser node.\<close>

lemma turn_with:
  assumes "p \<noteq> Resting" "monitor_turn (su_hex su) (su_checks su) (su_diff su) p d = (r, d')"
  shows "mon_step su Turns (mo_with_db d p m) (mo_with_db d' (case r of Inl _ \<Rightarrow> Resting | Inr p' \<Rightarrow> p') m)"
proof -
  have "mo_with_db d' q (mo_with_db d p m) = mo_with_db d' q m" for q by (simp add: mo_with_db_def with_db_def)
  with turns [of "mo_with_db d p m" su r d'] assms show ?thesis by simp
qed

lemma parts_are_followed:
  assumes "mo_phase m = Resting" "node_step su (Followed ev) (mo_node m) n'"
  shows "\<exists>m1. mon_step su (Looks ev) m m1 \<and> (mon_step su Turns)\<^sup>*\<^sup>* m1 \<lparr>mo_fine = (mo_fine m)\<lparr>fn_node := n'\<rparr>, mo_phase = Resting\<rparr>"
proof -
  let ?turn = "monitor_turn (su_hex su) (su_checks su) (su_diff su)"
  from assms(2) obtain r d where ev: "slot_small (Some (fst (event_point ev)))"
    "monitor_execute (su_hex su) (su_checks su) (su_diff su) ev (mo_db m) = (r, d)" "n' = with_db d (mo_node m)"
    by (auto elim: node_stepE)
  obtain r1 d1 where f: "monitor_find ev (mo_db m) = (r1, d1)" by fastforce
  define p1 where "p1 = (case r1 of Inl _ \<Rightarrow> Resting | Inr ts \<Rightarrow> Looked ev ts)"
  obtain r2 d2 where t2: "?turn p1 d1 = (r2, d2)" by fastforce
  define p2 where "p2 = (case r2 of Inl _ \<Rightarrow> Resting | Inr p \<Rightarrow> p)"
  obtain r3 d3 where t3: "?turn p2 d2 = (r3, d3)" by fastforce
  define p3 where "p3 = (case r3 of Inl _ \<Rightarrow> Resting | Inr p \<Rightarrow> p)"
  obtain r4 d4 where t4: "?turn p3 d3 = (r4, d4)" by fastforce
  define p4 where "p4 = (case r4 of Inl _ \<Rightarrow> Resting | Inr p \<Rightarrow> p)"
  have go: "(mon_step su Turns)\<^sup>*\<^sup>* (mo_with_db e p m) (mo_with_db e' (case q of Inl _ \<Rightarrow> Resting | Inr p' \<Rightarrow> p') m)"
    if "?turn p e = (q, e')" for p e q e'
  proof (cases "p = Resting")
    case True
    with that show ?thesis by (auto simp: sx_return_def)
  qed (use that turn_with in blast)
  have "(mon_step su Turns)\<^sup>*\<^sup>* (mo_with_db d1 p1 m) (mo_with_db d4 p4 m)"
    using go [OF t2] go [OF t3] go [OF t4] unfolding p2_def [symmetric] p3_def [symmetric] p4_def [symmetric]
    by (meson rtranclp_trans)
  moreover have "p4 = Resting \<and> d4 = d"
    using ev(2) f t2 t3 t4 unfolding p4_def p3_def p2_def p1_def
    by (auto simp: monitor_execute_parts sx_bind_def sx_return_def split: sum.splits prod.splits)
  moreover have "mon_step su (Looks ev) m (mo_with_db d1 p1 m)" unfolding p1_def using assms(1) ev(1) f by (rule looks)
  ultimately show ?thesis using ev(3) by (auto simp: mo_with_db_def)
qed

lemma fine_runs_cut:
  assumes "fine_reachable su f"
  shows "mon_reachable su \<lparr>mo_fine = f, mo_phase = Resting\<rparr>"
  using assms unfolding fine_reachable_def mon_reachable_def
proof (induction rule: reach.induct)
  case (reach_init f)
  then show ?case by (intro reach.reach_init) (simp add: mon_init_def)
next
  case (reach_step f f')
  let ?R = "reach (mon_init su) (\<lambda>m m'. \<exists>a. mon_step su a m m')"
  from reach_step obtain a where a: "fine_step su a f f'" by blast
  show ?case
  proof (cases "\<exists>ev. a = Coarse (Followed ev)")
    case True
    with a obtain ev n where f': "node_step su (Followed ev) (fn_node f) n" "f' = f\<lparr>fn_node := n\<rparr>" by (auto elim: fine_stepE)
    obtain m1 where m1: "mon_step su (Looks ev) \<lparr>mo_fine = f, mo_phase = Resting\<rparr> m1"
      "(mon_step su Turns)\<^sup>*\<^sup>* m1 \<lparr>mo_fine = f', mo_phase = Resting\<rparr>"
      using parts_are_followed [of "\<lparr>mo_fine = f, mo_phase = Resting\<rparr>" su ev n] f' by auto
    from reach_step.IH m1(1) have "?R m1" by (blast intro: reach.reach_step)
    with m1(2) show ?thesis by (induction rule: rtranclp_induct) (blast intro: reach.reach_step)+
  next
    case False
    with beside [of su a "\<lparr>mo_fine = f, mo_phase = Resting\<rparr>" f'] a
    have "mon_step su (Beside a) \<lparr>mo_fine = f, mo_phase = Resting\<rparr> \<lparr>mo_fine = f', mo_phase = Resting\<rparr>" by auto
    with reach_step.IH show ?thesis by (blast intro: reach.reach_step)
  qed
qed

section \<open>What a batch of copies does\<close>

definition batch_put :: "Transaction list \<Rightarrow> (string \<Rightarrow> entry option) \<Rightarrow> (string \<Rightarrow> entry option) \<Rightarrow> bool" where
  "batch_put b m m' \<longleftrightarrow> (\<forall>i. i \<notin> tx_id ` set b \<longrightarrow> m' i = m i) \<and>
     (\<forall>t\<in>set b. m' (tx_id t) = map_option (put_entry t) (m (tx_id t)))"

lemma update_batch_put:
  assumes "or_retry (update_batch b) d = (r, d')" "distinct (map tx_id b)"
  shows "(\<exists>f. r = Inl f) \<and> entries d' = entries d \<or> r = Inr () \<and> batch_put b (entries d) (entries d')"
proof (cases r)
  case (Inl f)
  with assms(1) update_batch_err [of b d _ d'] show ?thesis by (auto simp: or_retry_Inl same_tables_predicates)
next
  case (Inr x)
  with assms(1) have "entries d' = fold map_put b (entries d)" by (simp add: update_batch_ok(1))
  with tx_put.fold_upd_hit [OF assms(2)] tx_put.fold_upd_other [of _ b "entries d"] Inr show ?thesis
    unfolding batch_put_def by (cases x) auto
qed

lemma update_unless_empty_put:
  assumes "update_unless_empty b d = (r, d')" "distinct (map tx_id b)"
  shows "(\<exists>f. r = Inl f) \<and> entries d' = entries d \<or> r = Inr () \<and> batch_put b (entries d) (entries d')"
  using assms update_batch_put [of b d r d']
  by (cases "b = []") (auto simp: update_unless_empty_def sx_return_def batch_put_def)


section \<open>The copies the monitor holds\<close>

text \<open>The copies that a coming part may still write back, and the status they were read with.\<close>

fun held :: "(bytes \<Rightarrow> string) \<Rightarrow> mon_phase \<Rightarrow> Transaction list" where
  "held hex (Looked ev ts) = ts"
| "held hex (Batched (RollForward p txs) ts) = filter (\<lambda>t. \<not> in_block hex txs (tx_id t)) ts"
| "held hex _ = []"

fun held_status :: "mon_phase \<Rightarrow> TransactionStatus" where
  "held_status (Looked (Rollback p) ts) = Confirmed"
| "held_status _ = InFlight"

fun phase_small :: "mon_phase \<Rightarrow> bool" where
  "phase_small Resting \<longleftrightarrow> True"
| "phase_small (Looked ev ts) \<longleftrightarrow> slot_small (Some (fst (event_point ev)))"
| "phase_small (Batched ev ts) \<longleftrightarrow> slot_small (Some (fst (event_point ev)))"
| "phase_small (Settled ev) \<longleftrightarrow> slot_small (Some (fst (event_point ev)))"

text \<open>
  A copy was read in flight or confirmed, so that its bytes were sent.  What is stored now may have changed since: the
  ingest stage may have marked it again, as in flight or as failed; but it is not pending.
\<close>

definition copy_ok :: "TransactionStatus \<Rightarrow> node \<Rightarrow> Transaction \<Rightarrow> bool" where
  "copy_ok st n t \<longleftrightarrow> tx_status t = st \<and> tx_raw t \<in> set (nd_sent n) \<and> slot_small (tx_slot t) \<and>
     (\<exists>e. entries (nd_db n) (tx_id t) = Some e \<and> e_status e \<in> {st, InFlight, Failed})"

definition after_rollback :: "mon_phase \<Rightarrow> bool" where
  "after_rollback p \<longleftrightarrow> (\<forall>slot h ts. p = Looked (Rollback (slot, h)) ts \<longrightarrow> (\<forall>t\<in>set ts. \<exists>s. tx_slot t = Some s \<and> slot < s))"

definition phase_ok :: "(bytes \<Rightarrow> string) \<Rightarrow> node \<Rightarrow> mon_phase \<Rightarrow> bool" where
  "phase_ok hex n p \<longleftrightarrow> phase_small p \<and> after_rollback p \<and> distinct (map tx_id (held hex p)) \<and>
     (\<forall>t\<in>set (held hex p). copy_ok (held_status p) n t)"

text \<open>What a part makes of a copy.\<close>

fun turned :: "(bytes \<Rightarrow> string) \<Rightarrow> u64 \<Rightarrow> mon_phase \<Rightarrow> Transaction \<Rightarrow> Transaction \<Rightarrow> bool" where
  "turned hex diff (Looked (RollForward (slot, h) txs) ts) t t' \<longleftrightarrow> in_block hex txs (tx_id t) \<and> t' = confirm_tx slot t"
| "turned hex diff (Looked (Rollback (slot, h)) ts) t t' \<longleftrightarrow>
     (\<exists>s. tx_slot t = Some s \<and> slot < s) \<and> t' = t\<lparr>tx_status := InFlight, tx_slot := None\<rparr>"
| "turned hex diff (Batched (RollForward (slot, h) txs) ts) t t' \<longleftrightarrow>
     (\<exists>s. tx_slot t = Some s \<and> diff < slot - s) \<and> t' = retry_tx t"
| "turned hex diff _ t t' \<longleftrightarrow> False"

lemma turned_keeps:
  assumes "turned hex diff p t t'" "phase_small p"
  shows "tx_id t' = tx_id t" "tx_raw t' = tx_raw t" "slot_small (tx_slot t')"
  using assms by (cases "(hex, diff, p, t, t')" rule: turned.cases; auto simp: confirm_tx_def retry_tx_def slot_small_def)+

lemma filter_res_trues: "filter_res p xs = Inr ys \<Longrightarrow> ys = filter (\<lambda>x. p x = Inr True) xs"
  by (induction xs arbitrary: ys) auto

lemma confirm_ids: "tx_id ` set (txs_confirm hex slot txs ts) = {i \<in> tx_id ` set ts. in_block hex txs i}"
  by (auto simp: txs_confirm_def put_confirm(1) image_image)

lemma retry_due_True:
  "t \<in> set ts \<Longrightarrow> retry_due oc diff slot (txs_confirm hex slot txs ts) t = Inr True \<longleftrightarrow>
     \<not> in_block hex txs (tx_id t) \<and> (\<exists>s. tx_slot t = Some s \<and> diff < slot - s \<and> \<not> (oc \<and> slot < s))"
  by (cases "tx_slot t") (auto simp: retry_due_value confirm_ids)

lemma due_held:
  assumes "monitor_due hex oc diff ev ts = Inr due" "t \<in> set due"
  shows "t \<in> set (held hex (Batched ev ts)) \<and> turned hex diff (Batched ev ts) t (retry_tx t)"
proof (cases ev)
  case (RollForward p txs)
  obtain slot h where p: "p = (slot, h)" by fastforce
  from assms RollForward p have "t \<in> set ts" "retry_due oc diff slot (txs_confirm hex slot txs ts) t = Inr True"
    by (auto simp: monitor_due_def dest!: filter_res_trues)
  then show ?thesis using RollForward p by (auto simp: retry_due_True)
qed (use assms in \<open>simp add: monitor_due_def\<close>)

lemma due_distinct:
  assumes "monitor_due hex oc diff ev ts = Inr due" "distinct (map tx_id (held hex (Batched ev ts)))"
  shows "distinct (map tx_id due)"
proof (cases ev)
  case (RollForward p txs)
  obtain slot h where p: "p = (slot, h)" by fastforce
  let ?q = "\<lambda>t. retry_due oc diff slot (txs_confirm hex slot txs ts) t = Inr True"
  have "due = filter ?q ts" using assms(1) RollForward p by (auto simp: monitor_due_def dest!: filter_res_trues)
  also have "\<dots> = filter ?q (filter (\<lambda>t. \<not> in_block hex txs (tx_id t)) ts)"
    by (auto simp: retry_due_True intro!: filter_cong)
  finally show ?thesis using assms(2) RollForward by (simp add: distinct_map_filter del: filter_filter)
qed (use assms in \<open>simp add: monitor_due_def\<close>)

lemma batch_held:
  assumes "phase_ok hex n (Looked ev ts)" "monitor_batch hex ev ts = Inr b"
  shows "distinct (map tx_id b) \<and> (\<forall>t'\<in>set b. \<exists>t\<in>set ts. turned hex diff (Looked ev ts) t t')"
proof (cases ev)
  case (RollForward p txs)
  obtain slot h where p: "p = (slot, h)" by fastforce
  with assms RollForward have "b = map (confirm_tx slot) (filter (\<lambda>t. in_block hex txs (tx_id t)) ts)"
    "distinct (map tx_id ts)" by (simp_all add: monitor_batch_def txs_confirm_def phase_ok_def)
  then show ?thesis using RollForward p by (auto simp: o_def put_confirm(1) distinct_map_filter)
next
  case (Rollback p)
  obtain slot h where p: "p = (slot, h)" by fastforce
  let ?f = "\<lambda>t. t\<lparr>tx_status := InFlight, tx_slot := None\<rparr> :: Transaction"
  have ts: "distinct (map tx_id ts)" "\<forall>t\<in>set ts. \<exists>s. tx_slot t = Some s \<and> slot < s"
    using assms(1) Rollback p by (simp_all add: phase_ok_def after_rollback_def)
  have "sequence (map (rollback_tx slot) ts) = Inr (map ?f ts)"
    using ts(2) rollback_tx_found by (intro sequence_cong_Inr) blast
  with assms(2) Rollback p have "b = map ?f ts" by (simp add: monitor_batch_def)
  then show ?thesis using ts Rollback p by (auto simp: o_def)
qed


text \<open>One part of an event: the stored transactions stay, or one batch of held copies is written.\<close>

lemma turn_cases:
  assumes "phase_ok hex n p" "monitor_turn hex oc diff p d = (r, d')" "db_wf d" "slots_wf d"
  shows "db_wf d' \<and> slots_wf d' \<and>
    ((\<exists>f. r = Inl f) \<and> entries d' = entries d \<or>
     (\<exists>ev. p = Settled ev) \<and> r = Inr Resting \<and> entries d' = entries d \<or> p = Resting \<and> r = Inr Resting \<and> d' = d \<or>
     (\<exists>b. batch_put b (entries d) (entries d') \<and> (\<forall>t'\<in>set b. \<exists>t\<in>set (held hex p). turned hex diff p t t') \<and>
        (\<exists>ev ts. p = Looked ev ts \<and> r = Inr (Batched ev ts) \<or> p = Batched ev ts \<and> r = Inr (Settled ev))))"
proof (cases p)
  case Resting
  with assms show ?thesis by (auto simp: sx_return_def)
next
  case (Looked ev ts)
  show ?thesis
  proof (cases "monitor_batch hex ev ts")
    case (Inl f)
    with assms Looked show ?thesis by (auto simp: sx_bind_def sx_lift_def)
  next
    case (Inr b)
    obtain r1 d1 where w: "monitor_write ev b d = (r1, d1)" by fastforce
    note b = batch_held [OF assms(1) [unfolded Looked] Inr, of diff]
    have small: "slot_small (tx_slot t)" if "t \<in> set b" for t
      using b that turned_keeps(3) assms(1) Looked unfolding phase_ok_def by blast
    have "keeps db_wf (monitor_write ev b)" "keeps slots_wf (monitor_write ev b)"
      using update_unless_empty_keeps [OF small] update_batch_slots [OF small] update_batch_keeps_wf
      by (auto simp: monitor_write_def split: Event.splits)
    with w assms(3,4) have "db_wf d1" "slots_wf d1" by (metis keepsD)+
    moreover have "(\<exists>f. r1 = Inl f) \<and> entries d1 = entries d \<or> r1 = Inr () \<and> batch_put b (entries d) (entries d1)"
      using w b update_unless_empty_put [of b d r1 d1] update_batch_put [of b d r1 d1]
      by (auto simp: monitor_write_def split: Event.splits)
    moreover have "d' = d1" "r = (case r1 of Inl f \<Rightarrow> Inl f | Inr _ \<Rightarrow> Inr (Batched ev ts))"
      using assms(2) Looked Inr w by (auto simp: sx_bind_def sx_lift_def sx_return_def split: sum.splits)
    ultimately show ?thesis using b Looked by auto
  qed
next
  case (Batched ev ts)
  show ?thesis
  proof (cases "monitor_due hex oc diff ev ts")
    case (Inl f)
    with assms Batched show ?thesis by (auto simp: sx_bind_def sx_lift_def)
  next
    case (Inr due)
    obtain r1 d1 where w: "update_unless_empty (map retry_tx due) d = (r1, d1)" by fastforce
    have di: "distinct (map tx_id (map retry_tx due))"
      using due_distinct [OF Inr] assms(1) Batched by (simp add: phase_ok_def o_def put_retry)
    have "db_wf d1" "slots_wf d1"
      using keepsD [OF update_unless_empty_keeps(1) _ w] keepsD [OF update_unless_empty_keeps(2) _ w]
        slot_small_maps(2) assms(3,4) by blast+
    moreover note update_unless_empty_put [OF w di]
    moreover have "d' = d1" "r = (case r1 of Inl f \<Rightarrow> Inl f | Inr _ \<Rightarrow> Inr (Settled ev))"
      using assms(2) Batched Inr w by (auto simp: sx_bind_def sx_lift_def sx_return_def split: sum.splits)
    moreover have "\<exists>t\<in>set (held hex p). turned hex diff p t t'" if "t' \<in> set (map retry_tx due)" for t'
      using that due_held [OF Inr] Batched by auto
    ultimately show ?thesis using Batched by auto
  qed
next
  case (Settled ev)
  obtain slot h where p: "event_point ev = (slot, h)" by fastforce
  have "sx_bind (sx_return ()) (\<lambda>_. or_retry (cursor_set (Cursor_new slot h))) d =
      (case r of Inl f \<Rightarrow> Inl f | Inr _ \<Rightarrow> Inr (), d')"
    using assms(2) Settled p
    by (auto simp: monitor_record_def sx_bind_def sx_return_def split: sum.splits prod.splits)
  moreover have "r = Inr Resting \<or> (\<exists>f. r = Inl f)"
    using assms(2) Settled by (auto simp: sx_bind_def sx_return_def split: sum.splits prod.splits)
  ultimately show ?thesis using then_cursor [of "sx_return ()" slot h d _ d' "Inr ()" d] assms(3,4) Settled
    by (auto simp: sx_return_def)
qed

section \<open>The other parts of the node\<close>

lemma node_step_sent: "node_step su a n n' \<Longrightarrow> set (nd_sent n) \<subseteq> set (nd_sent n')"
  by (erule node_stepE) (auto elim!: work_on_cases)

lemma mark_flight_sent: "mark_flight e t w = (r, w') \<Longrightarrow> is_sent w' = is_sent w"
  using mark_flight_cases [of e t w r w'] by (metis ingest_state.select_convs(2) ingest_state.surjective ingest_state.update_convs(1))

lemma fine_step_sent: "fine_step su a f f' \<Longrightarrow> set (nd_sent (fn_node f)) \<subseteq> set (nd_sent (fn_node f'))"
  by (erule fine_stepE) (auto dest: node_step_sent mark_flight_sent simp: send_message_def sx_modify_def)

lemma fine_step_keeps:
  assumes "fine_inv su f" "fine_step su a f f'" "entries (nd_db (fn_node f)) i = Some e" "\<And>ev. a \<noteq> Coarse (Followed ev)"
  shows "\<exists>e'. entries (nd_db (fn_node f')) i = Some e' \<and> e_queue e' = e_queue e \<and> e_created e' = e_created e \<and>
    (e_status e' = e_status e
     \<or> (\<exists>txs. a \<in> {Coarse Worked, Marked} \<and> nd_unit (fn_node f) = Some txs \<and> nd_next (fn_node f) < length txs \<and>
          i = tx_id (txs ! nd_next (fn_node f))) \<and>
       (e_status e = Pending \<or> nd_next (fn_node f) < nd_mark (fn_node f)) \<and> e_status e' \<in> {Failed, InFlight})"
  using assms(2)
proof cases
  case (coarse b n)
  have inv: "node_inv su (fn_node f)" using assms(1) by (simp add: fine_inv_def)
  have "b \<noteq> Followed ev" for ev using assms(4) coarse(1) by blast
  with node_step_keeps [OF inv coarse(3) assms(3)] coarse(1,2) show ?thesis by auto
next
  case (sent txs tx x raw w)
  then have "is_db w = nd_db (fn_node f)" by (auto simp: send_message_def sx_modify_def)
  with sent(2) assms(3) show ?thesis by simp
next
  case (marked tx x w)
  let ?n = "fn_node f"
  from mark_flight_cases [OF marked(4)] obtain tip where
    w: "entries (is_db w) = map_put (tx\<lparr>tx_status := InFlight, tx_slot := Some (fst tip)\<rparr>) (entries (nd_db ?n))" by auto
  from assms(1) marked(3) obtain txs where u: "nd_unit ?n = Some txs" "nd_next ?n < length txs" "tx_id tx = tx_id (txs ! nd_next ?n)"
    by (auto simp: fine_inv_def sent_ok_def)
  have "e_status e = Pending \<or> nd_next ?n < nd_mark ?n" if "i = tx_id tx"
    using assms(1,3) u that unfolding fine_inv_def node_inv_def unit_ok_def
    by (metis entry_of_tx_sel(1) not_less option.inject)
  with w u assms(3) marked(1,2) show ?thesis by (cases "i = tx_id tx") (auto simp: map_put_def put_entry_def)
next
  case (mark_retried tx x y w)
  with mark_flight_cases [OF mark_retried(4)] assms(3) show ?thesis by auto
qed

section \<open>The invariant\<close>

definition mon_inv :: "('tx, 'out, 'rep) node_setup \<Rightarrow> mon_node \<Rightarrow> bool" where
  "mon_inv su m \<longleftrightarrow> fine_inv su (mo_fine m) \<and> phase_ok (su_hex su) (mo_node m) (mo_phase m)"

lemma copy_ok_beside:
  assumes "fine_inv su f" "fine_step su a f f'" "\<And>ev. a \<noteq> Coarse (Followed ev)" "copy_ok st (fn_node f) t"
  shows "copy_ok st (fn_node f') t"
proof -
  from assms(4) obtain e where e: "entries (nd_db (fn_node f)) (tx_id t) = Some e" "e_status e \<in> {st, InFlight, Failed}"
    by (auto simp: copy_ok_def)
  from fine_step_keeps [OF assms(1,2) e(1) assms(3)] e(2) have
    "\<exists>e'. entries (nd_db (fn_node f')) (tx_id t) = Some e' \<and> e_status e' \<in> {st, InFlight, Failed}" by auto
  with assms(4) fine_step_sent [OF assms(2)] show ?thesis by (auto simp: copy_ok_def)
qed

lemma stored_copy_ok:
  assumes "node_inv su n" "entries (nd_db n) (tx_id t) = Some (entry_of_tx t)" "tx_status t \<in> {InFlight, Confirmed}"
  shows "copy_ok (tx_status t) n t"
proof -
  obtain r where "r \<in> set (tx_tbl (nd_db n))" "entry_of_row r = entry_of_tx t"
    using assms(1,2) by (auto simp: node_inv_def entries_Some_iff)
  then have "slot_small (tx_slot t)"
    using assms(1) by (auto simp: node_inv_def slots_wf_def entry_of_row_def entry_of_tx_def)
  moreover have "tx_raw t \<in> set (nd_sent n)"
    using assms unfolding node_inv_def flown_def by (metis entry_of_tx_sel(1,4))
  ultimately show ?thesis using assms(2) by (simp add: copy_ok_def)
qed

lemma find_phase_ok:
  assumes "node_inv su n" "slot_small (Some (fst (event_point ev)))" "monitor_find ev (nd_db n) = (Inr ts, d)"
  shows "phase_ok hex n (Looked ev ts)"
proof (cases ev)
  case (RollForward p txs)
  have wf: "db_wf (nd_db n)" using assms(1) by (simp add: node_inv_def)
  have f: "find_status InFlight (nd_db n) = (Inr ts, d)" using assms(3) RollForward by (simp add: monitor_find_def)
  have "copy_ok InFlight n t" if "t \<in> set ts" for t
    using find_status_entries(1) [OF f wf that] stored_copy_ok [OF assms(1), of t] by auto
  with find_status_entries(3) [OF f wf] assms(2) RollForward show ?thesis by (simp add: phase_ok_def after_rollback_def)
next
  case (Rollback p)
  obtain slot h where p: "p = (slot, h)" by fastforce
  have wf: "db_wf (nd_db n)" "slots_wf (nd_db n)" "0 \<le> sint slot"
    using assms(1,2) Rollback p by (simp_all add: node_inv_def slot_small_def)
  have f: "find_to_rollback slot (nd_db n) = (Inr ts, d)" using assms(3) Rollback p by (simp add: monitor_find_def)
  note ts = find_to_rollback_ok(1) [OF f wf]
  have "copy_ok Confirmed n t" if "t \<in> set ts" for t
    using that map_tx_of_row_entries [OF wf(1)] stored_copy_ok [OF assms(1), of t] unfolding ts by auto
  moreover have "distinct (map tx_id ts)" using wf(1) by (auto simp: ts db_wf_def o_def distinct_map inj_on_def)
  moreover have "\<forall>t\<in>set ts. \<exists>s. tx_slot t = Some s \<and> slot < s" by (auto simp: ts)
  ultimately show ?thesis using assms(2) Rollback p by (simp add: phase_ok_def after_rollback_def)
qed

lemma find_same_tables: "monitor_find ev d = (r, d') \<Longrightarrow> same_tables d d'"
  by (auto simp: monitor_find_def find_status_def find_to_rollback_def or_retry_def sx_map_err_def
      dest: fetch_rows_same_tables split: Event.splits prod.splits sum.splits)


lemma same_entries_ok:
  assumes "entries d = entries (nd_db n)"
  shows "copy_ok st (with_db d n) t = copy_ok st n t" "phase_ok hex (with_db d n) p = phase_ok hex n p"
  using assms by (simp_all add: copy_ok_def phase_ok_def)

lemma same_entries_inv:
  assumes "node_inv su n" "db_wf d" "slots_wf d" "entries d = entries (nd_db n)"
  shows "node_inv su (with_db d n)"
  using assms by (intro with_db_inv) auto

text \<open>Writing held copies keeps the invariant of the node, although what is stored may be newer than the copies.\<close>

lemma batch_inv:
  assumes inv: "node_inv su n" and p: "phase_ok hex n p" and wf: "db_wf d" "slots_wf d"
    and b: "batch_put b (entries (nd_db n)) (entries d)" "\<forall>t'\<in>set b. \<exists>t\<in>set (held hex p). turned hex diff p t t'"
  shows "node_inv su (with_db d n)"
proof -
  have small: "phase_small p" using p by (simp add: phase_ok_def)
  have written: "tx_raw t' \<in> set (nd_sent n) \<and> (\<exists>e. entries (nd_db n) (tx_id t') = Some e \<and> e_status e \<noteq> Pending)"
    if "t' \<in> set b" for t'
  proof -
    from b(2) that obtain t where t: "t \<in> set (held hex p)" "turned hex diff p t t'" by blast
    with p have "copy_ok (held_status p) n t" by (simp add: phase_ok_def)
    moreover have "held_status p \<noteq> Pending" by (cases p rule: held_status.cases) simp_all
    ultimately show ?thesis using turned_keeps(1,2) [OF t(2) small] by (auto simp: copy_ok_def)
  qed
  have "entries d i = Some e" if "entries (nd_db n) i = Some e" "e_status e = Pending" for i e
  proof -
    have "i \<notin> tx_id ` set b" using that written by fastforce
    with that(1) b(1) show ?thesis by (simp add: batch_put_def)
  qed
  then have "unit_ok (with_db d n)" using inv unfolding node_inv_def unit_ok_def by (auto simp: entry_of_tx_def)
  moreover have "e_raw e \<in> set (nd_sent n)" if e: "entries d i = Some e" "e_status e \<in> {InFlight, Confirmed}" for i e
  proof (cases "i \<in> tx_id ` set b")
    case True
    then obtain t' where t': "t' \<in> set b" "i = tx_id t'" by blast
    with e(1) b(1) have "e_raw e = tx_raw t'" by (auto simp: batch_put_def put_entry_def)
    with written [OF t'(1)] show ?thesis by simp
  next
    case False
    with e inv b(1) show ?thesis unfolding batch_put_def node_inv_def flown_def by metis
  qed
  then have "flown (with_db d n)" by (auto simp: flown_def)
  ultimately show ?thesis using inv wf by (simp add: node_inv_def)
qed

text \<open>After the first batch, the copies that are still held were not part of it.\<close>

lemma batched_held:
  assumes "phase_ok hex n (Looked ev ts)" "batch_put b (entries (nd_db n)) (entries d)"
    "\<forall>t'\<in>set b. \<exists>t\<in>set ts. turned hex diff (Looked ev ts) t t'"
  shows "phase_ok hex (with_db d n) (Batched ev ts)"
proof (cases ev)
  case (RollForward p txs)
  obtain slot h where p: "p = (slot, h)" by fastforce
  have other: "entries d (tx_id t) = entries (nd_db n) (tx_id t)" if "\<not> in_block hex txs (tx_id t)" for t
  proof -
    have "tx_id t \<notin> tx_id ` set b" using assms(3) that RollForward p by (force simp: put_confirm(1))
    with assms(2) show ?thesis by (simp add: batch_put_def)
  qed
  have "distinct (map tx_id (filter (\<lambda>t. \<not> in_block hex txs (tx_id t)) ts))"
    using assms(1) by (simp add: phase_ok_def distinct_map_filter)
  moreover have "copy_ok InFlight (with_db d n) t" if "t \<in> set ts" "\<not> in_block hex txs (tx_id t)" for t
    using assms(1) RollForward that(1) other [OF that(2)] by (simp add: phase_ok_def copy_ok_def)
  ultimately show ?thesis using assms(1) RollForward by (simp add: phase_ok_def after_rollback_def)
next
  case (Rollback p)
  with assms(1) show ?thesis by (simp add: phase_ok_def after_rollback_def)
qed

lemma resting_ok [simp]: "phase_ok hex n Resting" "phase_ok hex n (Settled ev) = phase_small (Settled ev)"
  by (simp_all add: phase_ok_def after_rollback_def)

lemma turn_phase_ok:
  assumes "phase_ok hex n p" "monitor_turn hex oc diff p (nd_db n) = (r, d)" "db_wf (nd_db n)" "slots_wf (nd_db n)"
  shows "phase_ok hex (with_db d n) (case r of Inl _ \<Rightarrow> Resting | Inr p' \<Rightarrow> p')"
proof -
  have small: "phase_small p" using assms(1) by (simp add: phase_ok_def)
  note c = turn_cases [OF assms]
  show ?thesis
  proof (cases p)
    case (Looked ev ts)
    with c batched_held [OF assms(1) [unfolded Looked], of _ d diff] show ?thesis by auto
  next
    case (Batched ev ts)
    with c small show ?thesis by auto
  qed (use c in auto)
qed

lemma mon_step_inv:
  assumes "mon_step su a m m'" "mon_inv su m"
  shows "mon_inv su m'"
  using assms(1)
proof cases
  case (beside a f)
  have inv: "fine_inv su (mo_fine m)" using assms(2) by (simp add: mon_inv_def)
  from fine_step_inv [OF beside(3) inv] copy_ok_beside [OF inv beside(3,4)] beside(2) assms(2) show ?thesis
    by (simp add: mon_inv_def phase_ok_def)
next
  case (looks ev r d)
  have inv: "node_inv su (mo_node m)" "sent_ok su (mo_fine m)" using assms(2) by (simp_all add: mon_inv_def fine_inv_def)
  note s = find_same_tables [OF looks(5), THEN same_tables_predicates(3)]
  have "phase_ok (su_hex su) (with_db d (mo_node m)) (case r of Inl _ \<Rightarrow> Resting | Inr ts \<Rightarrow> Looked ev ts)"
    using find_phase_ok [OF inv(1) looks(4)] looks(5) same_entries_ok(2) [OF s] by (cases r) simp_all
  moreover have "sent_ok su (mo_fine m') = sent_ok su (mo_fine m)" using looks(2) by (simp add: sent_ok_def)
  ultimately show ?thesis
    using same_tables_inv [OF inv(1) find_same_tables [OF looks(5)]] inv(2) looks(2) by (simp add: mon_inv_def fine_inv_def)
next
  case (turns r d)
  have inv: "node_inv su (mo_node m)" "sent_ok su (mo_fine m)" "phase_ok (su_hex su) (mo_node m) (mo_phase m)"
    using assms(2) by (simp_all add: mon_inv_def fine_inv_def)
  then have wf: "db_wf (mo_db m)" "slots_wf (mo_db m)" by (simp_all add: node_inv_def)
  note c = turn_cases [OF inv(3) turns(4) wf]
  have "node_inv su (with_db d (mo_node m))"
    using c same_entries_inv [OF inv(1)] batch_inv [OF inv(1,3), of d _ "su_diff su"] inv(1) wf by auto
  moreover have "sent_ok su (mo_fine m') = sent_ok su (mo_fine m)" using turns(2) by (simp add: sent_ok_def)
  ultimately show ?thesis
    using turn_phase_ok [OF inv(3) turns(4) wf] inv(2) turns(2) by (simp add: mon_inv_def fine_inv_def)
qed

interpretation cut: inductive_invariant "mon_init su" "\<lambda>m m'. \<exists>a. mon_step su a m m'" "mon_inv su" for su
proof
  show "mon_inv su m" if "mon_init su m" for m
    using that by (simp add: mon_init_def mon_inv_def fine_init_def fine_inv_def sent_ok_def node_init_inv)
qed (auto intro: mon_step_inv)

lemma mon_reachable_inv: "mon_reachable su m \<Longrightarrow> mon_inv su m"
  unfolding mon_reachable_def by (rule cut.reach_inv)


section \<open>Runs\<close>

fun mon_run :: "('tx, 'out, 'rep) node_setup \<Rightarrow> mon_action list \<Rightarrow> mon_node \<Rightarrow> mon_node \<Rightarrow> bool" where
  "mon_run su [] m m' \<longleftrightarrow> m' = m"
| "mon_run su (a # as) m m' \<longleftrightarrow> (\<exists>x. mon_step su a m x \<and> mon_run su as x m')"

lemma coarse_beside:
  assumes "node_step su b (mo_node m) n" "fn_sent (mo_fine m) = None" "\<And>ev. b \<noteq> Followed ev"
  shows "mon_step su (Beside (Coarse b)) m (m\<lparr>mo_fine := (mo_fine m)\<lparr>fn_node := n\<rparr>\<rparr>)"
  using assms by (intro beside coarse) auto

lemma look_undisturbed:
  assumes "no_faults (mo_db m)" "db_wf (mo_db m)" "slots_wf (mo_db m)" "mo_phase m = Resting" "slot_small (Some (fst p))"
  shows "\<exists>ts d. mon_step su (Looks (RollForward p txs)) m (mo_with_db d (Looked (RollForward p txs) ts) m) \<and>
    no_faults d \<and> entries d = entries (mo_db m) \<and> distinct (map tx_id ts) \<and>
    (\<forall>i e. entries d i = Some e \<and> e_status e = InFlight \<longrightarrow> (\<exists>t\<in>set ts. tx_id t = i \<and> entry_of_tx t = e))"
proof -
  obtain ts d where f: "find_status InFlight (mo_db m) = (Inr ts, d)" "no_faults d"
    using find_status_succeeds [OF assms(1-3)] by blast
  then have x: "monitor_find (RollForward p txs) (mo_db m) = (Inr ts, d)" by (simp add: monitor_find_def)
  note s = find_same_tables [OF x, THEN same_tables_predicates(3)]
  from looks [OF assms(4) _ x, of su] assms(5) find_status_entries(2,3) [OF f(1) assms(2)] f(2) s show ?thesis
    by (intro exI [of _ ts] exI [of _ d]) auto
qed

lemma confirm_undisturbed:
  assumes "mo_phase m = Looked (RollForward (slot, h) txs) ts" "no_faults (mo_db m)" "distinct (map tx_id ts)"
    "t \<in> set ts" "in_block (su_hex su) txs (tx_id t)" "entries (mo_db m) (tx_id t) = Some e"
  shows "\<exists>m'. mon_step su Turns m m' \<and> entries (mo_db m') (tx_id t) = Some (put_entry (confirm_tx slot t) e)"
proof -
  let ?b = "txs_confirm (su_hex su) slot txs ts"
  obtain d where u: "update_unless_empty ?b (mo_db m) = (Inr (), d)" using update_unless_empty_succeeds [OF assms(2)] by blast
  have "distinct (map tx_id ?b)" using assms(3) by (simp add: txs_confirm_def o_def put_confirm(1) distinct_map_filter)
  from update_unless_empty_put [OF u this] have "batch_put ?b (entries (mo_db m)) (entries d)" by simp
  moreover have "confirm_tx slot t \<in> set ?b" using assms(4,5) by (simp add: txs_confirm_def)
  ultimately have "entries d (tx_id t) = Some (put_entry (confirm_tx slot t) e)"
    using assms(6) unfolding batch_put_def by (metis option.simps(9) put_confirm(1))
  moreover have "monitor_turn (su_hex su) (su_checks su) (su_diff su) (mo_phase m) (mo_db m) =
      (Inr (Batched (RollForward (slot, h) txs) ts), d)"
    using u assms(1) by (simp add: monitor_batch_def monitor_write_def sx_bind_def sx_lift_def sx_return_def)
  ultimately show ?thesis using turns [of m su] assms(1) by fastforce
qed

section \<open>Properties\<close>

text \<open>What a part of an event does to one stored transaction.\<close>

lemma turn_keeps:
  assumes "mon_inv su m" "mon_step su Turns m m'" "entries (mo_db m) i = Some e"
  shows "entries (mo_db m') i = Some e \<or>
    (\<exists>t t'. t \<in> set (held (su_hex su) (mo_phase m)) \<and> tx_id t = i \<and> turned (su_hex su) (su_diff su) (mo_phase m) t t' \<and>
       copy_ok (held_status (mo_phase m)) (mo_node m) t \<and> entries (mo_db m') i = Some (put_entry t' e))"
  using assms(2)
proof cases
  case (turns r d)
  have p: "phase_ok (su_hex su) (mo_node m) (mo_phase m)" "phase_small (mo_phase m)" "db_wf (mo_db m)" "slots_wf (mo_db m)"
    using assms(1) by (simp_all add: mon_inv_def fine_inv_def node_inv_def phase_ok_def)
  show ?thesis
  proof (cases "entries d i = Some e")
    case False
    with turn_cases [OF p(1) turns(3) p(3,4)] assms(3) obtain b where
      b: "batch_put b (entries (mo_db m)) (entries d)"
        "\<forall>t'\<in>set b. \<exists>t\<in>set (held (su_hex su) (mo_phase m)). turned (su_hex su) (su_diff su) (mo_phase m) t t'"
      by auto
    from False b(1) assms(3) obtain t' where t': "t' \<in> set b" "tx_id t' = i" "entries d i = Some (put_entry t' e)"
      unfolding batch_put_def by (metis (no_types, lifting) image_iff option.simps(9))
    from b(2) t'(1) obtain t where t: "t \<in> set (held (su_hex su) (mo_phase m))" "turned (su_hex su) (su_diff su) (mo_phase m) t t'"
      by blast
    moreover have "copy_ok (held_status (mo_phase m)) (mo_node m) t" using p(1) t(1) by (simp add: phase_ok_def)
    moreover have "tx_id t = i" using turned_keeps(1) [OF t(2) p(2)] t'(2) by simp
    ultimately show ?thesis using t'(3) turns(1) by auto
  qed (use turns(1) in simp)
qed


text \<open>C6. The life of a stored transaction, with all stages interleaving at their waits.  In every reachable state and for every
  move, a stored transaction stays stored with its queue and its time of creation, and its status changes in these ways only.
  A block confirms it, at the slot of the block, when the block contains it and the monitor read it in flight; it may be
  failed by then, since the copy may be stale.  A block puts it back to pending, when the block does not contain it and the
  copy was in flight for longer than the configured number of slots.  A rollback puts it back in flight, when the copy
  was confirmed at a later slot.  The ingest stage makes it failed or in flight, when it is the current transaction of its unit and
  is pending, or the unit was started again.\<close>

theorem stored_lifecycle:
  assumes "mon_reachable su m" "mon_step su a m m'" "entries (mo_db m) i = Some e"
  shows "\<exists>e'. entries (mo_db m') i = Some e' \<and> e_queue e' = e_queue e \<and> e_created e' = e_created e \<and>
    (e_status e' = e_status e
     \<or> (\<exists>slot h btxs ts. a = Turns \<and> mo_phase m = Looked (RollForward (slot, h) btxs) ts \<and>
          (\<exists>t\<in>set ts. tx_id t = i \<and> tx_status t = InFlight) \<and> in_block (su_hex su) btxs i \<and>
          e_status e \<in> {InFlight, Failed} \<and> e_status e' = Confirmed \<and> e_slot e' = Some slot)
     \<or> (\<exists>slot h btxs ts. a = Turns \<and> mo_phase m = Batched (RollForward (slot, h) btxs) ts \<and> \<not> in_block (su_hex su) btxs i \<and>
          (\<exists>t\<in>set ts. tx_id t = i \<and> tx_status t = InFlight \<and> (\<exists>s. tx_slot t = Some s \<and> su_diff su < slot - s)) \<and>
          e_status e \<in> {InFlight, Failed} \<and> e_status e' = Pending \<and> e_slot e' = None)
     \<or> (\<exists>slot h ts. a = Turns \<and> mo_phase m = Looked (Rollback (slot, h)) ts \<and>
          (\<exists>t\<in>set ts. tx_id t = i \<and> tx_status t = Confirmed \<and> (\<exists>s. tx_slot t = Some s \<and> slot < s)) \<and>
          e_status e \<in> {Confirmed, Failed} \<and> e_status e' = InFlight \<and> e_slot e' = None)
     \<or> (\<exists>txs. a \<in> {Beside (Coarse Worked), Beside Marked} \<and> nd_unit (mo_node m) = Some txs \<and>
          nd_next (mo_node m) < length txs \<and> i = tx_id (txs ! nd_next (mo_node m)) \<and>
          (e_status e = Pending \<or> nd_next (mo_node m) < nd_mark (mo_node m)) \<and> e_status e' \<in> {Failed, InFlight}))"
proof -
  have inv: "mon_inv su m" using mon_reachable_inv [OF assms(1)] .
  from assms(2) show ?thesis
  proof cases
    case (beside b f)
    have "fine_inv su (mo_fine m)" using inv by (simp add: mon_inv_def)
    from fine_step_keeps [OF this beside(3) assms(3) beside(4)] beside(1,2) show ?thesis by auto
  next
    case (looks ev r d)
    with find_same_tables [OF looks(5), THEN same_tables_predicates(3)] assms(3) show ?thesis by simp
  next
    case (turns r d)
    note step = assms(2) [unfolded turns(1)]
    show ?thesis
    proof (cases "entries (mo_db m') i = Some e")
      case False
      with turn_keeps [OF inv step assms(3)] obtain t t' where t: "t \<in> set (held (su_hex su) (mo_phase m))" "tx_id t = i"
        "turned (su_hex su) (su_diff su) (mo_phase m) t t'" "copy_ok (held_status (mo_phase m)) (mo_node m) t"
        "entries (mo_db m') i = Some (put_entry t' e)" by blast
      have c: "tx_status t = held_status (mo_phase m)" "e_status e \<in> {held_status (mo_phase m), InFlight, Failed}"
        using t(2,4) assms(3) by (auto simp: copy_ok_def)
      from t(3) show ?thesis
        by (cases "(su_hex su, su_diff su, mo_phase m, t, t')" rule: turned.cases)
          (use t c turns(1) in \<open>auto simp: put_entry_def confirm_tx_def retry_tx_def\<close>)
    qed simp
  qed
qed

lemma demo_cut_reachable: "mon_reachable demo_setup \<lparr>mo_fine = demo_fine, mo_phase = Resting\<rparr>"
  unfolding demo_fine_def by (rule fine_runs_cut [OF coarse_reachable [OF demo_reachable]])

theorem stored_lifecycle_witness:
  "\<exists>m'. mon_step demo_setup (Beside (Coarse Worked)) \<lparr>mo_fine = demo_fine, mo_phase = Resting\<rparr> m' \<and>
     (\<exists>e'. entries (mo_db m') ''x'' = Some e' \<and> e_status e' \<in> {Failed, InFlight})"
proof -
  let ?m = "\<lparr>mo_fine = demo_fine, mo_phase = Resting\<rparr>"
  obtain n where n: "node_step demo_setup Worked (demo_node demo_stored (Some [tx_x, tx_xx])) n"
    "entries (nd_db n) ''x'' = Some ((entry_of_tx tx_x)\<lparr>e_raw := [1], e_status := InFlight, e_slot := Some 100\<rparr>)"
    using demo_worked by blast
  have m: "mon_step demo_setup (Beside (Coarse Worked)) ?m (?m\<lparr>mo_fine := (mo_fine ?m)\<lparr>fn_node := n\<rparr>\<rparr>)"
    using n(1) by (intro coarse_beside) (simp_all add: demo_fine_def)
  have "entries (mo_db ?m) ''x'' = Some (entry_of_tx tx_x)" using demo_node_facts(7) by (simp add: demo_fine_def)
  from stored_lifecycle [OF demo_cut_reachable m this] m n(2) demo_node_facts(10) show ?thesis by (auto intro!: exI)
qed

text \<open>C38. A stale copy of the monitor revives a failed transaction.  A transaction is sent and marked in flight; the unit is
  started again because the tip could not be read for the next one.  The monitor takes up a block with the transaction and
  reads it in flight; before it writes, the ingest stage comes to the transaction again and the checks fail it.  Then the
  monitor writes its copy, and the failed transaction is confirmed, with the bytes and the slot of the monitor's copy.\<close>

theorem stale_copy_revives_failed:
  assumes "mon_reachable su m" "mo_phase m = Resting" "fn_sent (mo_fine m) = None"
    and "nd_unit (mo_node m) = Some (tx # tx2 # txs)" "nd_next (mo_node m) = 0" "k = is_now (nd_work (mo_node m))"
    and "no_faults (mo_db m)" "slot_small (Some slot)"
    and "verdict_of su k tx = Accepted raw" "te_send_ok (su_env su k)" "te_tip (su_env su k) = Inr tip"
    and "verdict_of su (Suc k) tx2 = Accepted raw2" "te_send_ok (su_env su (Suc k))" "te_tip (su_env su (Suc k)) = Inl (Err x)"
    and "in_block (su_hex su) btxs (tx_id tx)" "entries (mo_db m) (tx_id tx) = Some e"
    and "verdict_of su (Suc (Suc k)) tx = Rejected raw3"
  shows "\<exists>m1 m2. mon_run su [Beside (Coarse Worked), Beside (Coarse Retried), Looks (RollForward (slot, h) btxs), Beside (Coarse Worked)] m m1 \<and>
    mon_step su Turns m1 m2 \<and> (\<exists>e1. entries (mo_db m1) (tx_id tx) = Some e1 \<and> e_raw e1 = raw3 \<and> e_status e1 = Failed) \<and>
    (\<exists>e2. entries (mo_db m2) (tx_id tx) = Some e2 \<and> e_raw e2 = raw \<and> e_status e2 = Confirmed \<and> e_slot e2 = Some slot)"
proof -
  let ?n = "mo_node m" and ?ev = "RollForward (slot, h) btxs"
  obtain n1 where n1: "node_step su Worked ?n n1" "no_faults (nd_db n1)" "is_now (nd_work n1) = Suc k"
    "entries (nd_db n1) = map_put (tx\<lparr>tx_raw := raw, tx_status := InFlight, tx_slot := Some (fst tip)\<rparr>) (entries (nd_db ?n))"
    "nd_unit n1 = Some (tx # tx2 # txs)" "nd_next n1 = 1"
    using accepted_step [OF assms(4) _ _ assms(7), of tx su raw tip] assms(5,6,9-11) by auto
  obtain n2 where n2: "node_step su Retried n1 n2" "nd_db n2 = nd_db n1" "is_now (nd_work n2) = Suc (Suc k)"
    "nd_unit n2 = Some (tx # tx2 # txs)" "nd_next n2 = 0"
    using tip_lost_step [OF n1(5), of tx2 su raw2 x] n1(3,6) assms(12-14) by auto
  let ?m2 = "m\<lparr>mo_fine := (mo_fine m)\<lparr>fn_node := n2\<rparr>\<rparr>"
  have run: "mon_run su [Beside (Coarse Worked), Beside (Coarse Retried)] m ?m2"
    using coarse_beside [OF n1(1) assms(3)] coarse_beside [of su Retried "m\<lparr>mo_fine := (mo_fine m)\<lparr>fn_node := n1\<rparr>\<rparr>" n2] n2(1) assms(3)
    by fastforce
  have inv: "node_inv su n2" using node_step_inv [OF n2(1)] node_step_inv [OF n1(1)] mon_reachable_inv [OF assms(1)]
    by (simp add: mon_inv_def fine_inv_def)
  let ?e = "e\<lparr>e_raw := raw, e_status := InFlight, e_slot := Some (fst tip)\<rparr>"
  have e2: "entries (nd_db n2) (tx_id tx) = Some ?e" using assms(16) n1(4) n2(2) by (simp add: map_put_def put_entry_def)
  obtain ts d where l: "mon_step su (Looks ?ev) ?m2 (mo_with_db d (Looked ?ev ts) ?m2)" "no_faults d" "entries d = entries (nd_db n2)"
    "distinct (map tx_id ts)" "\<forall>i e. entries d i = Some e \<and> e_status e = InFlight \<longrightarrow> (\<exists>t\<in>set ts. tx_id t = i \<and> entry_of_tx t = e)"
    using look_undisturbed [of ?m2 "(slot, h)" su btxs] inv n1(2) n2(2) assms(2,8) by (auto simp: node_inv_def)
  then obtain t where t: "t \<in> set ts" "tx_id t = tx_id tx" "entry_of_tx t = ?e" using e2 by fastforce
  let ?m3 = "mo_with_db d (Looked ?ev ts) ?m2"
  obtain n4 where n4: "node_step su Worked (mo_node ?m3) n4" "no_faults (nd_db n4)"
    "entries (nd_db n4) = map_put (tx\<lparr>tx_raw := raw3, tx_status := Failed\<rparr>) (entries d)"
    using rejected_step [of "mo_node ?m3" "tx # tx2 # txs" tx su raw3] n2(3-5) l(2) assms(17) by auto
  let ?m4 = "?m3\<lparr>mo_fine := (mo_fine ?m3)\<lparr>fn_node := n4\<rparr>\<rparr>" and ?f = "?e\<lparr>e_raw := raw3, e_status := Failed, e_slot := tx_slot tx\<rparr>"
  have s4: "mon_step su (Beside (Coarse Worked)) ?m3 ?m4" using n4(1) assms(3) by (intro coarse_beside) simp_all
  have e4: "entries (mo_db ?m4) (tx_id t) = Some ?f" using n4(3) l(3) e2 t(2) by (simp add: map_put_def put_entry_def)
  obtain m5 where m5: "mon_step su Turns ?m4 m5" "entries (mo_db m5) (tx_id t) = Some (put_entry (confirm_tx slot t) ?f)"
    using confirm_undisturbed [of ?m4 slot h btxs ts t su ?f] n4(2) l(4) t assms(15) e4 by auto
  have "tx_raw t = raw" using arg_cong [OF t(3), of e_raw] by simp
  with run l(1) s4 e4 m5 t(2) show ?thesis
    by (intro exI [of _ ?m4] exI [of _ m5]) (auto simp: put_entry_def confirm_tx_def)
qed

theorem stale_copy_revives_failed_witness:
  "\<exists>m1 m2. mon_run demo_setup [Beside (Coarse Worked), Beside (Coarse Retried), Looks (RollForward (120, []) [\<lparr>btx_hash = [1]\<rparr>]),
      Beside (Coarse Worked)] \<lparr>mo_fine = demo_fine, mo_phase = Resting\<rparr> m1 \<and> mon_step demo_setup Turns m1 m2 \<and>
    (\<exists>e1. entries (mo_db m1) ''x'' = Some e1 \<and> e_status e1 = Failed) \<and>
    (\<exists>e2. entries (mo_db m2) ''x'' = Some e2 \<and> e_status e2 = Confirmed)"
proof -
  let ?m = "\<lparr>mo_fine = demo_fine, mo_phase = Resting\<rparr>"
  have s: "slot_small (Some 120)" by (simp add: slot_small_def)
  have n: "mo_node ?m = demo_node demo_stored (Some [tx_x, tx_xx])" "fn_sent (mo_fine ?m) = None" by (simp_all add: demo_fine_def)
  from stale_copy_revives_failed [where m = ?m and su = demo_setup and slot = 120 and h = "[]" and k = 0,
      OF demo_cut_reachable _ n(2) _ _ _ _ s demo_verdicts(1) demo_answers_facts(1,2) demo_verdicts(2) demo_answers_facts(1,3)
      demo_node_facts(11) _ demo_verdicts(3)] demo_node_facts(1,2,4,6,7,9) n(1)
  show ?thesis by fastforce
qed

end
