(* ===== verification/Mock_Server.thy ===== *)
theory Mock_Server
  imports Peer
begin

text \<open>
  The counterpart of a peer: the transaction submission server of
  \<^verbatim>\<open>src/network/mock_ouroboros_tx_submit_server.rs\<close>.  It asks once for transaction ids and waits, asks
  once without waiting, downloads the bodies of all ids it has heard of, and records as acknowledged as
  many of the ids as there were bodies.  What it talks to is a parameter: a function that answers a
  request, or gives up; what the configured delay does to the other side is a parameter too.  The list of
  acknowledged ids is shared by all connections and behind a lock, which a panic poisons.
\<close>

section \<open>The server\<close>

record mock =
  mk_socket_addr :: string
  mk_network_magic :: u64
  mk_acknowledged :: "bytes list"
  mk_poisoned :: bool
  mk_done :: bool
  mk_processing_delay :: "nat option"

definition mock_new :: "string \<Rightarrow> u64 \<Rightarrow> mock" where
  "mock_new socket_addr magic =
     \<lparr>mk_socket_addr = socket_addr, mk_network_magic = magic, mk_acknowledged = [], mk_poisoned = False,
      mk_done = False, mk_processing_delay = None\<rparr>"

definition COUNT :: u16 where
  "COUNT = 5"

text \<open>The ids of a reply; another kind of reply contributes nothing.\<close>

definition reply_ids :: "peer_reply \<Rightarrow> (u16 \<times> bytes) list" where
  "reply_ids r = (case r of ReplyTxIds xs \<Rightarrow> map (\<lambda>(era, h, _). (era, h)) xs | ReplyTxs _ \<Rightarrow> [])"

text \<open>Pushing the hashes with the lock held; an id that is not a hash of 32 bytes, which \<open>to_hash\<close> decides, panics.\<close>

fun push_hashes :: "(bytes \<Rightarrow> bytes option) \<Rightarrow> (u16 \<times> bytes) list \<Rightarrow> (mock, 'e fault, unit) sx" where
  "push_hashes to_hash [] m = (Inr (), m)"
| "push_hashes to_hash ((era, h) # ids) m =
     (case to_hash h of
        None \<Rightarrow> (Inl Panic, m\<lparr>mk_poisoned := True\<rparr>)
      | Some x \<Rightarrow> push_hashes to_hash ids (m\<lparr>mk_acknowledged := mk_acknowledged m @ [x]\<rparr>))"

text \<open>The last reply: \<open>drain\<close> panics when there are more bodies than ids, before the lock is taken.\<close>

definition record_bodies ::
  "(bytes \<Rightarrow> bytes option) \<Rightarrow> (u16 \<times> bytes) list \<Rightarrow> peer_reply \<Rightarrow> (mock, 'e fault, unit) sx" where
  "record_bodies to_hash collected_tx_ids reply m =
     (case reply of
        ReplyTxIds _ \<Rightarrow> (Inr (), m)
      | ReplyTxs bodies \<Rightarrow>
          if length collected_tx_ids < length bodies then (Inl Panic, m)
          else if mk_poisoned m then (Inl Panic, m)
          else push_hashes to_hash (take (length bodies) collected_tx_ids) m)"

definition after_delay :: "(nat \<Rightarrow> 's \<Rightarrow> 's) \<Rightarrow> mock \<Rightarrow> 's \<Rightarrow> 's" where
  "after_delay sleep m s = (case mk_processing_delay m of None \<Rightarrow> s | Some delay \<Rightarrow> sleep delay s)"

text \<open>The three requests of a connection: the collected ids, the reply to the last request, the other side.  The first two
  are guarded by the state of the protocol being idle; it is idle after the init message and after every reply, so
  that the guards always hold.\<close>

definition mock_dialog ::
  "(request \<Rightarrow> 's \<Rightarrow> (peer_reply \<times> 's) option) \<Rightarrow> 's \<Rightarrow> ('e, ((u16 \<times> bytes) list \<times> peer_reply) \<times> 's) outcome" where
  "mock_dialog ask s =
     res_bind (option_unwrap (ask (TxIds 0 COUNT) s)) (\<lambda>(r1, s1).
     res_bind (option_unwrap (ask (TxIdsNonBlocking 0 COUNT) s1)) (\<lambda>(r2, s2).
     let collected_tx_ids = reply_ids r1 @ reply_ids r2 in
     res_bind (option_unwrap (ask (Txs collected_tx_ids) s2)) (\<lambda>(r3, s3).
     Inr ((collected_tx_ids, r3), s3))))"

definition mock_task ::
  "(request \<Rightarrow> 's \<Rightarrow> (peer_reply \<times> 's) option) \<Rightarrow> (nat \<Rightarrow> 's \<Rightarrow> 's) \<Rightarrow> (bytes \<Rightarrow> bytes option) \<Rightarrow> bool \<Rightarrow> 's \<Rightarrow>
   (mock, 'e fault, 's) sx" where
  "mock_task ask sleep to_hash init_ok s m =
     (if \<not> init_ok then (Inr s, m)
      else
        (case mock_dialog ask (after_delay sleep m s) of
           Inl f \<Rightarrow> (Inl f, m)
         | Inr ((collected_tx_ids, r3), s3) \<Rightarrow>
             (case record_bodies to_hash collected_tx_ids r3 m of
                (Inl f, m') \<Rightarrow> (Inl f, m')
              | (Inr _, m') \<Rightarrow> (Inr s3, m'\<lparr>mk_done := True\<rparr>))))"

section \<open>What the server relies on\<close>

lemma push_hashes_ok:
  "\<forall>x\<in>set ids. to_hash (snd x) = Some (snd x) \<Longrightarrow>
   push_hashes to_hash ids m = (Inr (), m\<lparr>mk_acknowledged := mk_acknowledged m @ map snd ids\<rparr>)"
  by (induction to_hash ids m rule: push_hashes.induct) simp_all

text \<open>
  The contract of the side that answers: a request for bodies is answered with bodies, at most one per
  id.  Then the server does not panic over the bodies.
\<close>

locale submission_client =
  fixes ask :: "request \<Rightarrow> 's \<Rightarrow> (peer_reply \<times> 's) option"
  assumes bodies_bounded: "ask (Txs ids) s = Some (r, s') \<Longrightarrow> \<exists>bodies. r = ReplyTxs bodies \<and> length bodies \<le> length ids"
begin

lemma bodies_recorded:
  assumes "ask (Txs ids) s = Some (r, s')" "\<And>era h. (era, h) \<in> set ids \<Longrightarrow> to_hash h = Some h" "\<not> mk_poisoned m"
  shows "\<exists>k\<le>length ids. record_bodies to_hash ids r m =
    (Inr (), m\<lparr>mk_acknowledged := mk_acknowledged m @ map snd (take k ids)\<rparr>)"
proof -
  obtain bodies where b: "r = ReplyTxs bodies" "length bodies \<le> length ids"
    using bodies_bounded [OF assms(1)] by blast
  have "push_hashes to_hash (take (length bodies) ids) m =
      (Inr (), m\<lparr>mk_acknowledged := mk_acknowledged m @ map snd (take (length bodies) ids)\<rparr>)"
    using assms(2) by (intro push_hashes_ok) (auto dest!: in_set_takeD)
  with b assms(3) show ?thesis by (auto simp: record_bodies_def)
qed

end

section \<open>A peer as the other side\<close>

text \<open>
  The background task of a peer answers a request with one reply; a panic, or waiting without end, is
  for the server a connection that does not answer.
\<close>

definition peer_ask ::
  "bool \<Rightarrow> (Era \<Rightarrow> u16) \<Rightarrow> ('tx, 'out, 'rep) pallas \<Rightarrow> (bytes \<Rightarrow> bytes option) \<Rightarrow> nat \<Rightarrow> request \<Rightarrow> session \<Rightarrow>
   (peer_reply \<times> session) option" where
  "peer_ask oc era_number pl to_hash deadline req s =
     (case handle_request oc era_number pl to_hash deadline req s of
        Some (Inr _, s') \<Rightarrow> Some (last (se_replies s'), s')
      | _ \<Rightarrow> None)"

lemma find_bodies_length: "find_bodies to_hash m ids = Inr bodies \<Longrightarrow> length bodies \<le> length ids"
proof (induction ids arbitrary: bodies)
  case (Cons x ids)
  then obtain h rest where "find_bodies to_hash m ids = Inr rest"
    "bodies = (case fst (find_inflight h m) of Inr (Some tx) \<Rightarrow> (mt_era tx, mt_bytes tx) # rest | _ \<Rightarrow> rest)"
    by auto
  with Cons.IH [of rest] show ?case by (auto split: sum.splits option.splits intro: le_SucI)
qed simp

lemma peer_ask_txs:
  "peer_ask oc era_number pl to_hash deadline (Txs ids) s = Some (r, s') \<longleftrightarrow>
     (\<exists>bodies. find_bodies to_hash (se_pool s) ids = Inr bodies \<and> r = ReplyTxs bodies \<and>
        s' = s\<lparr>se_replies := se_replies s @ [ReplyTxs bodies]\<rparr>)"
  by (auto simp: peer_ask_def handle_request_def txs_request_def split: sum.splits)

interpretation peer_client: submission_client "peer_ask oc era_number pl to_hash deadline"
  for oc era_number pl to_hash deadline
  by unfold_locales (auto simp: peer_ask_txs dest: find_bodies_length)

lemma acknowledge_nothing: "\<not> mp_poisoned m \<Longrightarrow> acknowledge 0 m = (Inr (), m)"
  by (simp add: acknowledge_def drain_def)

text \<open>A request for ids with nothing to acknowledge, of either kind.\<close>

lemma ids_request_announces:
  assumes "peer_ask oc era_number pl to_hash deadline req s = Some (r, s')" "req = TxIds 0 n \<or> req = TxIdsNonBlocking 0 n"
    "pool_ok pl (se_pool s)" "\<not> mp_poisoned (se_pool s)" "length (mp_inflight (se_pool s)) + unat n \<le> MEMPOOL_CAP"
  obtains txs where "mp_inflight (se_pool s') = mp_inflight (se_pool s) @ txs" "pool_ok pl (se_pool s')"
    "\<not> mp_poisoned (se_pool s')" "r = ReplyTxIds (tx_ids_payload txs)" "length txs \<le> unat n"
proof -
  from assms(1) have h: "handle_request oc era_number pl to_hash deadline req s = Some (Inr (), s')" "r = last (se_replies s')"
    by (auto simp: peer_ask_def split: option.splits prod.splits sum.splits)
  have "\<exists>raws es. length raws \<le> unat n \<and> announce oc era_number pl raws (s\<lparr>se_events := es\<rparr>) = (Inr (), s')"
    using assms(2)
  proof
    assume "req = TxIds 0 n"
    with h(1) assms(4) show ?thesis
      by (auto simp: handle_request_def tx_ids_blocking_def acknowledge_nothing split: option.splits
          dest: collected_ok(1))
  next
    assume "req = TxIdsNonBlocking 0 n"
    with h(1) assms(4) show ?thesis
      by (cases "collect_transactions (unat n) [] (take deadline (se_events s))")
        (auto simp: handle_request_def tx_ids_non_blocking_def acknowledge_nothing dest: collected_ok(1),
          metis list.size(3) zero_le)
  qed
  then obtain raws es where a: "length raws \<le> unat n" "announce oc era_number pl raws (s\<lparr>se_events := es\<rparr>) = (Inr (), s')"
    by blast
  from assms(3) have "pool_ok pl (se_pool (s\<lparr>se_events := es\<rparr>))" by simp
  with a(2) obtain txs where t: "se_pool s' = fold push txs (se_pool s)" "pool_ok pl (se_pool s')"
    "se_replies s' = se_replies s @ [ReplyTxIds (tx_ids_payload txs)]" "length txs \<le> length raws"
    "mp_poisoned (se_pool s') = mp_poisoned (se_pool s)"
    by (rule announce_ok) simp
  have "mp_inflight (se_pool s') = mp_inflight (se_pool s) @ txs"
    unfolding t(1) using pool.items_add_all [of "se_pool s" txs] assms(5) a(1) t(4) by simp
  with t a(1) h(2) assms(4) show thesis by (intro that [of txs]) simp_all
qed

lemma reply_ids_payload: "map snd (reply_ids (ReplyTxIds (tx_ids_payload txs))) = map mt_hash txs"
  by (simp add: reply_ids_def tx_ids_payload_def)

lemma record_all:
  assumes "\<forall>x\<in>set ids. to_hash (snd x) = Some (snd x)" "length bodies = length ids" "\<not> mk_poisoned m"
  shows "record_bodies to_hash ids (ReplyTxs bodies) m = (Inr (), m\<lparr>mk_acknowledged := mk_acknowledged m @ map snd ids\<rparr>)"
  using push_hashes_ok [OF assms(1)] assms(2,3) by (simp add: record_bodies_def)

lemma announced_known:
  assumes "pool_ok pl m" "\<forall>b metx. pl_decode pl b = Some metx \<longrightarrow> to_hash (pl_hash pl metx) = Some (pl_hash pl metx)"
    "map snd ids = map mt_hash (mp_inflight m)"
  shows "\<forall>x\<in>set ids. snd x \<in> mt_hash ` set (mp_inflight m) \<and> to_hash (snd x) = Some (snd x)"
proof
  fix x assume "x \<in> set ids"
  then have "snd x \<in> set (map snd ids)" by simp
  then have x: "snd x \<in> mt_hash ` set (mp_inflight m)" unfolding assms(3) by simp
  then obtain t where "t \<in> set (mp_inflight m)" "snd x = mt_hash t" by auto
  with assms(1,2) show "snd x \<in> mt_hash ` set (mp_inflight m) \<and> to_hash (snd x) = Some (snd x)"
    using x unfolding pool_ok_def by metis
qed

section \<open>Properties\<close>

lemma mock_dialog_announced:
  assumes "peer_ask oc era_number pl to_hash deadline (TxIds 0 COUNT) s = Some (r1, s1)"
    "peer_ask oc era_number pl to_hash deadline (TxIdsNonBlocking 0 COUNT) s1 = Some (r2, s2)"
    "mp_inflight (se_pool s) = []" "\<not> mp_poisoned (se_pool s)"
    "\<forall>b metx. pl_decode pl b = Some metx \<longrightarrow> to_hash (pl_hash pl metx) = Some (pl_hash pl metx)"
  obtains bodies s3 where "mock_dialog (peer_ask oc era_number pl to_hash deadline) s = Inr ((reply_ids r1 @ reply_ids r2, ReplyTxs bodies), s3)"
    "map snd (reply_ids r1 @ reply_ids r2) = map mt_hash (mp_inflight (se_pool s3))" "last (se_replies s3) = ReplyTxs bodies"
    "list_all2 (\<lambda>h b. \<exists>metx. pl_decode pl (snd b) = Some metx \<and> pl_hash pl metx = h) (map snd (reply_ids r1 @ reply_ids r2)) bodies"
    "\<forall>x\<in>set (reply_ids r1 @ reply_ids r2). to_hash (snd x) = Some (snd x)"
    "length (reply_ids r1) \<le> 5" "length (reply_ids r2) \<le> 5"
proof -
  have cap: "unat COUNT = 5" "MEMPOOL_CAP = 100" by (simp_all add: COUNT_def MEMPOOL_CAP_def)
  have ok: "pool_ok pl (se_pool s)" using assms(3) by (simp add: pool_ok_def)
  obtain t1 where t1: "mp_inflight (se_pool s1) = t1" "pool_ok pl (se_pool s1)" "\<not> mp_poisoned (se_pool s1)"
    "r1 = ReplyTxIds (tx_ids_payload t1)" "length t1 \<le> 5"
    by (rule ids_request_announces [OF assms(1) _ ok assms(4)]) (auto simp: assms(3) cap)
  obtain t2 where t2: "mp_inflight (se_pool s2) = t1 @ t2" "pool_ok pl (se_pool s2)" "\<not> mp_poisoned (se_pool s2)"
    "r2 = ReplyTxIds (tx_ids_payload t2)" "length t2 \<le> 5"
    by (rule ids_request_announces [OF assms(2) _ t1(2,3)]) (use t1(1,5) in \<open>auto simp: cap\<close>)
  let ?ids = "reply_ids r1 @ reply_ids r2"
  have snds: "map snd ?ids = map mt_hash (t1 @ t2)" by (simp add: t1(4) t2(4) reply_ids_payload)
  have len: "length (reply_ids r1) \<le> 5" "length (reply_ids r2) \<le> 5"
    using t1(4,5) t2(4,5) by (simp_all add: reply_ids_def tx_ids_payload_def)
  have all: "\<forall>x\<in>set ?ids. snd x \<in> mt_hash ` set (mp_inflight (se_pool s2)) \<and> to_hash (snd x) = Some (snd x)"
    using snds by (intro announced_known [OF t2(2) assms(5)]) (simp add: t2(1))
  obtain bodies where b: "find_bodies to_hash (se_pool s2) ?ids = Inr bodies"
    "list_all2 (\<lambda>x b. \<exists>metx. pl_decode pl (snd b) = Some metx \<and> pl_hash pl metx = snd x) ?ids bodies"
    using find_bodies_announced [OF t2(2,3) all] by blast
  let ?s3 = "s2\<lparr>se_replies := se_replies s2 @ [ReplyTxs bodies]\<rparr>"
  have "peer_ask oc era_number pl to_hash deadline (Txs ?ids) s2 = Some (ReplyTxs bodies, ?s3)"
    using b(1) by (simp add: peer_ask_txs)
  then have "mock_dialog (peer_ask oc era_number pl to_hash deadline) s = Inr ((?ids, ReplyTxs bodies), ?s3)"
    using assms(1,2) by (simp add: mock_dialog_def Let_def)
  moreover have "list_all2 (\<lambda>h b. \<exists>metx. pl_decode pl (snd b) = Some metx \<and> pl_hash pl metx = h) (map snd ?ids) bodies"
    unfolding list_all2_map1 by (rule b(2))
  ultimately show thesis using that [of bodies ?s3] snds t2(1) all len by simp
qed

lemma mock_task_announced:
  assumes "after_delay sleep m s = s0" "peer_ask oc era_number pl to_hash deadline (TxIds 0 COUNT) s0 = Some (r1, s1)"
    "peer_ask oc era_number pl to_hash deadline (TxIdsNonBlocking 0 COUNT) s1 = Some (r2, s2)"
    "mp_inflight (se_pool s0) = []" "\<not> mp_poisoned (se_pool s0)" "\<not> mk_poisoned m"
    "\<forall>b metx. pl_decode pl b = Some metx \<longrightarrow> to_hash (pl_hash pl metx) = Some (pl_hash pl metx)"
  shows "\<exists>s3 bodies. mock_task (peer_ask oc era_number pl to_hash deadline) sleep to_hash True s m =
      ((Inr s3, m\<lparr>mk_acknowledged := mk_acknowledged m @ map snd (reply_ids r1 @ reply_ids r2), mk_done := True\<rparr>) :: ('e fault + session) \<times> mock) \<and>
    map snd (reply_ids r1 @ reply_ids r2) = map mt_hash (mp_inflight (se_pool s3)) \<and> last (se_replies s3) = ReplyTxs bodies \<and>
    list_all2 (\<lambda>h b. \<exists>metx. pl_decode pl (snd b) = Some metx \<and> pl_hash pl metx = h) (map snd (reply_ids r1 @ reply_ids r2)) bodies"
proof -
  obtain bodies s3 where d: "mock_dialog (peer_ask oc era_number pl to_hash deadline) s0 =
      (Inr ((reply_ids r1 @ reply_ids r2, ReplyTxs bodies), s3) :: ('e, ((u16 \<times> bytes) list \<times> peer_reply) \<times> session) outcome)"
    "map snd (reply_ids r1 @ reply_ids r2) = map mt_hash (mp_inflight (se_pool s3))" "last (se_replies s3) = ReplyTxs bodies"
    "list_all2 (\<lambda>h b. \<exists>metx. pl_decode pl (snd b) = Some metx \<and> pl_hash pl metx = h) (map snd (reply_ids r1 @ reply_ids r2)) bodies"
    "\<forall>x\<in>set (reply_ids r1 @ reply_ids r2). to_hash (snd x) = Some (snd x)"
    by (rule mock_dialog_announced [OF assms(2-5,7)])
  have "length bodies = length (reply_ids r1 @ reply_ids r2)" using list_all2_lengthD [OF d(4)] by simp
  note rec = record_all [OF d(5) this assms(6)]
  have "mock_task (peer_ask oc era_number pl to_hash deadline) sleep to_hash True s m =
      ((Inr s3, m\<lparr>mk_acknowledged := mk_acknowledged m @ map snd (reply_ids r1 @ reply_ids r2), mk_done := True\<rparr>) :: ('e fault + session) \<times> mock)"
    by (simp add: mock_task_def assms(1) d(1) rec)
  with d(2-4) show ?thesis by blast
qed

text \<open>C17. A peer and the server agree.  When a peer with an empty mempool answers the two requests for ids, after
  whatever delay the server makes, the exchange comes to its end without a panic: the server downloads a body for every
  id it was told, each body decodes to a transaction with that hash, and it acknowledges exactly the announced
  transactions, in order, which are those in flight in the mempool of the peer.\<close>

theorem mock_acknowledges_announced:
  assumes "after_delay sleep m s = s0" "peer_ask oc era_number pl to_hash deadline (TxIds 0 COUNT) s0 = Some (r1, s1)"
    "peer_ask oc era_number pl to_hash deadline (TxIdsNonBlocking 0 COUNT) s1 = Some (r2, s2)"
    "mp_inflight (se_pool s0) = []" "\<not> mp_poisoned (se_pool s0)" "\<not> mk_poisoned m"
    "\<forall>b metx. pl_decode pl b = Some metx \<longrightarrow> to_hash (pl_hash pl metx) = Some (pl_hash pl metx)"
  shows "\<exists>s3 bodies. mock_task (peer_ask oc era_number pl to_hash deadline) sleep to_hash True s m =
      ((Inr s3, m\<lparr>mk_acknowledged := mk_acknowledged m @ map snd (reply_ids r1 @ reply_ids r2), mk_done := True\<rparr>) :: ('e fault + session) \<times> mock) \<and>
    map snd (reply_ids r1 @ reply_ids r2) = map mt_hash (mp_inflight (se_pool s3)) \<and> last (se_replies s3) = ReplyTxs bodies \<and>
    list_all2 (\<lambda>h b. \<exists>metx. pl_decode pl (snd b) = Some metx \<and> pl_hash pl metx = h) (map snd (reply_ids r1 @ reply_ids r2)) bodies"
  using assms by (rule mock_task_announced)

theorem mock_acknowledges_announced_witness:
  "mk_acknowledged (snd (mock_task (peer_ask True (\<lambda>_. 7) demo_pallas Some 2) (\<lambda>_ s. s) Some True
      (demo_session [Msg [9], Elapsed, Msg [9, 9], Elapsed]) (mock_new ''0.0.0.0:3001'' 2) :: (unit fault + session) \<times> mock)) = [[1], [2]]"
proof -
  let ?ask = "peer_ask True (\<lambda>_. 7) demo_pallas Some 2" and ?s = "demo_session [Msg [9], Elapsed, Msg [9, 9], Elapsed]"
    and ?m = "mock_new ''0.0.0.0:3001'' 2"
  have "map_option fst (?ask (TxIds 0 COUNT) ?s) = Some (ReplyTxIds [(6, [1], 1)])"
    "map_option fst (Option.bind (?ask (TxIds 0 COUNT) ?s) (\<lambda>x. ?ask (TxIdsNonBlocking 0 COUNT) (snd x))) =
      Some (ReplyTxIds [(6, [2], 2)])" by code_simp+
  then obtain s1 s2 where a: "?ask (TxIds 0 COUNT) ?s = Some (ReplyTxIds [(6, [1], 1)], s1)"
    "?ask (TxIdsNonBlocking 0 COUNT) s1 = Some (ReplyTxIds [(6, [2], 2)], s2)" by auto
  have "after_delay (\<lambda>_ s. s) ?m ?s = ?s" "mp_inflight (se_pool ?s) = []" "\<not> mp_poisoned (se_pool ?s)" "\<not> mk_poisoned ?m"
    by (simp_all add: demo_session_def mempool_new_def after_delay_def mock_new_def)
  from mock_acknowledges_announced [OF this(1) a this(2-4)] obtain s3 where
    "mock_task ?ask (\<lambda>_ s. s) Some True ?s ?m =
      ((Inr s3, ?m\<lparr>mk_acknowledged := mk_acknowledged ?m @ map snd (reply_ids (ReplyTxIds [(6, [1], 1)]) @ reply_ids (ReplyTxIds [(6, [2], 2)])),
        mk_done := True\<rparr>) :: (unit fault + session) \<times> mock)" by auto
  then show ?thesis by (simp add: reply_ids_def mock_new_def)
qed

end
