(* ===== verification/Storage_Tests.thy ===== *)
theory Storage_Tests
  imports Priority_Queue
begin

text \<open>
  The unit tests of the storage, the modules \<open>sqlite_utils_tests\<close>, \<open>sqlite_transaction_tests\<close> and
  \<open>sqlite_cursor_tests\<close> of \<^verbatim>\<open>src/storage/sqlite.rs\<close> with the fixtures of \<^verbatim>\<open>src/storage/mod.rs\<close>, as
  programs over the modelled storage.  A test is a computation that ends normally, in a failed
  \<open>unwrap\<close>, in a failed assertion, in a panic of the code under test or, when it waits for something that does not come, not at all; it reads the clock wherever the source calls \<open>Utc::now()\<close>.
  The tests are proved to pass for every clock, not for one run only.
\<close>

section \<open>What a test is\<close>

datatype test_failure = Unwrapped | AssertionFailed | Panicked | Hung

type_synonym 's test = "('s, test_failure, unit) sx"

definition unwrap :: "('s, 'e, 'a) sx \<Rightarrow> ('s, test_failure, 'a) sx" where
  "unwrap = sx_map_err (\<lambda>_. Unwrapped)"

text \<open>A call whose result the test inspects.\<close>

definition attempt :: "('s, 'e, 'a) sx \<Rightarrow> ('s, 'f, 'e + 'a) sx" where
  "attempt m = (\<lambda>s. case m s of (r, s') \<Rightarrow> (Inr r, s'))"

definition assert_that :: "bool \<Rightarrow> 's test" where
  "assert_that b = (if b then sx_return () else sx_throw AssertionFailed)"

fun is_ok :: "'e + 'a \<Rightarrow> bool" where
  "is_ok (Inr _) \<longleftrightarrow> True"
| "is_ok (Inl _) \<longleftrightarrow> False"

text \<open>\<open>result.unwrap()\<close> on a value.\<close>

definition unwrap_value :: "'e + 'a \<Rightarrow> ('s, test_failure, 'a) sx" where
  "unwrap_value r = unwrap (sx_lift r)"

definition unwrap_option :: "'a option \<Rightarrow> ('s, test_failure, 'a) sx" where
  "unwrap_option x = (case x of None \<Rightarrow> sx_throw Unwrapped | Some v \<Rightarrow> sx_return v)"

definition passes :: "'s test \<Rightarrow> 's \<Rightarrow> bool" where
  "passes t s \<longleftrightarrow> fst (t s) = Inr ()"

section \<open>Fixtures\<close>

text \<open>The bytes of the string \<open>"hex"\<close>.\<close>

definition hex_bytes :: bytes where
  "hex_bytes = [104, 101, 120]"

text \<open>\<open>Default for Transaction\<close>, which reads the clock twice, and \<open>Default for Cursor\<close>.\<close>

definition transaction_default :: "(db, 'e, Transaction) sx" where
  "transaction_default = sx_bind utc_now (\<lambda>created. sx_bind utc_now (\<lambda>updated.
     sx_return \<lparr>tx_id = ''hex'', tx_raw = hex_bytes, tx_status = Pending, tx_queue = DEFAULT_QUEUE,
       tx_slot = None, tx_dependencies = None, tx_created_at = created, tx_updated_at = updated\<rparr>))"

definition cursor_default :: Cursor where
  "cursor_default = \<lparr>cursor_slot = 1, cursor_hash = hex_bytes\<rparr>"

text \<open>\<open>SqliteStorage::ephemeral\<close>: a database in memory, freshly migrated.  It is the database of
  \<open>mock_sqlite_transaction\<close> and of \<open>mock_sqlite_cursor\<close>.\<close>

definition ephemeral :: "time list \<Rightarrow> db" where
  "ephemeral instants = migrate [] instants"

definition mock_sqlite_transaction :: "time list \<Rightarrow> db" where
  "mock_sqlite_transaction = ephemeral"

definition mock_sqlite_cursor :: "time list \<Rightarrow> db" where
  "mock_sqlite_cursor = ephemeral"

text \<open>\<open>From<Vec<(T, U)>> for TransactionList\<close>\<close>

fun transaction_list :: "(string \<times> string) list \<Rightarrow> (db, 'e, Transaction list) sx" where
  "transaction_list [] = sx_return []"
| "transaction_list ((i, q) # tuples) = sx_bind transaction_default (\<lambda>t.
     sx_bind (transaction_list tuples) (\<lambda>ts. sx_return (t\<lparr>tx_id := i, tx_queue := q\<rparr> # ts)))"

text \<open>\<open>checked_sub_days\<close>, with times counted in seconds.\<close>

definition sub_days :: "int \<Rightarrow> time \<Rightarrow> time" where
  "sub_days n t = t - n * 86400"

section \<open>\<open>sqlite_transaction_tests\<close>\<close>

definition it_should_create :: "db test" where
  "it_should_create =
     sx_bind transaction_default (\<lambda>transaction.
     sx_bind (attempt (create [transaction])) (\<lambda>result.
     assert_that (is_ok result)))"

definition it_should_create_with_dependencies :: "db test" where
  "it_should_create_with_dependencies =
     sx_bind transaction_default (\<lambda>transaction_1. let transaction_1 = transaction_1\<lparr>tx_id := ''hex1''\<rparr> in
     sx_bind transaction_default (\<lambda>transaction_2.
       let transaction_2 = transaction_2\<lparr>tx_id := ''hex2'', tx_dependencies := Some [tx_id transaction_1]\<rparr> in
     sx_bind (attempt (create [transaction_1, transaction_2])) (\<lambda>result.
     assert_that (is_ok result))))"

definition it_should_fail_create_with_invalid_dependencies :: "db test" where
  "it_should_fail_create_with_invalid_dependencies =
     sx_bind transaction_default (\<lambda>transaction.
       let transaction = transaction\<lparr>tx_dependencies := Some [''something'']\<rparr> in
     sx_bind (attempt (create [transaction])) (\<lambda>result.
     assert_that (\<not> is_ok result)))"

definition it_should_find_next :: "db test" where
  "it_should_find_next =
     sx_bind transaction_default (\<lambda>transaction.
     sx_bind (unwrap (create [transaction])) (\<lambda>_.
     let queues = [(''default'', 1)] in
     sx_bind (attempt (next_txs Pending queues)) (\<lambda>result.
     sx_bind (assert_that (is_ok result)) (\<lambda>_.
     sx_bind (unwrap_value result) (\<lambda>txs. assert_that (txs \<noteq> []))))))"

text \<open>The argument is the order in which the hash map of limits is iterated.\<close>

definition it_should_find_next_many_queues :: "((string \<times> u16) list \<Rightarrow> (string \<times> u16) list) \<Rightarrow> db test" where
  "it_should_find_next_many_queues iter =
     sx_bind (transaction_list [(''1'', ''banana''), (''2'', ''banana''), (''3'', ''orange''), (''4'', ''default'')])
       (\<lambda>transactions.
     sx_bind (unwrap (create transactions)) (\<lambda>_.
     let queues = iter [(''banana'', 1), (''orange'', 1), (''default'', 1)] in
     sx_bind (attempt (next_txs Pending queues)) (\<lambda>result.
     sx_bind (assert_that (is_ok result)) (\<lambda>_.
     sx_bind (unwrap_value result) (\<lambda>txs.
     sx_bind (assert_that (txs \<noteq> [])) (\<lambda>_. assert_that (length txs = 3)))))))"

definition it_should_update :: "db test" where
  "it_should_update =
     sx_bind transaction_default (\<lambda>transaction.
     sx_bind (unwrap (create [transaction])) (\<lambda>_.
     sx_bind transaction_default (\<lambda>transaction. let transaction = transaction\<lparr>tx_status := Validated\<rparr> in
     sx_bind (attempt (update_one transaction)) (\<lambda>result.
     sx_bind (assert_that (is_ok result)) (\<lambda>_.
     let queues = [(''default'', 1)] in
     sx_bind (attempt (next_txs Validated queues)) (\<lambda>result.
     sx_bind (assert_that (is_ok result)) (\<lambda>_.
     sx_bind (unwrap_value result) (\<lambda>txs. assert_that (txs \<noteq> [])))))))))"

definition it_should_update_batch :: "db test" where
  "it_should_update_batch =
     sx_bind transaction_default (\<lambda>t1. let t1 = t1\<lparr>tx_id := ''hex1''\<rparr> in
     sx_bind (unwrap (create [t1])) (\<lambda>_.
     sx_bind transaction_default (\<lambda>t2. let t2 = t2\<lparr>tx_id := ''hex2''\<rparr> in
     sx_bind (unwrap (create [t2])) (\<lambda>_.
     let batch = map (\<lambda>tx. tx\<lparr>tx_status := Confirmed, tx_slot := Some 1\<rparr>) [t1, t2] in
     sx_bind (attempt (update_batch batch)) (\<lambda>result.
     sx_bind (assert_that (is_ok result)) (\<lambda>_.
     sx_bind (attempt (find_status Confirmed)) (\<lambda>result.
     sx_bind (assert_that (is_ok result)) (\<lambda>_.
     sx_bind (unwrap_value result) (\<lambda>txs. assert_that (txs \<noteq> []))))))))))"

definition it_should_find :: "db test" where
  "it_should_find =
     sx_bind transaction_default (\<lambda>transaction.
     sx_bind (unwrap (create [transaction])) (\<lambda>_.
     sx_bind (attempt (find_status Pending)) (\<lambda>result.
     sx_bind (assert_that (is_ok result)) (\<lambda>_.
     sx_bind (unwrap_value result) (\<lambda>txs. assert_that (length txs = 1))))))"

text \<open>The common part of the two tests of \<open>find_to_rollback\<close>: the transaction is confirmed at slot 5.\<close>

definition confirmed_at_five :: "db test" where
  "confirmed_at_five =
     sx_bind transaction_default (\<lambda>transaction.
     sx_bind (unwrap (create [transaction])) (\<lambda>_.
     sx_bind transaction_default (\<lambda>transaction.
     unwrap (update_one (transaction\<lparr>tx_status := Confirmed, tx_slot := Some 5\<rparr>)))))"

definition it_should_find_to_rollback :: "db test" where
  "it_should_find_to_rollback =
     sx_bind confirmed_at_five (\<lambda>_.
     sx_bind (attempt (find_to_rollback 1)) (\<lambda>result.
     sx_bind (assert_that (is_ok result)) (\<lambda>_.
     sx_bind (unwrap_value result) (\<lambda>txs. assert_that (length txs = 1)))))"

definition it_should_return_empty_find_to_rollback_when_tx_slot_lower_than_block_slot :: "db test" where
  "it_should_return_empty_find_to_rollback_when_tx_slot_lower_than_block_slot =
     sx_bind confirmed_at_five (\<lambda>_.
     sx_bind (attempt (find_to_rollback 10)) (\<lambda>result.
     sx_bind (assert_that (is_ok result)) (\<lambda>_.
     sx_bind (unwrap_value result) (\<lambda>txs. assert_that (txs = [])))))"

text \<open>The two times of the first transaction are read before the default it is completed from.\<close>

definition it_should_find_latest :: "db test" where
  "it_should_find_latest =
     sx_bind utc_now (\<lambda>now_1. sx_bind utc_now (\<lambda>now_2. sx_bind transaction_default (\<lambda>base_1.
     sx_bind transaction_default (\<lambda>base_2.
     let transactions = [base_1\<lparr>tx_id := ''1'', tx_created_at := sub_days 5 now_1, tx_updated_at := sub_days 5 now_2\<rparr>,
                         base_2\<lparr>tx_id := ''2''\<rparr>] in
     sx_bind (unwrap (create transactions)) (\<lambda>_.
     sx_bind (attempt (latest DEFAULT_QUEUE)) (\<lambda>result.
     sx_bind (assert_that (is_ok result)) (\<lambda>_.
     sx_bind (unwrap_value result) (\<lambda>latest_tx.
     sx_bind (assert_that (latest_tx \<noteq> None)) (\<lambda>_.
     sx_bind (unwrap_option latest_tx) (\<lambda>transaction.
     assert_that (tx_id transaction = ''2'')))))))))))"

definition it_should_return_empty_latest :: "db test" where
  "it_should_return_empty_latest =
     sx_bind (attempt (latest DEFAULT_QUEUE)) (\<lambda>result.
     sx_bind (assert_that (is_ok result)) (\<lambda>_.
     sx_bind (unwrap_value result) (\<lambda>latest_tx. assert_that (latest_tx = None))))"

section \<open>\<open>sqlite_cursor_tests\<close>\<close>

definition it_should_set :: "db test" where
  "it_should_set = sx_bind (attempt (cursor_set cursor_default)) (\<lambda>result. assert_that (is_ok result))"

definition it_should_set_when_it_updates :: "db test" where
  "it_should_set_when_it_updates =
     sx_bind (unwrap (cursor_set cursor_default)) (\<lambda>_.
     let cursor = cursor_default\<lparr>cursor_slot := 2\<rparr> in
     sx_bind (attempt (cursor_set cursor)) (\<lambda>result.
     sx_bind (assert_that (is_ok result)) (\<lambda>_.
     sx_bind (attempt cursor_current) (\<lambda>result.
     sx_bind (assert_that (is_ok result)) (\<lambda>_.
     sx_bind (unwrap_value result) (\<lambda>current.
     sx_bind (assert_that (current \<noteq> None)) (\<lambda>_.
     sx_bind (unwrap_option current) (\<lambda>c.
     assert_that (cursor_slot c = 2)))))))))"

definition it_should_find_current :: "db test" where
  "it_should_find_current =
     sx_bind (unwrap (cursor_set cursor_default)) (\<lambda>_.
     sx_bind (attempt cursor_current) (\<lambda>result.
     sx_bind (assert_that (is_ok result)) (\<lambda>_.
     sx_bind (unwrap_value result) (\<lambda>current. assert_that (current \<noteq> None)))))"

section \<open>The tests pass\<close>

lemma utc_now_eq:
  "utc_now d = (Inr (case clock d of [] \<Rightarrow> 0 | t # _ \<Rightarrow> t), d\<lparr>clock := tl (clock d)\<rparr>)"
  by (cases "clock d") (simp_all add: utc_now_def)

lemmas harness_defs =
  passes_def unwrap_def attempt_def assert_that_def unwrap_value_def unwrap_option_def sx_defs Let_def

lemmas fixture_defs =
  transaction_default_def cursor_default_def ephemeral_def mock_sqlite_transaction_def mock_sqlite_cursor_def
  migrate_def utc_now_eq DEFAULT_QUEUE_def

lemmas storage_ops =
  create_def update_batch_def in_transaction_def create_one_def insert_tx_def insert_dependence_def stmt_def
  restore_tables_def row_of_tx_def fetch_rows_def find_status_def find_to_rollback_def latest_def next_txs_def next_arm_def
  update_one_def update_row_def cursor_set_def cursor_current_def cursor_from_row_def tx_from_row_def decode_u64_def
  slot_after_def status_from_str_def

lemma create_passes: "passes it_should_create (mock_sqlite_transaction instants)"
  by (simp add: it_should_create_def harness_defs fixture_defs storage_ops)

lemma create_with_dependencies_passes:
  "passes it_should_create_with_dependencies (mock_sqlite_transaction instants)"
  by (simp add: it_should_create_with_dependencies_def harness_defs fixture_defs storage_ops)

lemma create_with_invalid_dependencies_passes:
  "passes it_should_fail_create_with_invalid_dependencies (mock_sqlite_transaction instants)"
  by (simp add: it_should_fail_create_with_invalid_dependencies_def harness_defs fixture_defs storage_ops)

lemma find_next_passes: "passes it_should_find_next (mock_sqlite_transaction instants)"
  by (simp add: it_should_find_next_def harness_defs fixture_defs storage_ops)

lemma orders_of_three:
  assumes "mset xs = {#a, b, c#}"
  shows "xs \<in> {[a, b, c], [a, c, b], [b, a, c], [b, c, a], [c, a, b], [c, b, a]}"
proof -
  have "length xs = 3" using assms by (metis mset_eq_length mset.simps length_Cons list.size(3) numeral_3_eq_3 add_mset_commute)
  then obtain x y z where "xs = [x, y, z]" by (auto simp: numeral_3_eq_3 length_Suc_conv)
  with assms show ?thesis by (auto simp: add_eq_conv_ex add_mset_eq_single)
qed

lemma find_next_many_passes:
  assumes "iter_ok iter"
  shows "passes (it_should_find_next_many_queues iter) (mock_sqlite_transaction instants)"
proof -
  have "mset (iter [(''banana'', 1), (''orange'', 1), (''default'', 1)]) = {#(''banana'', 1), (''orange'', 1), (''default'', 1)#}"
    using iter_okD(1) [OF assms] by simp
  from orders_of_three [OF this] show ?thesis
    by (elim insertE emptyE) (simp_all add: it_should_find_next_many_queues_def harness_defs fixture_defs storage_ops)
qed

lemma update_passes: "passes it_should_update (mock_sqlite_transaction instants)"
  by (simp add: it_should_update_def harness_defs fixture_defs storage_ops)

lemma update_batch_passes: "passes it_should_update_batch (mock_sqlite_transaction instants)"
  by (simp add: it_should_update_batch_def harness_defs fixture_defs storage_ops)

lemma find_passes: "passes it_should_find (mock_sqlite_transaction instants)"
  by (simp add: it_should_find_def harness_defs fixture_defs storage_ops)

lemma find_to_rollback_passes: "passes it_should_find_to_rollback (mock_sqlite_transaction instants)"
  by (simp add: it_should_find_to_rollback_def confirmed_at_five_def harness_defs fixture_defs storage_ops)

lemma find_to_rollback_empty_passes:
  "passes it_should_return_empty_find_to_rollback_when_tx_slot_lower_than_block_slot (mock_sqlite_transaction instants)"
  by (simp add: it_should_return_empty_find_to_rollback_when_tx_slot_lower_than_block_slot_def
      confirmed_at_five_def harness_defs fixture_defs storage_ops)

lemma empty_latest_passes: "passes it_should_return_empty_latest (mock_sqlite_transaction instants)"
  by (simp add: it_should_return_empty_latest_def harness_defs fixture_defs storage_ops)

lemma set_passes: "passes it_should_set (mock_sqlite_cursor instants)"
  by (simp add: it_should_set_def harness_defs fixture_defs storage_ops)

lemma set_updates_passes: "passes it_should_set_when_it_updates (mock_sqlite_cursor instants)"
  by (simp add: it_should_set_when_it_updates_def harness_defs fixture_defs storage_ops)

lemma find_current_passes: "passes it_should_find_current (mock_sqlite_cursor instants)"
  by (simp add: it_should_find_current_def harness_defs fixture_defs storage_ops)

text \<open>The only test that depends on the clock: it passes when the clock does not run backwards.\<close>

lemma find_latest_passes:
  assumes "sorted instants" "5 \<le> length instants"
  shows "passes it_should_find_latest (mock_sqlite_transaction instants)"
proof -
  from assms(2) obtain a b c d e rest where i: "instants = a # b # c # d # e # rest"
    by (auto simp: Suc_le_length_iff numeral_eq_Suc)
  with assms(1) have "a - 432000 < e" by simp
  with i show ?thesis
    by (simp add: it_should_find_latest_def harness_defs fixture_defs storage_ops sub_days_def)
qed

definition storage_tests :: "((string \<times> u16) list \<Rightarrow> (string \<times> u16) list) \<Rightarrow> db test list" where
  "storage_tests iter = [it_should_create, it_should_create_with_dependencies,
     it_should_fail_create_with_invalid_dependencies, it_should_find_next, it_should_find_next_many_queues iter,
     it_should_update, it_should_update_batch, it_should_find, it_should_find_to_rollback,
     it_should_return_empty_find_to_rollback_when_tx_slot_lower_than_block_slot,
     it_should_find_latest, it_should_return_empty_latest]"

definition cursor_tests :: "db test list" where
  "cursor_tests = [it_should_set, it_should_set_when_it_updates, it_should_find_current]"

lemma storage_tests_pass:
  assumes "sorted instants" "5 \<le> length instants" "iter_ok iter"
  shows "list_all (\<lambda>t. passes t (mock_sqlite_transaction instants)) (storage_tests iter) \<and>
    list_all (\<lambda>t. passes t (mock_sqlite_cursor instants)) cursor_tests"
  by (simp add: storage_tests_def cursor_tests_def create_passes create_with_dependencies_passes
      create_with_invalid_dependencies_passes find_next_passes find_next_many_passes [OF assms(3)] update_passes update_batch_passes
      find_passes find_to_rollback_passes find_to_rollback_empty_passes find_latest_passes [OF assms(1,2)] empty_latest_passes
      set_passes set_updates_passes find_current_passes)

end
