(* ===== verification/Mock_Runs.thy ===== *)
theory Mock_Runs
  imports Mock_Server Storage_Tests
begin

text \<open>
  The submission server with all its connections (\<open>init\<close> of
  \<^verbatim>\<open>src/network/mock_ouroboros_tx_submit_server.rs\<close>), and the test of that file, \<open>broadcast_tests\<close>, in which a fast and a
  slow server listen to the same broadcasts.
\<close>

section \<open>The accept loop\<close>

text \<open>
  Every accepted connection has a task of its own.  The tasks share the server and nothing else, and touch it once,
  at the end of their dialog, with the lock held; so a task is one step, at the moment it records its
  bodies.  A connection is the state of the other side and whether its \<open>init\<close> message arrives.
\<close>

record 's mock_run =
  mr_mock :: mock
  mr_open :: "('s \<times> bool) list"
  mr_finished :: "('s \<times> bool) list"

inductive mock_step ::
  "(request \<Rightarrow> 's \<Rightarrow> (peer_reply \<times> 's) option) \<Rightarrow> (nat \<Rightarrow> 's \<Rightarrow> 's) \<Rightarrow> (bytes \<Rightarrow> bytes option) \<Rightarrow> ('s \<Rightarrow> bool) \<Rightarrow>
   's mock_run \<Rightarrow> 's mock_run \<Rightarrow> bool"
  for ask sleep to_hash client where
  accepts: "client s \<Longrightarrow> mock_step ask sleep to_hash client r (r\<lparr>mr_open := mr_open r @ [(s, ok)]\<rparr>)"
| rejects: "mock_step ask sleep to_hash client r r"
| finishes: "mr_open r = xs @ (s, ok) # ys \<Longrightarrow> mock_task ask sleep to_hash ok s (mr_mock r) = (res :: unit fault + 's, m) \<Longrightarrow>
    mock_step ask sleep to_hash client r \<lparr>mr_mock = m, mr_open = xs @ ys, mr_finished = mr_finished r @ [(s, ok)]\<rparr>"

definition mock_init :: "string \<Rightarrow> u64 \<Rightarrow> nat option \<Rightarrow> 's mock_run \<Rightarrow> bool" where
  "mock_init addr magic delay r \<longleftrightarrow>
     r = \<lparr>mr_mock = mock_new addr magic\<lparr>mk_processing_delay := delay\<rparr>, mr_open = [], mr_finished = []\<rparr>"

definition sleep_option :: "(nat \<Rightarrow> 's \<Rightarrow> 's) \<Rightarrow> nat option \<Rightarrow> 's \<Rightarrow> 's" where
  "sleep_option sleep delay s = (case delay of None \<Rightarrow> s | Some d \<Rightarrow> sleep d s)"

text \<open>What a connection contributes: as many of its ids as it delivers bodies for; nothing when it breaks off.\<close>

definition contribution ::
  "(request \<Rightarrow> 's \<Rightarrow> (peer_reply \<times> 's) option) \<Rightarrow> (nat \<Rightarrow> 's \<Rightarrow> 's) \<Rightarrow> nat option \<Rightarrow> 's \<times> bool \<Rightarrow> bytes list" where
  "contribution ask sleep delay c =
     (if snd c then
        (case mock_dialog ask (sleep_option sleep delay (fst c)) :: (unit, ((u16 \<times> bytes) list \<times> peer_reply) \<times> 's) outcome of
           Inr ((ids, ReplyTxs bodies), _) \<Rightarrow> map snd (take (length bodies) ids)
         | _ \<Rightarrow> [])
      else [])"

definition dialog_hashes :: "(request \<Rightarrow> 's \<Rightarrow> (peer_reply \<times> 's) option) \<Rightarrow> (bytes \<Rightarrow> bytes option) \<Rightarrow> 's \<Rightarrow> bool" where
  "dialog_hashes ask to_hash s \<longleftrightarrow>
     (\<forall>ids r s'. mock_dialog ask s = (Inr ((ids, r), s') :: (unit, ((u16 \<times> bytes) list \<times> peer_reply) \<times> 's) outcome) \<longrightarrow>
        (\<forall>x\<in>set ids. to_hash (snd x) = Some (snd x)))"

definition mock_inv ::
  "(request \<Rightarrow> 's \<Rightarrow> (peer_reply \<times> 's) option) \<Rightarrow> (nat \<Rightarrow> 's \<Rightarrow> 's) \<Rightarrow> ('s \<Rightarrow> bool) \<Rightarrow> nat option \<Rightarrow> 's mock_run \<Rightarrow> bool" where
  "mock_inv ask sleep client delay r \<longleftrightarrow>
     \<not> mk_poisoned (mr_mock r) \<and> mk_processing_delay (mr_mock r) = delay \<and>
     (\<forall>c\<in>set (mr_open r) \<union> set (mr_finished r). client (fst c)) \<and>
     mk_acknowledged (mr_mock r) = concat (map (contribution ask sleep delay) (mr_finished r))"

context submission_client
begin

lemma dialog_bodies:
  assumes "mock_dialog ask s = Inr ((ids, r), s')"
  obtains bodies where "r = ReplyTxs bodies" "length bodies \<le> length ids"
proof -
  from assms obtain s2 where "option_unwrap (ask (Txs ids) s2) = Inr (r, s')"
    by (auto simp: mock_dialog_def Let_def)
  then have "ask (Txs ids) s2 = Some (r, s')" by (cases "ask (Txs ids) s2") auto
  from bodies_bounded [OF this] that show thesis by blast
qed

lemma task_effect:
  assumes "mock_task ask sleep to_hash ok s m = (res :: unit fault + 's, m')" "\<not> mk_poisoned m"
    "dialog_hashes ask to_hash (after_delay sleep m s)"
  shows "\<not> mk_poisoned m' \<and> mk_processing_delay m' = mk_processing_delay m \<and>
    mk_acknowledged m' = mk_acknowledged m @ contribution ask sleep (mk_processing_delay m) (s, ok)"
proof (cases ok)
  case True
  let ?s = "after_delay sleep m s"
  have sl: "sleep_option sleep (mk_processing_delay m) s = ?s" by (simp add: sleep_option_def after_delay_def)
  show ?thesis
  proof (cases "mock_dialog ask ?s :: (unit, ((u16 \<times> bytes) list \<times> peer_reply) \<times> 's) outcome")
    case (Inl f)
    with True assms(1,2) sl show ?thesis by (simp add: mock_task_def contribution_def)
  next
    case (Inr x)
    then obtain ids r s3 where d: "mock_dialog ask ?s = (Inr ((ids, r), s3) :: (unit, ((u16 \<times> bytes) list \<times> peer_reply) \<times> 's) outcome)"
      by (cases x) auto
    obtain bodies where b: "r = ReplyTxs bodies" "length bodies \<le> length ids" by (rule dialog_bodies [OF d])
    have "\<forall>x\<in>set (take (length bodies) ids). to_hash (snd x) = Some (snd x)"
      using assms(3) d unfolding dialog_hashes_def by (blast dest: in_set_takeD)
    note p = push_hashes_ok [OF this, of m]
    have "m' = m\<lparr>mk_acknowledged := mk_acknowledged m @ map snd (take (length bodies) ids), mk_done := True\<rparr>"
      using True assms(1,2) b d by (simp add: mock_task_def record_bodies_def p)
    with True assms(2) b d sl show ?thesis by (simp add: contribution_def)
  qed
qed (use assms in \<open>simp add: mock_task_def contribution_def\<close>)

lemma mock_step_inv:
  assumes "mock_step ask sleep to_hash client r r'" "mock_inv ask sleep client delay r"
    "\<forall>s. client s \<longrightarrow> dialog_hashes ask to_hash (sleep_option sleep delay s)"
  shows "mock_inv ask sleep client delay r'"
  using assms(1)
proof cases
  case (finishes xs s ok ys res m)
  have "client s" using assms(2) finishes(2) by (auto simp: mock_inv_def)
  then have "dialog_hashes ask to_hash (after_delay sleep (mr_mock r) s)"
    using assms(2,3) by (auto simp: mock_inv_def after_delay_def sleep_option_def)
  from task_effect [OF finishes(3) _ this] assms(2) finishes(1,2) show ?thesis by (auto simp: mock_inv_def)
qed (use assms(2) in \<open>auto simp: mock_inv_def\<close>)

lemma mock_reach_inv:
  assumes "reach (mock_init addr magic delay) (mock_step ask sleep to_hash client) r"
    "\<forall>s. client s \<longrightarrow> dialog_hashes ask to_hash (sleep_option sleep delay s)"
  shows "mock_inv ask sleep client delay r"
  using assms(1)
proof (induction rule: reach.induct)
  case (reach_init r)
  then show ?case by (simp add: mock_init_def mock_inv_def mock_new_def)
next
  case (reach_step r r')
  from mock_step_inv [OF reach_step(2,3) assms(2)] show ?case .
qed

end

section \<open>The transactions of the test\<close>

text \<open>Of the types of the ledger, the fields the test sets; all others are \<open>None\<close>.  \<open>to_vec\<close> is the encoder.\<close>

record sample_input =
  si_transaction_id :: bytes
  si_index :: u64

record sample_output =
  so_address :: bytes
  so_value :: u64

record sample_tx =
  sb_inputs :: "sample_input list"
  sb_outputs :: "sample_output list"
  sb_fee :: u64
  sb_ttl :: "u64 option"
  st_success :: bool

definition sample_transaction :: "nat \<Rightarrow> sample_tx" where
  "sample_transaction i =
     \<lparr>sb_inputs = [\<lparr>si_transaction_id = replicate 32 (of_nat i), si_index = of_nat i\<rparr>],
      sb_outputs = [\<lparr>so_address = replicate 28 (100 + of_nat i), so_value = (of_nat i + 1) * 1000000\<rparr>],
      sb_fee = (of_nat i + 1) * 100000, sb_ttl = Some 1000000, st_success = True\<rparr>"

definition generate_sample_transactions :: "(sample_tx \<Rightarrow> bytes) \<Rightarrow> bytes list" where
  "generate_sample_transactions to_vec = map (\<lambda>i. to_vec (sample_transaction i)) [0..<10]"

section \<open>The test\<close>

text \<open>
  The two servers, the slow one with a delay of five seconds, each with a peer that has just connected.  Both peers are sent
  the same messages.  \<open>sent\<close> is what a peer sees that listens from the start, \<open>late\<close> what is left of it after a delay:
  the channel holds a few messages only.
\<close>

definition late_session :: "(nat \<Rightarrow> recv_event list \<Rightarrow> recv_event list) \<Rightarrow> nat \<Rightarrow> session \<Rightarrow> session" where
  "late_session late d s = s\<lparr>se_events := late d (se_events s)\<rparr>"

definition it_should_demonstrate_processing_speed_differences ::
  "bool \<Rightarrow> (Era \<Rightarrow> u16) \<Rightarrow> ('tx, 'out, 'rep) pallas \<Rightarrow> (bytes \<Rightarrow> bytes option) \<Rightarrow> (sample_tx \<Rightarrow> bytes) \<Rightarrow> nat \<Rightarrow>
   (nat \<Rightarrow> recv_event list \<Rightarrow> recv_event list) \<Rightarrow> recv_event list \<Rightarrow> 's test" where
  "it_should_demonstrate_processing_speed_differences oc era_number pl to_hash to_vec deadline late sent =
     (let fast_server = mock_new ''0.0.0.0:3001'' 2;
          slow_server = (mock_new ''0.0.0.0:3002'' 2)\<lparr>mk_processing_delay := Some 5\<rparr>;
          serve = (\<lambda>server. snd (mock_task (peer_ask oc era_number pl to_hash deadline) (late_session late) to_hash True
            (demo_session sent) server :: (unit fault + session) \<times> mock));
          sample_txs = generate_sample_transactions to_vec;
          fast_tx_hashes = mk_acknowledged (serve fast_server);
          slow_tx_hashes = mk_acknowledged (serve slow_server);
          fast_tx_count = length fast_tx_hashes;
          slow_tx_count = length slow_tx_hashes;
          lagged_txs = length (filter (\<lambda>fast_hash. fast_hash \<notin> set slow_tx_hashes) fast_tx_hashes)
      in sx_bind (assert_that (length sample_txs = fast_tx_count)) (\<lambda>_.
         sx_bind (assert_that (length sample_txs \<noteq> slow_tx_count)) (\<lambda>_.
         sx_bind (assert_that (0 < lagged_txs)) (\<lambda>_.
         assert_that (0 < slow_tx_count)))))"

section \<open>What the peers announce\<close>

definition hash_of :: "('tx, 'out, 'rep) pallas \<Rightarrow> bytes \<Rightarrow> bytes" where
  "hash_of pl raw = pl_hash pl (the (pl_decode pl raw))"

definition receivable :: "(Era \<Rightarrow> u16) \<Rightarrow> ('tx, 'out, 'rep) pallas \<Rightarrow> bytes \<Rightarrow> bool" where
  "receivable era_number pl raw \<longleftrightarrow> (\<exists>metx. pl_decode pl raw = Some metx \<and> 1 \<le> era_number (pl_era pl metx))"

lemma receive_all_receivable:
  assumes "\<forall>raw\<in>set raws. receivable era_number pl raw" "\<not> mp_poisoned m"
  shows "\<exists>txs m'. receive_all oc era_number pl raws m = (Inr txs, m') \<and> map mt_hash txs = map (hash_of pl) raws \<and> \<not> mp_poisoned m'"
  using assms
proof (induction raws arbitrary: m)
  case (Cons raw raws)
  then obtain metx where "pl_decode pl raw = Some metx" "1 \<le> era_number (pl_era pl metx)" by (auto simp: receivable_def)
  then obtain tx where r: "receive_raw oc era_number pl raw m = (Inr tx, push tx m)" "mt_hash tx = hash_of pl raw"
    using Cons.prems(2) by (auto simp: receive_raw_def receive_def sx_defs ok_or_def hash_of_def Let_def)
  from Cons.IH [of "push tx m"] Cons.prems obtain txs m' where
    "receive_all oc era_number pl raws (push tx m) = (Inr txs, m')" "map mt_hash txs = map (hash_of pl) raws" "\<not> mp_poisoned m'"
    by auto
  with r show ?case by simp
qed simp

lemma announce_receivable:
  assumes "\<forall>raw\<in>set raws. receivable era_number pl raw" "\<not> mp_poisoned (se_pool s)"
  shows "\<exists>txs m. announce oc era_number pl raws s =
      (Inr (), s\<lparr>se_pool := m, se_replies := se_replies s @ [ReplyTxIds (tx_ids_payload txs)]\<rparr>) \<and>
    map mt_hash txs = map (hash_of pl) raws \<and> \<not> mp_poisoned m"
proof -
  obtain txs m where "receive_all oc era_number pl raws (se_pool s) = (Inr txs, m)" "map mt_hash txs = map (hash_of pl) raws"
    "\<not> mp_poisoned m" using receive_all_receivable [OF assms, of oc] by blast
  then show ?thesis by (intro exI [of _ txs] exI [of _ m]) (simp add: announce_def)
qed

lemma collect_messages:
  "collect_transactions n txs (map Msg xs @ es) =
     (if n \<le> length xs then Some (Inr (txs @ take n xs), map Msg (drop n xs) @ es)
      else collect_transactions (n - length xs) (txs @ xs) es)"
proof (induction xs arbitrary: n txs)
  case (Cons x xs)
  then show ?case by (cases n) auto
qed auto

lemma collect_waits:
  "0 < n \<Longrightarrow> collect_transactions n txs (RecvError # es) = collect_transactions n txs es"
  "0 < n \<Longrightarrow> txs \<noteq> [] \<Longrightarrow> collect_transactions n txs (Elapsed # es) = Some (Inr txs, es)"
  by (cases n, simp_all)+

lemma ask_blocking:
  assumes "collect_transactions 5 [] (se_events s) = Some (Inr raws, rest)" "\<forall>raw\<in>set raws. receivable era_number pl raw"
    "\<not> mp_poisoned (se_pool s)"
  shows "\<exists>r s'. peer_ask oc era_number pl to_hash deadline (TxIds 0 COUNT) s = Some (r, s') \<and>
    map snd (reply_ids r) = map (hash_of pl) raws \<and> se_events s' = rest \<and> \<not> mp_poisoned (se_pool s')"
  using announce_receivable [OF assms(2), of "s\<lparr>se_events := rest\<rparr>" oc] assms(1,3)
  by (auto simp: peer_ask_def handle_request_def tx_ids_blocking_def acknowledge_nothing COUNT_def collected_def reply_ids_payload)

lemma ask_non_blocking:
  assumes "raws = (case collect_transactions 5 [] (take deadline (se_events s)) of None \<Rightarrow> [] | Some (r, _) \<Rightarrow> collected r)"
    "\<forall>raw\<in>set raws. receivable era_number pl raw" "\<not> mp_poisoned (se_pool s)"
  shows "\<exists>r s'. peer_ask oc era_number pl to_hash deadline (TxIdsNonBlocking 0 COUNT) s = Some (r, s') \<and>
    map snd (reply_ids r) = map (hash_of pl) raws"
proof -
  obtain es where es: "tx_ids_non_blocking oc era_number pl deadline 0 COUNT s = announce oc era_number pl raws (s\<lparr>se_events := es\<rparr>)"
    using assms(1,3) by (auto simp: tx_ids_non_blocking_def acknowledge_nothing COUNT_def split: option.splits)
  from announce_receivable [OF assms(2), of "s\<lparr>se_events := es\<rparr>" oc] assms(3) es show ?thesis
    by (auto simp: peer_ask_def handle_request_def reply_ids_payload)
qed

lemma server_acknowledges:
  fixes pl :: "('tx, 'out, 'rep) pallas"
  assumes "after_delay sleep m s = s0" "se_pool s0 = mempool_new" "mk_acknowledged m = []" "\<not> mk_poisoned m"
    "collect_transactions 5 [] (se_events s0) = Some (Inr raws1, rest)"
    "raws2 = (case collect_transactions 5 [] (take deadline rest) of None \<Rightarrow> [] | Some (r, _) \<Rightarrow> collected r)"
    "\<forall>raw\<in>set (raws1 @ raws2). receivable era_number pl raw"
    "\<forall>b metx. pl_decode pl b = Some metx \<longrightarrow> to_hash (pl_hash pl metx) = Some (pl_hash pl metx)"
  shows "mk_acknowledged (snd (mock_task (peer_ask oc era_number pl to_hash deadline) sleep to_hash True s m ::
      (unit fault + session) \<times> mock)) = map (hash_of pl) (raws1 @ raws2)"
proof -
  have np: "mp_inflight (se_pool s0) = []" "\<not> mp_poisoned (se_pool s0)" using assms(2) by (simp_all add: mempool_new_def)
  obtain r1 s1 where a1: "peer_ask oc era_number pl to_hash deadline (TxIds 0 COUNT) s0 = Some (r1, s1)"
    "map snd (reply_ids r1) = map (hash_of pl) raws1" "se_events s1 = rest" "\<not> mp_poisoned (se_pool s1)"
    using ask_blocking [OF assms(5) _ np(2), of era_number pl oc to_hash deadline] assms(7) by auto
  obtain r2 s2 where a2: "peer_ask oc era_number pl to_hash deadline (TxIdsNonBlocking 0 COUNT) s1 = Some (r2, s2)"
    "map snd (reply_ids r2) = map (hash_of pl) raws2"
    using ask_non_blocking [of raws2 deadline s1 era_number pl oc to_hash] assms(6,7) a1(3,4) by auto
  obtain s3 where "mock_task (peer_ask oc era_number pl to_hash deadline) sleep to_hash True s m =
      ((Inr s3, m\<lparr>mk_acknowledged := mk_acknowledged m @ map snd (reply_ids r1 @ reply_ids r2), mk_done := True\<rparr>) :: (unit fault + session) \<times> mock)"
    using mock_task_announced [OF assms(1) a1(1) a2(1) np assms(4,8)] by blast
  with assms(3) a1(2) a2(2) show ?thesis by simp
qed

lemma messages_map: "messages (map Msg xs) = xs"
  by (induction xs) simp_all

lemma collected_messages:
  "\<exists>more. messages es = (case collect_transactions n [] (take k es) of None \<Rightarrow> [] | Some (r, _) \<Rightarrow> collected r) @ more"
proof (cases "collect_transactions n [] (take k es)")
  case (Some x)
  then obtain r rest where x: "collect_transactions n [] (take k es) = Some (r, rest)" by (cases x) auto
  from collected_ok(2) [OF x] obtain used where u: "take k es = used @ rest" "collected r = messages used" by blast
  have "messages es = messages (take k es @ drop k es)" by simp
  also have "\<dots> = messages used @ messages (rest @ drop k es)" by (simp add: u(1) messages_append del: append_take_drop_id)
  finally show ?thesis using x u(2) by auto
qed simp

text \<open>Fewer hashes than the fast server has: some of its hashes are missing.\<close>

lemma some_missing:
  assumes "distinct xs" "length ys < length xs"
  shows "0 < length (filter (\<lambda>x. x \<notin> set ys) xs)"
proof -
  have "\<not> set xs \<subseteq> set ys"
    using assms card_mono [of "set ys" "set xs"] card_length [of ys] distinct_card [of xs] by force
  then show ?thesis by (auto simp: filter_empty_conv)
qed

section \<open>Properties\<close>

text \<open>The speed test passes.  When the fast peer receives the ten samples without a pause and the delay leaves the slow
  one with fewer than ten messages, all of the test's assertions hold: the fast server acknowledges all ten
  samples, the slow one some but not all of them, and it misses some that the fast one has.\<close>

theorem speed_test_passes:
  fixes pl :: "('tx, 'out, 'rep) pallas"
  defines "samples \<equiv> generate_sample_transactions"
  assumes "\<forall>b metx. pl_decode pl b = Some metx \<longrightarrow> to_hash (pl_hash pl metx) = Some (pl_hash pl metx)"
    "\<forall>raw\<in>set (samples to_vec). receivable era_number pl raw" "distinct (map (hash_of pl) (samples to_vec))"
    "sent = map Msg (samples to_vec) @ others" "5 \<le> deadline"
    "late 5 sent = RecvError # map Msg kept @ [Elapsed]" "kept \<noteq> []" "length kept < 10" "set kept \<subseteq> set (samples to_vec)"
  shows "passes (it_should_demonstrate_processing_speed_differences oc era_number pl to_hash to_vec deadline late sent) w"
proof -
  let ?S = "samples to_vec"
  let ?serve = "\<lambda>server. mk_acknowledged (snd (mock_task (peer_ask oc era_number pl to_hash deadline) (late_session late) to_hash True
            (demo_session sent) server :: (unit fault + session) \<times> mock))"
  let ?slow = "(mock_new ''0.0.0.0:3002'' 2)\<lparr>mk_processing_delay := Some 5\<rparr>"
  have len: "length ?S = 10" by (simp add: samples_def generate_sample_transactions_def)
  have take5: "take 5 ?S @ drop 5 ?S = ?S" by (rule append_take_drop_id)
  have fast: "?serve (mock_new ''0.0.0.0:3001'' 2) = map (hash_of pl) (take 5 ?S @ drop 5 ?S)"
    by (rule server_acknowledges [where ?s0.0 = "demo_session sent" and rest = "map Msg (drop 5 ?S) @ others"])
      (use assms(2,3,6) len take5 in \<open>simp_all add: after_delay_def mock_new_def demo_session_def assms(5) collect_messages collected_def
        flip: set_append\<close>)
  define raws1 where "raws1 = take 5 kept"
  define rest where "rest = (if 5 \<le> length kept then map Msg (drop 5 kept) @ [Elapsed] else [])"
  define raws2 where "raws2 = (case collect_transactions 5 [] (take deadline rest) of None \<Rightarrow> [] | Some (r, _) \<Rightarrow> collected r)"
  have "messages rest = drop 5 kept" by (simp add: rest_def messages_append messages_map)
  with collected_messages [of rest 5 deadline] obtain others' where r2: "drop 5 kept = raws2 @ others'"
    unfolding raws2_def by auto
  have kept: "raws1 @ raws2 @ others' = kept" unfolding raws1_def r2 [symmetric] by (rule append_take_drop_id)
  then have small: "length (raws1 @ raws2) < 10" "set (raws1 @ raws2) \<subseteq> set kept"
    using assms(9) by (metis append_assoc length_append add_lessD1, metis append_assoc set_append Un_upper1)
  have c1: "collect_transactions 5 [] (RecvError # map Msg kept @ [Elapsed]) = Some (Inr raws1, rest)"
    using assms(8) by (simp add: collect_waits collect_messages raws1_def rest_def)
  have "\<forall>raw\<in>set (raws1 @ raws2). receivable era_number pl raw" using small(2) assms(3,10) by blast
  then have slow: "?serve ?slow = map (hash_of pl) (raws1 @ raws2)"
    by (intro server_acknowledges [where ?s0.0 = "late_session late 5 (demo_session sent)" and rest = rest])
      (use assms(2,7) c1 in \<open>simp_all add: after_delay_def mock_new_def demo_session_def late_session_def raws2_def\<close>)
  have "0 < length (filter (\<lambda>x. x \<notin> set (map (hash_of pl) (raws1 @ raws2))) (map (hash_of pl) ?S))"
    using small(1) len assms(4) by (intro some_missing) simp_all
  moreover have "raws1 \<noteq> []" using assms(8) by (simp add: raws1_def)
  ultimately show ?thesis
    using fast slow small(1) len
    by (simp add: it_should_demonstrate_processing_speed_differences_def Let_def passes_def assert_that_def sx_defs samples_def)
qed

text \<open>An encoder with ten different lengths, and a channel that keeps the last eight messages.\<close>

definition demo_to_vec :: "sample_tx \<Rightarrow> bytes" where
  "demo_to_vec tx = replicate (Suc (unat (si_index (sb_inputs tx ! 0)))) 0"

definition demo_late :: "nat \<Rightarrow> recv_event list \<Rightarrow> recv_event list" where
  "demo_late d es = RecvError # drop (length es - 8) es @ [Elapsed]"

lemma demo_samples:
  "generate_sample_transactions demo_to_vec = map (\<lambda>i. replicate (Suc i) 0) [0..<10]"
  by (simp add: generate_sample_transactions_def sample_transaction_def demo_to_vec_def unsigned_of_nat take_bit_nat_eq_self)

theorem speed_test_passes_witness:
  "passes (it_should_demonstrate_processing_speed_differences True (\<lambda>_. 7) demo_pallas Some demo_to_vec 9 demo_late
     (map Msg (generate_sample_transactions demo_to_vec))) ()"
proof (rule speed_test_passes)
  show "map Msg (generate_sample_transactions demo_to_vec) = map Msg (generate_sample_transactions demo_to_vec) @ []" by simp
  show "demo_late 5 (map Msg (generate_sample_transactions demo_to_vec)) =
      RecvError # map Msg (drop 2 (generate_sample_transactions demo_to_vec)) @ [Elapsed]"
    by (simp add: demo_late_def demo_samples drop_map)
  show "\<forall>raw\<in>set (generate_sample_transactions demo_to_vec). receivable (\<lambda>_. 7) demo_pallas raw"
    by (auto simp: demo_samples receivable_def demo_pallas_def)
  show "distinct (map (hash_of demo_pallas) (generate_sample_transactions demo_to_vec))"
    by (simp add: demo_samples hash_of_def demo_pallas_def upt_rec)
  show "set (drop 2 (generate_sample_transactions demo_to_vec)) \<subseteq> set (generate_sample_transactions demo_to_vec)"
    by (rule set_drop_subset)
qed (simp_all add: demo_samples)

section \<open>Many connections\<close>

text \<open>Peers that connect: a fresh mempool, also after the delay.\<close>

definition fresh_peer :: "(nat \<Rightarrow> session \<Rightarrow> session) \<Rightarrow> nat option \<Rightarrow> session \<Rightarrow> bool" where
  "fresh_peer sleep delay s \<longleftrightarrow>
     mp_inflight (se_pool (sleep_option sleep delay s)) = [] \<and> \<not> mp_poisoned (se_pool (sleep_option sleep delay s))"

lemma dialog_answers:
  assumes "mock_dialog ask s = Inr ((ids, r), s')"
  obtains r1 s1 r2 s2 where "ask (TxIds 0 COUNT) s = Some (r1, s1)" "ask (TxIdsNonBlocking 0 COUNT) s1 = Some (r2, s2)"
    "ids = reply_ids r1 @ reply_ids r2"
proof -
  from assms obtain r1 s1 r2 s2 where "option_unwrap (ask (TxIds 0 COUNT) s) = Inr (r1, s1)"
    "option_unwrap (ask (TxIdsNonBlocking 0 COUNT) s1) = Inr (r2, s2)" "ids = reply_ids r1 @ reply_ids r2"
    by (auto simp: mock_dialog_def Let_def)
  then show thesis
    using that [of r1 s1 r2 s2] by (cases "ask (TxIds 0 COUNT) s"; cases "ask (TxIdsNonBlocking 0 COUNT) s1") auto
qed

lemma peer_dialog:
  assumes "mock_dialog (peer_ask oc era_number pl to_hash deadline) s =
      (Inr ((ids, r), s') :: ('e, ((u16 \<times> bytes) list \<times> peer_reply) \<times> session) outcome)"
    "mp_inflight (se_pool s) = []" "\<not> mp_poisoned (se_pool s)"
    "\<forall>b metx. pl_decode pl b = Some metx \<longrightarrow> to_hash (pl_hash pl metx) = Some (pl_hash pl metx)"
  shows "(\<forall>x\<in>set ids. to_hash (snd x) = Some (snd x)) \<and> length ids \<le> 10"
proof (rule dialog_answers [OF assms(1)])
  fix r1 s1 r2 s2
  assume a: "peer_ask oc era_number pl to_hash deadline (TxIds 0 COUNT) s = Some (r1, s1)"
    "peer_ask oc era_number pl to_hash deadline (TxIdsNonBlocking 0 COUNT) s1 = Some (r2, s2)" "ids = reply_ids r1 @ reply_ids r2"
  show ?thesis by (rule mock_dialog_announced [OF a(1,2) assms(2-4)]) (simp add: a(3))
qed

text \<open>Connections do not disturb each other.  Whatever peers connect to the server, in whatever order their exchanges
  end, and however many of them break off: the lock of the server is never poisoned, and its list of
  acknowledged transactions is the contributions of the finished connections one after the other, each whole and of
  at most ten ids.\<close>

theorem connections_do_not_mix:
  assumes "reach (mock_init addr magic delay)
      (mock_step (peer_ask oc era_number pl to_hash deadline) sleep to_hash (fresh_peer sleep delay)) r"
    "\<forall>b metx. pl_decode pl b = Some metx \<longrightarrow> to_hash (pl_hash pl metx) = Some (pl_hash pl metx)"
  shows "\<not> mk_poisoned (mr_mock r) \<and>
    mk_acknowledged (mr_mock r) = concat (map (contribution (peer_ask oc era_number pl to_hash deadline) sleep delay) (mr_finished r)) \<and>
    (\<forall>c\<in>set (mr_finished r). length (contribution (peer_ask oc era_number pl to_hash deadline) sleep delay c) \<le> 10)"
proof -
  have h: "\<forall>s. fresh_peer sleep delay s \<longrightarrow> dialog_hashes (peer_ask oc era_number pl to_hash deadline) to_hash (sleep_option sleep delay s)"
    unfolding dialog_hashes_def fresh_peer_def by (intro allI impI, elim conjE, rule peer_dialog [THEN conjunct1, OF _ _ _ assms(2)])
  have "length (contribution (peer_ask oc era_number pl to_hash deadline) sleep delay c) \<le> 10" if "fresh_peer sleep delay (fst c)" for c
  proof -
    have "length ids \<le> 10" if "mock_dialog (peer_ask oc era_number pl to_hash deadline) (sleep_option sleep delay (fst c)) =
        (Inr ((ids, rep), s') :: (unit, ((u16 \<times> bytes) list \<times> peer_reply) \<times> session) outcome)" for ids rep s'
      using peer_dialog [OF that _ _ assms(2)] \<open>fresh_peer sleep delay (fst c)\<close> by (simp add: fresh_peer_def)
    then show ?thesis by (auto simp: contribution_def min_def split: sum.splits peer_reply.splits)
  qed
  with peer_client.mock_reach_inv [OF assms(1) h] show ?thesis by (auto simp: mock_inv_def)
qed

theorem connections_do_not_mix_witness:
  "\<exists>r. reach (mock_init ''0.0.0.0:3001'' 2 None)
      (mock_step (peer_ask True (\<lambda>_. 7) demo_pallas Some 2) (\<lambda>_ s. s) Some (fresh_peer (\<lambda>_ s. s) None)) r \<and>
     mk_acknowledged (mr_mock r) = [[1], [2]]"
proof -
  let ?ask = "peer_ask True (\<lambda>_. 7) demo_pallas Some 2" and ?s = "demo_session [Msg [9], Elapsed, Msg [9, 9], Elapsed]"
    and ?m = "mock_new ''0.0.0.0:3001'' 2"
  let ?step = "mock_step ?ask (\<lambda>_ s. s) Some (fresh_peer (\<lambda>_ s. s) None)"
    and ?r0 = "\<lparr>mr_mock = ?m, mr_open = [], mr_finished = []\<rparr>" and ?r1 = "\<lparr>mr_mock = ?m, mr_open = [(?s, True)], mr_finished = []\<rparr>"
  obtain res m where t: "mock_task ?ask (\<lambda>_ s. s) Some True ?s ?m = (res :: unit fault + session, m)" by fastforce
  let ?r2 = "\<lparr>mr_mock = m, mr_open = [], mr_finished = [(?s, True)]\<rparr>"
  have "mock_init ''0.0.0.0:3001'' 2 None ?r0" by (simp add: mock_init_def mock_new_def)
  moreover have "?step ?r0 ?r1"
    using accepts [of "fresh_peer (\<lambda>_ s. s) None" ?s ?ask "\<lambda>_ s. s" Some ?r0 True]
    by (simp add: fresh_peer_def sleep_option_def demo_session_def mempool_new_def)
  moreover have "?step ?r1 ?r2"
    using finishes [of ?r1 "[]" ?s True "[]" ?ask "\<lambda>_ s. s" Some res m "fresh_peer (\<lambda>_ s. s) None"] t by simp
  ultimately have r: "reach (mock_init ''0.0.0.0:3001'' 2 None) ?step ?r2" by (meson reach_init reach_step)
  have "contribution ?ask (\<lambda>_ s. s) None (?s, True) = [[1], [2]]" by code_simp
  with connections_do_not_mix [OF r] r show ?thesis by (intro exI [of _ ?r2]) auto
qed

end
