(* ===== verification/Node_Network.thy ===== *)
theory Node_Network
  imports Fine_Monitor Mock_Runs "HOL-Library.Sublist"
begin

text \<open>
  The node and its peers.  \<^verbatim>\<open>src/pipeline/mod.rs\<close> makes one broadcast channel: the ingest stage sends on it, and
  every peer connection subscribes to it when it is made (\<open>init\<close> and \<open>add_peer\<close> of \<^verbatim>\<open>src/network/peer_manager.rs\<close>)
  and answers its remote side out of what it receives (\<open>start_background_task\<close> of \<^verbatim>\<open>src/network/peer.rs\<close>).  Here the node
  of \<open>Fine_Monitor\<close>, the channel and any number of such connections run together, in any order.
\<close>

section \<open>What a remote side has been told\<close>

fun told_ids :: "peer_reply \<Rightarrow> (bytes \<times> u32) list" where
  "told_ids (ReplyTxIds ids) = map snd ids"
| "told_ids (ReplyTxs bodies) = []"

fun told_bodies :: "peer_reply \<Rightarrow> bytes list" where
  "told_bodies (ReplyTxIds ids) = []"
| "told_bodies (ReplyTxs bodies) = map snd bodies"

definition announced :: "session \<Rightarrow> (bytes \<times> u32) list" where
  "announced s = concat (map told_ids (se_replies s))"

definition delivered :: "session \<Rightarrow> bytes list" where
  "delivered s = concat (map told_bodies (se_replies s))"

text \<open>The id of a message as it has to be announced: the hash of its transaction, and its size.\<close>

definition id_size :: "('tx, 'out, 'rep) pallas \<Rightarrow> bytes \<Rightarrow> bytes \<times> u32" where
  "id_size pl raw = (hash_of pl raw, of_nat (length raw))"

text \<open>A session that has taken the messages \<open>past\<close> from the channel.\<close>

definition session_ok :: "('tx, 'out, 'rep) pallas \<Rightarrow> bytes list \<Rightarrow> session \<Rightarrow> bool" where
  "session_ok pl past s \<longleftrightarrow> subseq (announced s) (map (id_size pl) past) \<and> set (delivered s) \<subseteq> set past \<and>
     (\<forall>t\<in>set (mp_inflight (se_pool s)). mt_bytes t \<in> set past)"

lemma receive_all_any:
  assumes "receive_all oc era_number pl raws m = (r, m')"
  shows "\<exists>txs. m' = fold push txs m \<and> subseq (map mt_bytes txs) raws \<and> (\<forall>t\<in>set txs. mt_hash t = hash_of pl (mt_bytes t)) \<and>
    (\<forall>ts. r = Inr ts \<longrightarrow> ts = txs)"
  using assms
proof (induction raws arbitrary: m r m')
  case Nil
  then show ?case by (intro exI [of _ "[]"]) auto
next
  case (Cons raw raws)
  obtain r1 m1 where r1: "receive_raw oc era_number pl raw m = (r1, m1)" by fastforce
  then show ?case
  proof (cases rule: receive_raw_cases)
    case (err f)
    show ?thesis
    proof (cases f)
      case Panic
      with Cons.prems r1 err show ?thesis by (intro exI [of _ "[]"]) auto
    next
      case (Err x)
      with Cons.prems r1 err have "receive_all oc era_number pl raws m = (r, m')" by simp
      from Cons.IH [OF this] show ?thesis by blast
    qed
  next
    case (ok tx metx)
    obtain r2 m2 where r2: "receive_all oc era_number pl raws m1 = (r2, m2)" by fastforce
    with Cons.prems r1 ok(1) have "m' = m2" "r = (case r2 of Inl f \<Rightarrow> Inl f | Inr ts \<Rightarrow> Inr (tx # ts))"
      by (auto split: sum.splits)
    moreover obtain txs where "m2 = fold push txs m1" "subseq (map mt_bytes txs) raws"
      "\<forall>t\<in>set txs. mt_hash t = hash_of pl (mt_bytes t)" "\<forall>ts. r2 = Inr ts \<longrightarrow> ts = txs" using Cons.IH [OF r2] by blast
    ultimately show ?thesis using ok
      by (intro exI [of _ "tx # txs"]) (auto simp: hash_of_def split: sum.splits)
  qed
qed

lemma inflight_push_all: "set (mp_inflight (fold push txs m)) \<subseteq> set (mp_inflight m) \<union> set txs"
proof (induction txs arbitrary: m)
  case (Cons t txs)
  have "set (mp_inflight (push t m)) \<subseteq> set (mp_inflight m) \<union> {t}"
    by (cases "mp_inflight m") (auto simp: pool.items_add)
  with Cons [of "push t m"] show ?case by auto
qed simp

lemma payload_ids:
  assumes "\<forall>t\<in>set txs. mt_hash t = hash_of pl (mt_bytes t)"
  shows "map snd (tx_ids_payload txs) = map (id_size pl) (map mt_bytes txs)"
  using assms by (simp add: tx_ids_payload_def id_size_def)

lemma announce_session:
  assumes "announce oc era_number pl raws s = (r, s')" "session_ok pl past s"
  shows "session_ok pl (past @ raws) s' \<and> se_events s' = se_events s"
proof -
  obtain r1 m where r1: "receive_all oc era_number pl raws (se_pool s) = (r1, m)" by fastforce
  from receive_all_any [OF r1] obtain txs where txs: "m = fold push txs (se_pool s)" "subseq (map mt_bytes txs) raws"
    "\<forall>t\<in>set txs. mt_hash t = hash_of pl (mt_bytes t)" "\<forall>ts. r1 = Inr ts \<longrightarrow> ts = txs" by blast
  have "mt_bytes ` set txs \<subseteq> set raws" using list_emb_set [OF txs(2)] by force
  then have pool: "\<forall>t\<in>set (mp_inflight m). mt_bytes t \<in> set (past @ raws)"
  proof (intro ballI)
    fix t assume "t \<in> set (mp_inflight m)"
    then have "t \<in> set (mp_inflight (se_pool s)) \<or> t \<in> set txs" using inflight_push_all [of txs "se_pool s"] txs(1) by blast
    with assms(2) \<open>mt_bytes ` set txs \<subseteq> set raws\<close> show "mt_bytes t \<in> set (past @ raws)" by (auto simp: session_ok_def)
  qed
  have old: "subseq (announced s) (map (id_size pl) past)" "set (delivered s) \<subseteq> set past" using assms(2) by (simp_all add: session_ok_def)
  show ?thesis
  proof (cases r1)
    case (Inl f)
    with assms(1) r1 have s': "s' = s\<lparr>se_pool := m\<rparr>" by (simp add: announce_def)
    with old pool show ?thesis
      by (auto simp: session_ok_def announced_def delivered_def intro: subseq_rev_drop_many)
  next
    case (Inr ts)
    with assms(1) r1 txs(4) have s': "s' = s\<lparr>se_pool := m, se_replies := se_replies s @ [ReplyTxIds (tx_ids_payload txs)]\<rparr>"
      by (simp add: announce_def)
    have "announced s' = announced s @ map (id_size pl) (map mt_bytes txs)"
      unfolding payload_ids [OF txs(3), symmetric] by (simp add: s' announced_def)
    moreover have "subseq (announced s @ map (id_size pl) (map mt_bytes txs)) (map (id_size pl) past @ map (id_size pl) raws)"
      using old(1) subseq_map [OF txs(2)] by (rule list_emb_append_mono)
    ultimately show ?thesis using old(2) pool by (auto simp: s' session_ok_def delivered_def)
  qed
qed

lemma acknowledge_session:
  assumes "acknowledge n (se_pool s) = (r, m)" "session_ok pl past s"
  shows "session_ok pl past (s\<lparr>se_pool := m, se_events := es\<rparr>)" "session_ok pl past (s\<lparr>se_pool := m\<rparr>)"
proof -
  have "set (mp_inflight m) \<subseteq> set (mp_inflight (se_pool s))"
    using assms(1) set_drop_subset [of n "mp_inflight (se_pool s)"] by (auto simp: acknowledge_def pool.items_remove split: if_splits)
  with assms(2) show "session_ok pl past (s\<lparr>se_pool := m, se_events := es\<rparr>)" "session_ok pl past (s\<lparr>se_pool := m\<rparr>)"
    by (auto simp: session_ok_def announced_def delivered_def)
qed

lemma find_bodies_set:
  "find_bodies to_hash m ids = Inr bodies \<Longrightarrow> b \<in> set bodies \<Longrightarrow> \<exists>t\<in>set (mp_inflight m). snd b = mt_bytes t"
proof (induction ids arbitrary: bodies)
  case (Cons x ids)
  then obtain h rest where r: "find_bodies to_hash m ids = Inr rest"
    "bodies = (case fst (find_inflight h m) of Inr (Some tx) \<Rightarrow> (mt_era tx, mt_bytes tx) # rest | _ \<Rightarrow> rest)" by auto
  have "t \<in> set (mp_inflight m)" if "fst (find_inflight h m) = Inr (Some t)" for t
    using that by (auto simp: find_inflight_def find_Some_iff split: if_splits)
  with Cons.IH [OF r(1)] r(2) Cons.prems(2) show ?case by (fastforce split: sum.splits option.splits)
qed simp

text \<open>Every answer of the task, panics included: the messages it uses up are the next ones it has received.\<close>

lemma handle_request_session:
  assumes "handle_request oc era_number pl to_hash deadline req s = Some (r, s')" "session_ok pl past s"
  shows "\<exists>used. se_events s = used @ se_events s' \<and> session_ok pl (past @ messages used) s'"
proof (cases req)
  case (TxIds ack n)
  obtain ar m where a: "acknowledge (unat ack) (se_pool s) = (ar, m)" by fastforce
  note k = acknowledge_session [OF a assms(2)]
  show ?thesis
  proof (cases "ar = Inl Panic")
    case True
    with assms(1) TxIds a k(2) show ?thesis by (auto simp: handle_request_def tx_ids_blocking_def)
  next
    case False
    with assms(1) TxIds a obtain c rest where c: "collect_transactions (unat n) [] (se_events s) = Some (c, rest)"
      "announce oc era_number pl (collected c) (s\<lparr>se_pool := m, se_events := rest\<rparr>) = (r, s')"
      by (auto simp: handle_request_def tx_ids_blocking_def split: sum.splits fault.splits option.splits)
    from collected_ok(2) [OF c(1)] announce_session [OF c(2) k(1)] show ?thesis by auto
  qed
next
  case (TxIdsNonBlocking ack n)
  obtain ar m where a: "acknowledge (unat ack) (se_pool s) = (ar, m)" by fastforce
  note k = acknowledge_session [OF a assms(2)]
  let ?es = "take deadline (se_events s)" and ?later = "drop deadline (se_events s)"
  show ?thesis
  proof (cases "ar = Inl Panic")
    case True
    with assms(1) TxIdsNonBlocking a k(2) show ?thesis by (auto simp: handle_request_def tx_ids_non_blocking_def)
  next
    case False
    have "session_ok pl (past @ messages ?es) s' \<and> se_events s' = ?later"
      if "collect_transactions (unat n) [] ?es = None"
    proof -
      from that False a assms(1) TxIdsNonBlocking have
        "announce oc era_number pl [] (s\<lparr>se_pool := m, se_events := ?later\<rparr>) = (r, s')"
        by (auto simp: handle_request_def tx_ids_non_blocking_def split: sum.splits fault.splits)
      from announce_session [OF this k(1)] show ?thesis
        unfolding session_ok_def by (auto intro: subseq_rev_drop_many)
    qed
    moreover have "\<exists>used. ?es = used @ rest \<and> session_ok pl (past @ messages used) s' \<and> se_events s' = rest @ ?later"
      if c: "collect_transactions (unat n) [] ?es = Some (c, rest)" for c rest
    proof -
      from c False a assms(1) TxIdsNonBlocking have
        "announce oc era_number pl (collected c) (s\<lparr>se_pool := m, se_events := rest @ ?later\<rparr>) = (r, s')"
        by (auto simp: handle_request_def tx_ids_non_blocking_def split: sum.splits fault.splits)
      from collected_ok(2) [OF c] announce_session [OF this k(1)] show ?thesis by auto
    qed
    ultimately show ?thesis
      by (cases "collect_transactions (unat n) [] ?es") (auto, metis append_take_drop_id, metis append.assoc append_take_drop_id)
  qed
next
  case (Txs ids)
  show ?thesis
  proof (cases "find_bodies to_hash (se_pool s) ids")
    case (Inl f)
    with assms Txs show ?thesis by (intro exI [of _ "[]"]) (simp add: handle_request_def txs_request_def)
  next
    case (Inr bodies)
    with assms(1) Txs have s': "s' = s\<lparr>se_replies := se_replies s @ [ReplyTxs bodies]\<rparr>"
      by (simp add: handle_request_def txs_request_def)
    have "snd b \<in> set past" if "b \<in> set bodies" for b
      using find_bodies_set [OF Inr that] assms(2) by (auto simp: session_ok_def)
    then have "set (map snd bodies) \<subseteq> set past" by auto
    with assms(2) show ?thesis
      by (intro exI [of _ "[]"]) (simp add: s' session_ok_def announced_def delivered_def)
  qed
qed


section \<open>The system\<close>

text \<open>
  A connection: the place in the channel where it subscribed, the place of the next message it has not received, and its
  session.  \<open>se_events\<close> of the session is what it has received and not used yet.
\<close>

record link =
  ln_from :: nat
  ln_at :: nat
  ln_session :: session

record net =
  nt_node :: mon_node
  nt_links :: "link list"

abbreviation nt_sent :: "net \<Rightarrow> bytes list" where
  "nt_sent w \<equiv> nd_sent (mo_node (nt_node w))"

definition new_session :: session where
  "new_session = \<lparr>se_pool = mempool_new, se_events = [], se_replies = [], se_running = True, se_plexer = True\<rparr>"

definition hear :: "recv_event \<Rightarrow> nat \<Rightarrow> link \<Rightarrow> link" where
  "hear e place l = l\<lparr>ln_at := place, ln_session := (ln_session l)\<lparr>se_events := se_events (ln_session l) @ [e]\<rparr>\<rparr>"

text \<open>
  A step of the node; a new connection; a connection that receives the next message, or learns that it has missed some, or
  that half a second has passed; a connection that answers a request; a connection that ends.
\<close>

inductive net_step ::
  "('tx, 'out, 'rep) node_setup \<Rightarrow> (Era \<Rightarrow> u16) \<Rightarrow> (bytes \<Rightarrow> bytes option) \<Rightarrow> net \<Rightarrow> net \<Rightarrow> bool"
  for su :: "('tx, 'out, 'rep) node_setup" and era_number :: "Era \<Rightarrow> u16" and to_hash :: "bytes \<Rightarrow> bytes option" where
  node_moves: "mon_step su a (nt_node w) m \<Longrightarrow> net_step su era_number to_hash w (w\<lparr>nt_node := m\<rparr>)"
| subscribes: "net_step su era_number to_hash w (w\<lparr>nt_links := nt_links w @
      [\<lparr>ln_from = length (nt_sent w), ln_at = length (nt_sent w), ln_session = new_session\<rparr>]\<rparr>)"
| receives: "j < length (nt_links w) \<Longrightarrow> l = nt_links w ! j \<Longrightarrow> ln_at l < length (nt_sent w) \<Longrightarrow>
    net_step su era_number to_hash w (w\<lparr>nt_links := (nt_links w)[j := hear (Msg (nt_sent w ! ln_at l)) (Suc (ln_at l)) l]\<rparr>)"
| lags: "j < length (nt_links w) \<Longrightarrow> l = nt_links w ! j \<Longrightarrow> ln_at l < place \<Longrightarrow> place \<le> length (nt_sent w) \<Longrightarrow>
    net_step su era_number to_hash w (w\<lparr>nt_links := (nt_links w)[j := hear RecvError place l]\<rparr>)"
| waits: "j < length (nt_links w) \<Longrightarrow> l = nt_links w ! j \<Longrightarrow>
    net_step su era_number to_hash w (w\<lparr>nt_links := (nt_links w)[j := hear Elapsed (ln_at l) l]\<rparr>)"
| answers: "j < length (nt_links w) \<Longrightarrow> l = nt_links w ! j \<Longrightarrow> se_running (ln_session l) \<Longrightarrow>
    handle_request (su_checks su) era_number (su_pallas su) to_hash deadline req (ln_session l) = Some (r, s) \<Longrightarrow>
    net_step su era_number to_hash w (w\<lparr>nt_links := (nt_links w)[j := l\<lparr>ln_session :=
      (case r of Inl _ \<Rightarrow> s\<lparr>se_running := False\<rparr> | Inr _ \<Rightarrow> s)\<rparr>]\<rparr>)"
| ends: "j < length (nt_links w) \<Longrightarrow> l = nt_links w ! j \<Longrightarrow>
    net_step su era_number to_hash w (w\<lparr>nt_links := (nt_links w)[j := l\<lparr>ln_session := abort_connection (ln_session l)\<rparr>]\<rparr>)"

inductive_cases net_stepE: "net_step su era_number to_hash w w'"

definition net_init :: "('tx, 'out, 'rep) node_setup \<Rightarrow> net \<Rightarrow> bool" where
  "net_init su w \<longleftrightarrow> mon_init su (nt_node w) \<and> nt_links w = []"

definition net_reachable :: "('tx, 'out, 'rep) node_setup \<Rightarrow> (Era \<Rightarrow> u16) \<Rightarrow> (bytes \<Rightarrow> bytes option) \<Rightarrow> net \<Rightarrow> bool" where
  "net_reachable su era_number to_hash = reach (net_init su) (net_step su era_number to_hash)"

section \<open>The messages only grow\<close>

lemma node_step_appends: "node_step su a n n' \<Longrightarrow> \<exists>ms. nd_sent n' = nd_sent n @ ms"
proof (erule node_stepE)
  have work: "\<exists>ms. is_sent w' = is_sent w @ ms" if "work_on su tx w = (r, w')" for tx w r w'
    using ingest_tx_cases [OF that [unfolded work_on_def]] by (auto split: verdict.splits if_splits)
  show ?thesis if "n' = n\<lparr>nd_work := w, nd_next := Suc (nd_next n), nd_mark := max (nd_mark n) (Suc (nd_next n))\<rparr>"
    "work_on su (txs ! nd_next n) (nd_work n) = (Inr (), w)" for txs w using that work by auto
  show ?thesis if "n' = n\<lparr>nd_work := w, nd_next := 0\<rparr>" "work_on su (txs ! nd_next n) (nd_work n) = (Inl f, w)" for txs f w
    using that work by auto
  show ?thesis if "n' = n\<lparr>nd_work := w, nd_unit := None\<rparr>" "work_on su (txs ! nd_next n) (nd_work n) = (Inl f, w)" for txs f w
    using that work by auto
qed auto

lemma mon_step_appends: "mon_step su a m m' \<Longrightarrow> \<exists>ms. nd_sent (mo_node m') = nd_sent (mo_node m) @ ms"
proof (erule mon_stepE)
  fix b f assume "m' = m\<lparr>mo_fine := f\<rparr>" "fine_step su b (mo_fine m) f"
  moreover have "\<exists>ms. nd_sent (fn_node f) = nd_sent (mo_node m) @ ms" if "fine_step su b (mo_fine m) f"
    using that by (rule fine_stepE) (auto dest: node_step_appends mark_flight_sent simp: send_message_def sx_modify_def)
  ultimately show ?thesis by auto
qed auto

section \<open>Each connection\<close>

definition link_ok :: "('tx, 'out, 'rep) pallas \<Rightarrow> bytes list \<Rightarrow> link \<Rightarrow> bool" where
  "link_ok pl sent l \<longleftrightarrow> ln_from l \<le> ln_at l \<and> ln_at l \<le> length sent \<and>
     (\<exists>past. session_ok pl past (ln_session l) \<and> subseq (past @ messages (se_events (ln_session l))) (drop (ln_from l) (take (ln_at l) sent)))"

lemma link_ok_grows: "link_ok pl sent l \<Longrightarrow> link_ok pl (sent @ ms) l"
  by (simp add: link_ok_def)

lemma session_ok_events [simp]:
  "session_ok pl past (s\<lparr>se_events := es\<rparr>) = session_ok pl past s"
  "session_ok pl past (s\<lparr>se_running := b\<rparr>) = session_ok pl past s"
  "session_ok pl past (abort_connection s) = session_ok pl past s" "se_events (abort_connection s) = se_events s"
  by (simp_all add: session_ok_def announced_def delivered_def abort_connection_def)

lemma link_ok_hear:
  assumes "link_ok pl sent l" "ln_at l \<le> place" "place \<le> length sent" "messages [e] = ms"
    "ms = [] \<or> ms = [sent ! ln_at l] \<and> ln_at l < place"
  shows "link_ok pl sent (hear e place l)"
proof -
  from assms(1) obtain past where p: "session_ok pl past (ln_session l)"
    "subseq (past @ messages (se_events (ln_session l))) (drop (ln_from l) (take (ln_at l) sent))" "ln_from l \<le> ln_at l"
    by (auto simp: link_ok_def)
  have split: "take place sent = take (ln_at l) sent @ take (place - ln_at l) (drop (ln_at l) sent)"
    using assms(2) by (metis le_add_diff_inverse take_add)
  have "subseq ms (take (place - ln_at l) (drop (ln_at l) sent))"
    using assms(3,5) by (auto simp: subseq_singleton_left in_set_conv_nth intro!: exI [of _ 0])
  with p(2) have "subseq ((past @ messages (se_events (ln_session l))) @ ms)
      (drop (ln_from l) (take (ln_at l) sent) @ take (place - ln_at l) (drop (ln_at l) sent))" by (rule list_emb_append_mono)
  moreover have "drop (ln_from l) (take place sent) = drop (ln_from l) (take (ln_at l) sent) @ take (place - ln_at l) (drop (ln_at l) sent)"
    using p(3) assms(1) unfolding split link_ok_def by simp
  ultimately have "subseq ((past @ messages (se_events (ln_session l))) @ ms) (drop (ln_from l) (take place sent))" by simp
  with p assms(2-4) show ?thesis by (auto simp: link_ok_def hear_def messages_append intro!: exI [of _ past])
qed

lemma link_ok_new: "link_ok pl sent \<lparr>ln_from = length sent, ln_at = length sent, ln_session = new_session\<rparr>"
  by (auto simp: link_ok_def new_session_def session_ok_def announced_def delivered_def mempool_new_def)

lemma link_ok_answer:
  assumes "link_ok pl sent l" "handle_request oc era_number pl to_hash deadline req (ln_session l) = Some (r, s)"
  shows "link_ok pl sent (l\<lparr>ln_session := s\<rparr>)" "link_ok pl sent (l\<lparr>ln_session := s\<lparr>se_running := False\<rparr>\<rparr>)"
proof -
  from assms(1) obtain past where p: "session_ok pl past (ln_session l)"
    "subseq (past @ messages (se_events (ln_session l))) (drop (ln_from l) (take (ln_at l) sent))" by (auto simp: link_ok_def)
  from handle_request_session [OF assms(2) p(1)] obtain used where
    "se_events (ln_session l) = used @ se_events s" "session_ok pl (past @ messages used) s" by blast
  with p(2) assms(1) show "link_ok pl sent (l\<lparr>ln_session := s\<rparr>)" "link_ok pl sent (l\<lparr>ln_session := s\<lparr>se_running := False\<rparr>\<rparr>)"
    unfolding link_ok_def by (auto simp: messages_append intro!: exI [of _ "past @ messages used"])
qed

lemma net_step_links:
  assumes "net_step su era_number to_hash w w'" "\<forall>l\<in>set (nt_links w). link_ok (su_pallas su) (nt_sent w) l"
  shows "\<forall>l\<in>set (nt_links w'). link_ok (su_pallas su) (nt_sent w') l"
proof -
  let ?ok = "link_ok (su_pallas su) (nt_sent w)"
  have upd: "\<forall>x\<in>set ((nt_links w)[j := l']). ?ok x" if "?ok l'" for j l'
    using that assms(2) set_update_subset_insert [of "nt_links w" j l'] by blast
  have nth: "?ok (nt_links w ! j)" if "j < length (nt_links w)" for j using that assms(2) by simp
  from assms(1) show ?thesis
  proof cases
    case (node_moves a m)
    with mon_step_appends [OF node_moves(2)] assms(2) link_ok_grows show ?thesis by fastforce
  next
    case subscribes
    with assms(2) link_ok_new show ?thesis by auto
  next
    case (receives j l)
    have "?ok l" using nth [OF receives(2)] receives(3) by simp
    from upd [OF link_ok_hear [OF this, of "Suc (ln_at l)" "Msg (nt_sent w ! ln_at l)"]] receives(4) show ?thesis
      by (simp add: receives(1))
  next
    case (lags j l place)
    have "?ok l" using nth [OF lags(2)] lags(3) by simp
    from upd [OF link_ok_hear [OF this, of place RecvError "[]"]] lags(4,5) show ?thesis by (simp add: lags(1))
  next
    case (waits j l)
    have ok: "?ok l" using nth [OF waits(2)] waits(3) by simp
    then have "ln_at l \<le> length (nt_sent w)" by (simp add: link_ok_def)
    with upd [OF link_ok_hear [OF ok, of "ln_at l" Elapsed "[]"]] show ?thesis by (simp add: waits(1))
  next
    case (answers j l deadline req r s)
    have "?ok l" using nth [OF answers(2)] answers(3) by simp
    then have "?ok (l\<lparr>ln_session := (case r of Inl _ \<Rightarrow> s\<lparr>se_running := False\<rparr> | Inr _ \<Rightarrow> s)\<rparr>)"
      using link_ok_answer [OF _ answers(5)] by (cases r) simp_all
    from upd [OF this] show ?thesis by (simp add: answers(1))
  next
    case (ends j l)
    have "?ok (l\<lparr>ln_session := abort_connection (ln_session l)\<rparr>)" using nth [OF ends(2)] ends(3) by (simp add: link_ok_def)
    from upd [OF this] show ?thesis by (simp add: ends(1))
  qed
qed


section \<open>Identity\<close>

text \<open>The id of whatever is stored, sent but not marked, or held by the monitor is the hash of its bytes.\<close>

definition mon_ids :: "('tx, 'out, 'rep) node_setup \<Rightarrow> mon_node \<Rightarrow> bool" where
  "mon_ids su m \<longleftrightarrow> ids_ok su (mo_node m) \<and>
     (\<forall>t e. fn_sent (mo_fine m) = Some (t, e) \<longrightarrow> named (su_pallas su) (su_hex su) (tx_id t) (tx_raw t)) \<and>
     (\<forall>t\<in>set (held (su_hex su) (mo_phase m)). named (su_pallas su) (su_hex su) (tx_id t) (tx_raw t))"

lemma marked_ids:
  assumes "ids_ok su n" "named (su_pallas su) (su_hex su) (tx_id t) (tx_raw t)" "mark_flight e t (nd_work n) = (r, w)"
    "nd_work n' = w" "nd_unit n' = nd_unit n"
  shows "ids_ok su n'"
proof -
  let ?m = "with_db (is_db w) n"
  have e: "entries (is_db w) = entries (nd_db n) \<or>
      (\<exists>sl. entries (is_db w) = map_put (t\<lparr>tx_status := InFlight, tx_slot := sl\<rparr>) (entries (nd_db n)))"
    using mark_flight_cases [OF assms(3)] by blast
  have "ids_ok su ?m"
  proof (rule ids_with_db [OF assms(1)])
    show "entries (nd_db n) i \<noteq> None \<Longrightarrow> entries (is_db w) i \<noteq> None" for i using e by (auto simp: map_put_def)
    show "named (su_pallas su) (su_hex su) i (e_raw x)" if "entries (is_db w) i = Some x" for i x
      using that e assms(1,2) unfolding ids_ok_def by (auto simp: map_put_def put_entry_def split: if_splits)
  qed
  moreover have "nd_db n' = nd_db ?m" "nd_sent n' = nd_sent ?m" "nd_unit n' = nd_unit ?m"
    using assms(4,5) mark_flight_sent [OF assms(3)] by simp_all
  ultimately show ?thesis unfolding ids_ok_def by metis
qed

lemma fine_step_ids:
  assumes "signing_keeps su" "fine_inv su f" "fine_step su a f f'" "ids_ok su (fn_node f)"
    "\<forall>t e. fn_sent f = Some (t, e) \<longrightarrow> named (su_pallas su) (su_hex su) (tx_id t) (tx_raw t)"
  shows "ids_ok su (fn_node f') \<and>
    (\<forall>t e. fn_sent f' = Some (t, e) \<longrightarrow> named (su_pallas su) (su_hex su) (tx_id t) (tx_raw t))"
  using assms(3)
proof cases
  case (coarse b n)
  have "node_inv su (fn_node f)" using assms(2) by (simp add: fine_inv_def)
  from node_step_ids [OF assms(1) this coarse(3) assms(4)] assms(5) coarse(2) show ?thesis by simp
next
  case (sent txs tx e raw w)
  let ?n = "fn_node f"
  have tx: "named (su_pallas su) (su_hex su) (tx_id tx) (tx_raw tx)" "entries (nd_db ?n) (tx_id tx) \<noteq> None"
    using assms(4) sent(4-6) unfolding ids_ok_def by (metis nth_mem)+
  then have raw: "named (su_pallas su) (su_hex su) (tx_id tx) raw"
    using judge_named [OF assms(1) tx(1), of _ _ _ raw] sent(7,8) by blast
  have w: "is_db w = nd_db ?n" "is_sent w = nd_sent ?n @ [raw]" using sent(10) by (auto simp: send_message_def sx_modify_def)
  have "ids_ok su (fn_node f')" using assms(4) raw tx(2) w sent(2) unfolding ids_ok_def by auto
  then show ?thesis using raw sent(2) by simp
next
  case (marked tx e w)
  with marked_ids [OF assms(4) _ marked(4), of "fn_node f'"] assms(5) show ?thesis by simp
next
  case (mark_retried tx e x w)
  with marked_ids [OF assms(4) _ mark_retried(4), of "fn_node f'"] assms(5) show ?thesis by simp
qed

lemma same_entries_ids: "ids_ok su n \<Longrightarrow> entries d = entries (nd_db n) \<Longrightarrow> ids_ok su (with_db d n)"
  by (rule ids_with_db) (auto simp: ids_ok_def)

lemma find_named:
  assumes "node_inv su n" "ids_ok su n" "slot_small (Some (fst (event_point ev)))" "monitor_find ev (nd_db n) = (Inr ts, d)" "t \<in> set ts"
  shows "named (su_pallas su) (su_hex su) (tx_id t) (tx_raw t)"
proof -
  have wf: "db_wf (nd_db n)" "slots_wf (nd_db n)" using assms(1) by (simp_all add: node_inv_def)
  have "entries (nd_db n) (tx_id t) = Some (entry_of_tx t)"
  proof (cases ev)
    case (RollForward p txs)
    with assms(4,5) find_status_entries(1) [of InFlight "nd_db n" ts d t] wf show ?thesis by (simp add: monitor_find_def)
  next
    case (Rollback p)
    obtain slot h where p: "p = (slot, h)" by fastforce
    have "find_to_rollback slot (nd_db n) = (Inr ts, d)" "0 \<le> sint slot"
      using assms(3,4) Rollback p by (simp_all add: monitor_find_def slot_small_def)
    note ts = find_to_rollback_ok(1) [OF this(1) wf this(2)]
    show ?thesis using map_tx_of_row_entries [OF wf(1)] assms(5) unfolding ts .
  qed
  with assms(2) have "named (su_pallas su) (su_hex su) (tx_id t) (e_raw (entry_of_tx t))" unfolding ids_ok_def by blast
  then show ?thesis by simp
qed

lemma batch_ids:
  assumes "ids_ok su n" "phase_small p" "\<forall>t\<in>set (held hex p). named (su_pallas su) (su_hex su) (tx_id t) (tx_raw t)"
    "batch_put b (entries (nd_db n)) (entries d)" "\<forall>t'\<in>set b. \<exists>t\<in>set (held hex p). turned hex diff p t t'"
  shows "ids_ok su (with_db d n)"
proof (rule ids_with_db [OF assms(1)])
  show "entries (nd_db n) i \<noteq> None \<Longrightarrow> entries d i \<noteq> None" for i
    using assms(4) unfolding batch_put_def by (cases "i \<in> tx_id ` set b") auto
  show "named (su_pallas su) (su_hex su) i (e_raw e)" if "entries d i = Some e" for i e
  proof (cases "i \<in> tx_id ` set b")
    case True
    then obtain t' where t': "t' \<in> set b" "i = tx_id t'" by blast
    with assms(5) obtain t where t: "t \<in> set (held hex p)" "turned hex diff p t t'" by blast
    from t'(2) that assms(4) t'(1) have "e_raw e = tx_raw t'" by (auto simp: batch_put_def put_entry_def)
    with turned_keeps(1,2) [OF t(2) assms(2)] assms(3) t(1) t'(2) show ?thesis by simp
  next
    case False
    with that assms(1,4) show ?thesis unfolding batch_put_def ids_ok_def by metis
  qed
qed

lemma mon_step_ids:
  assumes "signing_keeps su" "mon_inv su m" "mon_step su a m m'" "mon_ids su m"
  shows "mon_ids su m'"
  using assms(3)
proof cases
  case (beside b f)
  have "fine_inv su (mo_fine m)" using assms(2) by (simp add: mon_inv_def)
  from fine_step_ids [OF assms(1) this beside(3)] assms(4) beside(2) show ?thesis by (simp add: mon_ids_def)
next
  case (looks ev r d)
  have inv: "node_inv su (mo_node m)" using assms(2) by (simp add: mon_inv_def fine_inv_def)
  have ids: "ids_ok su (mo_node m)" using assms(4) by (simp add: mon_ids_def)
  have "ids_ok su (with_db d (mo_node m))"
    using same_entries_ids [OF ids] find_same_tables [OF looks(5), THEN same_tables_predicates(3)] .
  moreover have "named (su_pallas su) (su_hex su) (tx_id t) (tx_raw t)"
    if "t \<in> set (held (su_hex su) (case r of Inl _ \<Rightarrow> Resting | Inr ts \<Rightarrow> Looked ev ts))" for t
    using that find_named [OF inv ids looks(4)] looks(5) by (cases r) auto
  ultimately show ?thesis using assms(4) looks(2) by (simp add: mon_ids_def)
next
  case (turns r d)
  let ?p = "mo_phase m" and ?p' = "case r of Inl _ \<Rightarrow> Resting | Inr p \<Rightarrow> p"
  have p: "phase_ok (su_hex su) (mo_node m) ?p" "phase_small ?p" "db_wf (mo_db m)" "slots_wf (mo_db m)"
    using assms(2) by (simp_all add: mon_inv_def fine_inv_def node_inv_def phase_ok_def)
  have ids: "ids_ok su (mo_node m)" "\<forall>t\<in>set (held (su_hex su) ?p). named (su_pallas su) (su_hex su) (tx_id t) (tx_raw t)"
    using assms(4) by (simp_all add: mon_ids_def)
  note c = turn_cases [OF p(1) turns(4) p(3,4)]
  have "ids_ok su (with_db d (mo_node m))" using c same_entries_ids [OF ids(1)] batch_ids [OF ids(1) p(2) ids(2), of _ d "su_diff su"] by blast
  moreover have "set (held (su_hex su) ?p') \<subseteq> set (held (su_hex su) ?p)"
  proof -
    have "set (held (su_hex su) (Batched ev ts)) \<subseteq> set ts" for ev ts by (cases ev) auto
    from subsetD [OF this] show ?thesis using c by (auto split: sum.splits)
  qed
  ultimately show ?thesis using assms(4) ids(2) turns(2) by (auto simp: mon_ids_def)
qed

section \<open>Properties\<close>

definition net_inv :: "('tx, 'out, 'rep) node_setup \<Rightarrow> net \<Rightarrow> bool" where
  "net_inv su w \<longleftrightarrow> mon_inv su (nt_node w) \<and> (signing_keeps su \<longrightarrow> mon_ids su (nt_node w)) \<and>
     (\<forall>l\<in>set (nt_links w). link_ok (su_pallas su) (nt_sent w) l)"

lemma net_step_node: "net_step su era_number to_hash w w' \<Longrightarrow> nt_node w' = nt_node w \<or> (\<exists>a. mon_step su a (nt_node w) (nt_node w'))"
  by (erule net_stepE) auto

interpretation net: inductive_invariant "net_init su" "net_step su era_number to_hash" "net_inv su" for su era_number to_hash
proof
  show "net_inv su w" if "net_init su w" for w
    using that cut.inv_init [of su "nt_node w"]
    by (auto simp: net_init_def net_inv_def mon_ids_def mon_init_def fine_init_def node_init_def ids_ok_def)
  show "net_inv su w'" if "net_step su era_number to_hash w w'" "net_inv su w" for w w'
    using net_step_node [OF that(1)] net_step_links [OF that(1)] that(2) mon_step_inv mon_step_ids unfolding net_inv_def by metis
qed

lemma net_reachable_inv: "net_reachable su era_number to_hash w \<Longrightarrow> net_inv su w"
  unfolding net_reachable_def by (rule net.reach_inv)

text \<open>C7. What the network learns from the node.  However the node and its connections run, the ids announced to a remote side
  are, in their order and once for each broadcast at most, the hashes and sizes of messages the node broadcast after the
  connection subscribed, and every body it was given is the bytes of one of them.  Every message that was broadcast has passed
  validation and evaluation and decodes to a transaction that is stored under its hash: nothing but what clients submitted
  leaves the node.\<close>

theorem peers_get_the_broadcasts:
  assumes "net_reachable su era_number to_hash w" "signing_keeps su" "l \<in> set (nt_links w)"
  shows "subseq (announced (ln_session l)) (map (id_size (su_pallas su)) (drop (ln_from l) (nt_sent w))) \<and>
    set (delivered (ln_session l)) \<subseteq> set (drop (ln_from l) (nt_sent w)) \<and>
    (\<forall>raw\<in>set (nt_sent w). checked (su_pallas su) (su_env su) raw \<and>
       (\<exists>metx e. pl_decode (su_pallas su) raw = Some metx \<and> hash_of (su_pallas su) raw = pl_hash (su_pallas su) metx \<and>
          entries (mo_db (nt_node w)) (su_hex su (pl_hash (su_pallas su) metx)) = Some e))"
proof -
  have inv: "net_inv su w" using net_reachable_inv [OF assms(1)] .
  then obtain past where p: "session_ok (su_pallas su) past (ln_session l)"
    "subseq (past @ messages (se_events (ln_session l))) (drop (ln_from l) (take (ln_at l) (nt_sent w)))"
    using assms(3) by (auto simp: net_inv_def link_ok_def)
  have "subseq (drop (ln_from l) (take (ln_at l) (nt_sent w)) @ []) (drop (ln_from l) (take (ln_at l) (nt_sent w)) @
      drop (ln_from l - length (take (ln_at l) (nt_sent w))) (drop (ln_at l) (nt_sent w)))"
    by (intro list_emb_append_mono) simp_all
  then have "subseq (drop (ln_from l) (take (ln_at l) (nt_sent w))) (drop (ln_from l) (nt_sent w))"
    by (metis append_Nil2 append_take_drop_id drop_append)
  with p(2) have past: "subseq past (drop (ln_from l) (nt_sent w))"
    by (meson subseq_order.order_trans subseq_rev_drop_many subseq_order.order_refl)
  then have "set past \<subseteq> set (drop (ln_from l) (nt_sent w))" using list_emb_set by force
  moreover have "subseq (announced (ln_session l)) (map (id_size (su_pallas su)) (drop (ln_from l) (nt_sent w)))"
    using p(1) subseq_map [OF past] subseq_order.order_trans unfolding session_ok_def by blast
  moreover have "set (delivered (ln_session l)) \<subseteq> set past" using p(1) by (simp add: session_ok_def)
  moreover have "\<forall>m\<in>set (nt_sent w). checked (su_pallas su) (su_env su) m"
    using inv by (simp add: net_inv_def mon_inv_def fine_inv_def node_inv_def)
  moreover have "ids_ok su (mo_node (nt_node w))" using inv assms(2) by (simp add: net_inv_def mon_ids_def)
  then have "\<forall>raw\<in>set (nt_sent w). \<exists>metx e. pl_decode (su_pallas su) raw = Some metx \<and> hash_of (su_pallas su) raw = pl_hash (su_pallas su) metx \<and>
      entries (mo_db (nt_node w)) (su_hex su (pl_hash (su_pallas su) metx)) = Some e"
    by (fastforce simp: ids_ok_def named_def hash_of_def)
  ultimately show ?thesis by blast
qed


lemma mon_runs_in_net:
  assumes "mon_reachable su m"
  shows "net_reachable su era_number to_hash \<lparr>nt_node = m, nt_links = []\<rparr>"
  using assms unfolding mon_reachable_def net_reachable_def
proof (induction rule: reach.induct)
  case (reach_init m)
  then show ?case by (intro reach.reach_init) (simp add: net_init_def)
next
  case (reach_step m m')
  then obtain a where "mon_step su a m m'" by blast
  with node_moves [of su a "\<lparr>nt_node = m, nt_links = []\<rparr>" m' era_number to_hash]
  have "net_step su era_number to_hash \<lparr>nt_node = m, nt_links = []\<rparr> \<lparr>nt_node = m', nt_links = []\<rparr>" by simp
  with reach_step.IH show ?case by (rule reach.reach_step)
qed

text \<open>A connection subscribes, the first transaction is sent, and the remote side asks for one id and then for its body.\<close>

lemma demo_dialog:
  "\<exists>s1 s2. handle_request True (\<lambda>_. 7) demo_pallas Some 0 (TxIds 0 1) (new_session\<lparr>se_events := [Msg [1]]\<rparr>) = Some (Inr (), s1) \<and>
     se_running s1 \<and> handle_request True (\<lambda>_. 7) demo_pallas Some 0 (Txs [(6, [1])]) s1 = Some (Inr (), s2) \<and>
     announced s2 = [([1], 1)] \<and> delivered s2 = [[1]]"
proof -
  let ?r1 = "handle_request True (\<lambda>_. 7) demo_pallas Some 0 (TxIds 0 1) (new_session\<lparr>se_events := [Msg [1]]\<rparr>)"
  let ?r2 = "handle_request True (\<lambda>_. 7) demo_pallas Some 0 (Txs [(6, [1])]) (snd (the ?r1))"
  have "map_option fst ?r1 = Some (Inr ())" "se_running (snd (the ?r1))" "map_option fst ?r2 = Some (Inr ())"
    "announced (snd (the ?r2)) = [([1], 1)]" "delivered (snd (the ?r2)) = [[1]]" by code_simp+
  then show ?thesis by (intro exI [of _ "snd (the ?r1)"] exI [of _ "snd (the ?r2)"]) (auto simp: prod_eq_iff)
qed

theorem peers_get_the_broadcasts_witness:
  "\<exists>w l e. net_reachable demo_setup (\<lambda>_. 7) Some w \<and> l \<in> set (nt_links w) \<and> announced (ln_session l) = [([1], 1)] \<and>
     delivered (ln_session l) = [[1]] \<and> [1] \<in> set (nt_sent w) \<and> entries (mo_db (nt_node w)) ''x'' = Some e"
proof -
  let ?step = "net_step demo_setup (\<lambda>_. 7) Some" and ?R = "net_reachable demo_setup (\<lambda>_. 7) Some"
  have go: "?R w'" if "?R w" "?step w w'" for w w' using that unfolding net_reachable_def by (rule reach_step)
  let ?m0 = "\<lparr>mo_fine = demo_fine, mo_phase = Resting\<rparr>" and ?n0 = "demo_node demo_stored (Some [tx_x, tx_xx])"
  obtain n where n: "node_step demo_setup Worked ?n0 n" "nd_sent n = [[1]]"
    using accepted_step [where n = ?n0 and su = demo_setup and tx = tx_x and raw = "[1]" and tip = "(100, [])",
        OF demo_node_facts(1) _ _ demo_node_facts(6)]
      demo_verdicts(1) demo_answers_facts(1,2) demo_node_facts(2,4) by (auto simp: demo_node_def)
  define m where "m = ?m0\<lparr>mo_fine := (mo_fine ?m0)\<lparr>fn_node := n\<rparr>\<rparr>"
  have m: "mon_step demo_setup (Beside (Coarse Worked)) ?m0 m" "nd_sent (mo_node m) = [[1]]"
    unfolding m_def by (intro coarse_beside) (simp_all add: demo_fine_def n)
  define net where "net m l = \<lparr>nt_node = m, nt_links = [l]\<rparr>" for m l
  define link where "link k s = \<lparr>ln_from = 0, ln_at = k, ln_session = s\<rparr>" for k s
  obtain s1 s2 where s: "handle_request True (\<lambda>_. 7) demo_pallas Some 0 (TxIds 0 1) (new_session\<lparr>se_events := [Msg [1]]\<rparr>) = Some (Inr (), s1)"
    "se_running s1" "handle_request True (\<lambda>_. 7) demo_pallas Some 0 (Txs [(6, [1])]) s1 = Some (Inr (), s2)"
    "announced s2 = [([1], 1)]" "delivered s2 = [[1]]" using demo_dialog by blast
  have su: "su_checks demo_setup" "su_pallas demo_setup = demo_pallas" by (simp_all add: demo_setup_def)
  have r0: "?R \<lparr>nt_node = ?m0, nt_links = []\<rparr>" by (rule mon_runs_in_net [OF demo_cut_reachable])
  have r1: "?step \<lparr>nt_node = ?m0, nt_links = []\<rparr> (net ?m0 (link 0 new_session))"
    using subscribes [of demo_setup "\<lambda>_. 7" Some "\<lparr>nt_node = ?m0, nt_links = []\<rparr>"]
    by (simp add: net_def link_def demo_fine_def demo_node_def)
  have r2: "?step (net ?m0 (link 0 new_session)) (net m (link 0 new_session))"
    using node_moves [of demo_setup _ "net ?m0 (link 0 new_session)" m "\<lambda>_. 7" Some] m(1) by (simp add: net_def)
  have r3: "?step (net m (link 0 new_session)) (net m (link 1 (new_session\<lparr>se_events := [Msg [1]]\<rparr>)))"
    using receives [of 0 "net m (link 0 new_session)" "link 0 new_session" demo_setup "\<lambda>_. 7" Some] m(2)
    by (simp add: net_def link_def hear_def new_session_def)
  have r4: "?step (net m (link 1 (new_session\<lparr>se_events := [Msg [1]]\<rparr>))) (net m (link 1 s1))"
    using answers [of 0 "net m (link 1 (new_session\<lparr>se_events := [Msg [1]]\<rparr>))" _ demo_setup "\<lambda>_. 7" Some 0 "TxIds 0 1" "Inr ()" s1] s(1) su
    by (simp add: net_def link_def new_session_def)
  have r5: "?step (net m (link 1 s1)) (net m (link 1 s2))"
    using answers [of 0 "net m (link 1 s1)" _ demo_setup "\<lambda>_. 7" Some 0 "Txs [(6, [1])]" "Inr ()" s2] s(2,3) su
    by (simp add: net_def link_def)
  have r: "?R (net m (link 1 s2))" by (rule go [OF go [OF go [OF go [OF go [OF r0 r1] r2] r3] r4] r5])
  have "link 1 s2 \<in> set (nt_links (net m (link 1 s2)))" by (simp add: net_def)
  from peers_get_the_broadcasts [OF r demo_signing_keeps this] m(2) have
    "\<exists>metx e. pl_decode demo_pallas [1] = Some metx \<and> entries (mo_db m) (demo_hex (pl_hash demo_pallas metx)) = Some e"
    by (auto simp: net_def demo_setup_def)
  moreover have "demo_hex (pl_hash demo_pallas metx) = ''x''" if "pl_decode demo_pallas [1] = Some metx" for metx
    using that by (auto simp: demo_pallas_def demo_hex_def)
  ultimately obtain e where "entries (mo_db m) ''x'' = Some e" by auto
  with r s(4,5) m(2) show ?thesis
    by (intro exI [of _ "net m (link 1 s2)"] exI [of _ "link 1 s2"] exI [of _ e]) (simp add: net_def, simp add: link_def)
qed

end
