(* ===== verification/Example_Client.thy ===== *)
theory Example_Client
  imports Submit_Server
begin

text \<open>
  The example client, \<^verbatim>\<open>examples/client/src/main.rs\<close>: it connects to a node on the same machine, submits one
  transaction without naming a queue and drops the answer.  The URI parser, the transport, the hexadecimal decoder
  and the generated client stub are parameters.
\<close>

section \<open>The program\<close>

definition client_uri :: string where
  "client_uri = ''http://[::1]:50052''"

definition client_tx :: string where
  "client_tx =
     ''84a300d90102818258206ddb32f9ffe54e4eb6f4df9887dbec5f42615998b4bb401f71fed439069f219a00018182581d606e'' @
     ''2e6d54e1a27ad640786852e20c22fb982ebcee4773a2926aae4b391b0000000129a4c25b021a000292b1a100d90102818258'' @
     ''20524e506f6a872c4ee3ee6d4b9913670c4b441860b3aa5438de92a676e20f527b5840ceb8b8a24cb77ab981ffd5706a77e8'' @
     ''ff1a579ecbc27359def46ed5b157418d7643f3b255ae1da4c223690f038f644181e16266d4961c1d4c94d1bf36cdd6de03f5'' @
     ''f6''"

datatype 'st client_error = InvalidUri | TransportError | FromHexError | Refused 'st

definition client_main ::
  "(string \<Rightarrow> 'uri option) \<Rightarrow> ('uri \<Rightarrow> 'chan option) \<Rightarrow> (string \<Rightarrow> bytes option) \<Rightarrow>
   ('chan \<Rightarrow> submit_item list \<Rightarrow> ('s, 'st, bytes list) sx) \<Rightarrow> ('s, 'st client_error fault, unit) sx" where
  "client_main parse connect decode rpc =
     sx_bind (sx_lift (ok_or InvalidUri (parse client_uri))) (\<lambda>uri.
     sx_bind (sx_lift (ok_or TransportError (connect uri))) (\<lambda>channel.
     sx_bind (sx_lift (ok_or FromHexError (decode client_tx))) (\<lambda>bytes.
     sx_bind (sx_map_err (\<lambda>st. Err (Refused st))
       (rpc channel [\<lparr>it_raw = bytes, it_queue = None, it_lock_token = None\<rparr>])) (\<lambda>_.
     sx_return ()))))"

lemma client_main_ok:
  assumes "client_main parse connect decode rpc s = (Inr (), s')"
  obtains channel raw refs where "decode client_tx = Some raw"
    "rpc channel [\<lparr>it_raw = raw, it_queue = None, it_lock_token = None\<rparr>] s = (Inr refs, s')"
  using assms
  by (auto simp: client_main_def sx_defs sx_map_err_def ok_or_def split: option.splits prod.splits sum.splits)

lemma client_main_refused:
  assumes "client_main parse connect decode rpc s = (Inl f, s')" "\<And>st. f \<noteq> Err (Refused st)"
  shows "s' = s"
  using assms
  by (auto simp: client_main_def sx_defs sx_map_err_def ok_or_def split: option.splits prod.splits sum.splits)

section \<open>What the server does with it\<close>

lemma submit_default:
  assumes "submit_tx pl hex queues chained gone obs [\<lparr>it_raw = raw, it_queue = None, it_lock_token = tok\<rparr>] s = (Inr refs, s')"
  obtains metx where "pl_decode pl raw = Some metx" "sv_unlocks s' = sv_unlocks s"
    "passes_checks pl (obs 0) metx = Inr True"
    "tx_tbl (sv_db s') = tx_tbl (sv_db s) @
       [row_of_tx (Transaction_new (hex (pl_hash pl metx)) raw (ob_created (obs 0)) (ob_updated (obs 0)))]"
    "refs = [pl_hash pl metx]"
  | metx where "pl_decode pl raw = Some metx" "sv_unlocks s' = sv_unlocks s"
    "passes_checks pl (obs 0) metx = Inr False" "tx_tbl (sv_db s') = tx_tbl (sv_db s)" "refs = []"
proof -
  from assms obtain adm where
    adm: "admit_all pl hex queues chained obs 0 [\<lparr>it_raw = raw, it_queue = None, it_lock_token = tok\<rparr>] = Inr adm"
    "refs = map (fst \<circ> snd) adm" "create (map fst adm) (sv_db s) = (Inr (), sv_db s')"
    "sv_unlocks s' = sv_unlocks s @ chained_queues adm" by (rule submit_tx_Inr)
  from adm(1) obtain metx b where m: "pl_decode pl raw = Some metx" "passes_checks pl (obs 0) metx = Inr b"
    "adm = (if b then [(Transaction_new (hex (pl_hash pl metx)) raw (ob_created (obs 0)) (ob_updated (obs 0)), pl_hash pl metx, None)]
      else [])"
    by (auto simp: admit_item_def should_validate_def Let_def ok_or_def split: option.splits if_splits)
  with adm(2,4) create_ok(1) [OF adm(3)] that show thesis by (cases b) (auto simp: chained_queues_def List.map_filter_simps)
qed

section \<open>Properties\<close>

text \<open>What success of the client means.  When the answers of the stub are those of the node, and the program ends
  without an error, its bytes are a transaction and no lock was given back; but only if the checks accepted it is
  it stored, pending and in the default queue.  If they did not, the database is as it was and the client, which
  does not look at the references, still reports success.  An error before the call leaves the node alone.\<close>

theorem client_success:
  assumes "client_main parse connect decode rpc s = (res, s')"
    "\<And>c items s refs s'. rpc c items s = (Inr refs, s') \<Longrightarrow> submit_tx pl hex queues chained gone obs items s = (Inr refs, s')"
  shows "case res of
      Inr _ \<Rightarrow> \<exists>raw metx. decode client_tx = Some raw \<and> pl_decode pl raw = Some metx \<and> sv_unlocks s' = sv_unlocks s \<and>
        (\<exists>passed. passes_checks pl (obs 0) metx = Inr passed \<and>
           tx_tbl (sv_db s') = tx_tbl (sv_db s) @
             (if passed then [row_of_tx (Transaction_new (hex (pl_hash pl metx)) raw (ob_created (obs 0)) (ob_updated (obs 0)))]
              else []))
    | Inl (Err (Refused st)) \<Rightarrow> True
    | Inl _ \<Rightarrow> s' = s"
proof (cases res)
  case (Inr u)
  with assms(1) have "client_main parse connect decode rpc s = (Inr (), s')" by simp
  then obtain channel raw refs where c: "decode client_tx = Some raw"
    "rpc channel [\<lparr>it_raw = raw, it_queue = None, it_lock_token = None\<rparr>] s = (Inr refs, s')" by (rule client_main_ok)
  from assms(2) [OF c(2)] show ?thesis
  proof (cases rule: submit_default)
    case (1 metx)
    then show ?thesis using Inr c(1) by (simp add: exI [of _ True])
  next
    case (2 metx)
    then show ?thesis using Inr c(1) by (simp add: exI [of _ False])
  qed
next
  case (Inl f)
  with assms(1) client_main_refused [of parse connect decode rpc s f s'] show ?thesis
    by (auto split: fault.splits client_error.splits)
qed

theorem client_success_witness:
  "\<exists>s'. client_main (\<lambda>_. Some ()) (\<lambda>_. Some ()) (\<lambda>_. Some [1])
       (\<lambda>_. submit_tx demo_pallas demo_hex [] (\<lambda>_. False) (\<lambda>_. False) (\<lambda>_. demo_obs)) demo_server = (Inr (), s') \<and>
     tx_tbl (sv_db s') = [row_of_tx (Transaction_new ''x'' [1] 1 1)]"
proof -
  let ?rpc = "\<lambda>_ :: unit. submit_tx demo_pallas demo_hex [] (\<lambda>_. False) (\<lambda>_. False) (\<lambda>_. demo_obs)"
  let ?t = "Transaction_new ''x'' [1] 1 1"
  have p: "passes_checks demo_pallas demo_obs 1 = Inr True" by (rule demo_passes) simp_all
  have d: "pl_decode demo_pallas [1] = Some 1" "pl_hash demo_pallas 1 = [1]" "demo_hex [1] = ''x''"
    "ob_created demo_obs = 1" "ob_updated demo_obs = 1" by (simp_all add: demo_pallas_def demo_hex_def demo_obs_def)
  have "\<exists>d'. create [?t] (migrate [] []) = (Inr (), d') \<and> no_faults d'"
    by (rule create_succeeds) (auto simp: migrate_def no_faults_def row_ids_def Transaction_new_def)
  then obtain d' where "create [?t] (migrate [] []) = (Inr (), d')" by blast
  with p d have "fst (client_main (\<lambda>_. Some ()) (\<lambda>_. Some ()) (\<lambda>_. Some [1]) ?rpc demo_server) = Inr ()"
    by (simp add: client_main_def submit_tx_def sx_defs ok_or_def sx_map_err_def admit_item_def should_validate_def Let_def
        on_server_db_def demo_server_def chained_queues_def List.map_filter_simps del: res_bind_eq_Inr)
  then obtain s' where s': "client_main (\<lambda>_. Some ()) (\<lambda>_. Some ()) (\<lambda>_. Some [1]) ?rpc demo_server = (Inr (), s')"
    by (metis prod.collapse)
  have "tx_tbl (sv_db s') = tx_tbl (sv_db demo_server) @ [row_of_tx ?t]"
    using client_success [OF s', of demo_pallas demo_hex "[]" "\<lambda>_. False" "\<lambda>_. False" "\<lambda>_. demo_obs"] p d by (simp only: sum.case option.inject simp_thms, fastforce)
  with s' show ?thesis by (simp add: demo_server_def migrate_def)
qed

end
