(* ===== verification/Utxorpc_Server.thy ===== *)
theory Utxorpc_Server
  imports Submit_Server
begin

text \<open>
  The submit service of the UTxO RPC specification, \<^verbatim>\<open>src/server/utxorpc.rs\<close>.  The file is in the repository but
  \<^verbatim>\<open>src/server/mod.rs\<close> does not declare it, so no node serves it; it is the older form of the service: every
  transaction that decodes is stored in the default queue, without validation, evaluation, queues or locks.  Three of
  its five methods are \<open>todo!()\<close>.
\<close>

section \<open>The service\<close>

text \<open>A transaction of a request: \<open>r#type\<close> is optional, and entries without it are skipped.\<close>

type_synonym any_chain_tx = "bytes option"

text \<open>The loop over the entries that are there; \<open>instant k\<close> are the two readings of the clock for entry \<open>k\<close>.\<close>

fun decode_entries ::
  "('tx, 'out, 'rep) pallas \<Rightarrow> (bytes \<Rightarrow> string) \<Rightarrow> (nat \<Rightarrow> time \<times> time) \<Rightarrow> nat \<Rightarrow> bytes list \<Rightarrow>
   status + (Transaction \<times> bytes) list" where
  "decode_entries pl hex instant idx [] = Inr []"
| "decode_entries pl hex instant idx (raw # rest) =
     (case pl_decode pl raw of
        None \<Rightarrow> Inl (FailedPrecondition idx)
      | Some tx \<Rightarrow>
          let hash = pl_hash pl tx in
          res_bind (decode_entries pl hex instant (Suc idx) rest) (\<lambda>txs.
          Inr ((Transaction_new (hex hash) raw (fst (instant idx)) (snd (instant idx)), hash) # txs)))"

definition utxorpc_submit_tx ::
  "('tx, 'out, 'rep) pallas \<Rightarrow> (bytes \<Rightarrow> string) \<Rightarrow> (nat \<Rightarrow> time \<times> time) \<Rightarrow> any_chain_tx list \<Rightarrow>
   (db, status fault, bytes list) sx" where
  "utxorpc_submit_tx pl hex instant txs =
     sx_bind (sx_map_err Err (sx_lift (decode_entries pl hex instant 0 (List.map_filter id txs)))) (\<lambda>decoded.
     sx_bind (sx_map_err (\<lambda>_. Err InternalStatus) (create (map fst decoded))) (\<lambda>_.
     sx_return (map snd decoded)))"

text \<open>The methods without a body: \<open>todo!()\<close> panics, and \<open>read_mempool\<close> answers with an error.\<close>

definition wait_for_tx :: "(status, unit) outcome" where
  "wait_for_tx = Inl Panic"

definition read_mempool :: "(status, unit) outcome" where
  "read_mempool = Inl (Err Unimplemented)"

definition watch_mempool :: "(status, unit) outcome" where
  "watch_mempool = Inl Panic"

definition eval_tx :: "(status, unit) outcome" where
  "eval_tx = Inl Panic"

section \<open>Compared with the service that is running\<close>

text \<open>The same request for \<open>src/server/submit.rs\<close>: no queue and no token.\<close>

definition plain_item :: "bytes \<Rightarrow> submit_item" where
  "plain_item raw = \<lparr>it_raw = raw, it_queue = None, it_lock_token = None\<rparr>"

lemma plain_item_sel [simp]:
  "it_raw (plain_item raw) = raw" "it_queue (plain_item raw) = None"
  by (simp_all add: plain_item_def)

definition same_clock :: "(nat \<Rightarrow> time \<times> time) \<Rightarrow> (nat \<Rightarrow> item_obs) \<Rightarrow> bool" where
  "same_clock instant obs \<longleftrightarrow> (\<forall>k. instant k = (ob_created (obs k), ob_updated (obs k)))"

lemma admit_plain:
  assumes "same_clock instant obs"
    "\<And>k metx. pl_decode pl (raws ! k) = Some metx \<Longrightarrow> k < length raws \<Longrightarrow> passes_checks pl (obs (idx + k)) metx = Inr True"
  shows "admit_all pl hex queues chained obs idx (map plain_item raws) =
    (case decode_entries pl hex instant idx raws of
       Inl e \<Rightarrow> Inl (Err e)
     | Inr txs \<Rightarrow> Inr (map (\<lambda>(t, h). (t, h, None)) txs))"
  using assms(2)
proof (induction raws arbitrary: idx)
  case (Cons raw raws)
  have rest: "admit_all pl hex queues chained obs (Suc idx) (map plain_item raws) =
    (case decode_entries pl hex instant (Suc idx) raws of
       Inl e \<Rightarrow> Inl (Err e)
     | Inr txs \<Rightarrow> Inr (map (\<lambda>(t, h). (t, h, None)) txs))"
    using Cons.prems [of "Suc k" for k] by (intro Cons.IH) auto
  show ?case
  proof (cases "pl_decode pl raw")
    case None
    then show ?thesis by (simp add: admit_item_def)
  next
    case (Some metx)
    with Cons.prems [of 0] have p: "passes_checks pl (obs idx) metx = Inr True" by simp
    have "instant idx = (ob_created (obs idx), ob_updated (obs idx))" using assms(1) by (simp add: same_clock_def)
    with Some p rest show ?thesis
      by (cases "decode_entries pl hex instant (Suc idx) raws")
        (simp_all add: admit_item_def should_validate_def Let_def)
  qed
qed simp

lemma map_filter_Some: "List.map_filter id (map Some xs) = xs"
  by (induction xs) (simp_all add: List.map_filter_simps)

text \<open>C32. The two services agree on valid transactions.  When every transaction of a request that decodes also
  passes the ledger rules, the service of the UTxO RPC specification answers and stores exactly what the running
  service does with the same transactions and no queue: the same references, the same rows, the same errors, and no
  lock is given back.\<close>

theorem utxorpc_equivalent:
  assumes "same_clock instant obs"
    "\<forall>k metx. k < length raws \<and> pl_decode pl (raws ! k) = Some metx \<longrightarrow> passes_checks pl (obs k) metx = Inr True"
  shows "submit_tx pl hex queues chained gone obs (map plain_item raws) s =
    on_server_db (utxorpc_submit_tx pl hex instant (map Some raws)) s"
proof (cases "decode_entries pl hex instant 0 raws")
  case (Inl e)
  with admit_plain [OF assms(1), of pl raws 0 hex queues chained] assms(2) show ?thesis
    by (simp add: submit_tx_def utxorpc_submit_tx_def sx_defs on_server_db_def map_filter_Some)
next
  case (Inr txs)
  define adm :: "(Transaction \<times> bytes \<times> string option) list" where "adm = map (\<lambda>(t, h). (t, h, None)) txs"
  have a: "admit_all pl hex queues chained obs 0 (map plain_item raws) = Inr adm"
    using admit_plain [OF assms(1), of pl raws 0 hex queues chained] assms(2) Inr by (simp add: adm_def)
  have adm: "chained_queues adm = []" "map fst adm = map fst txs" "map (fst \<circ> snd) adm = map snd txs"
    unfolding adm_def by (induction txs) (auto simp: chained_queues_def List.map_filter_simps)
  obtain r d where c: "create (map fst txs) (sv_db s) = (r, d)" by fastforce
  then show ?thesis
    using Inr a
    by (cases r) (simp_all add: submit_tx_def utxorpc_submit_tx_def sx_defs on_server_db_def map_filter_Some adm)
qed

theorem utxorpc_equivalent_witness:
  "submit_tx demo_pallas demo_hex [] (\<lambda>_. False) (\<lambda>_. False) (\<lambda>_. demo_obs) (map plain_item [[1], [1, 2]]) demo_server =
   on_server_db (utxorpc_submit_tx demo_pallas demo_hex (\<lambda>_. (1, 1)) (map Some [[1], [1, 2]])) demo_server"
proof (rule utxorpc_equivalent)
  show "same_clock (\<lambda>_. (1, 1)) (\<lambda>_. demo_obs)" by (simp add: same_clock_def demo_obs_def)
  show "\<forall>k metx. k < length [[1], [1, 2]] \<and> pl_decode demo_pallas ([[1], [1, 2]] ! k) = Some metx \<longrightarrow>
      passes_checks demo_pallas demo_obs metx = Inr True"
    by (auto simp: less_Suc_eq demo_pallas_def intro!: demo_passes [unfolded demo_pallas_def])
qed

text \<open>
  On transactions that the ledger rules refuse they differ: the running service leaves them out, this one stores them
  as pending.
\<close>

lemma utxorpc_stores_refused:
  assumes "pl_decode pl raw = Some metx" "no_faults d" "hex (pl_hash pl metx) \<notin> row_ids d"
  shows "\<exists>d'. utxorpc_submit_tx pl hex instant [Some raw] d = (Inr [pl_hash pl metx], d') \<and>
    entries d' (hex (pl_hash pl metx)) =
      Some (new_entry (Transaction_new (hex (pl_hash pl metx)) raw (fst (instant 0)) (snd (instant 0))))"
proof -
  let ?t = "Transaction_new (hex (pl_hash pl metx)) raw (fst (instant 0)) (snd (instant 0))"
  obtain d' where c: "create [?t] d = (Inr (), d')"
    using create_succeeds [OF assms(2), of "[?t]"] assms(3) by (auto simp: Transaction_new_def)
  then have "entries d' = map_add_new ?t (entries d)" using create_entries [OF c] by simp
  with c assms(1) show ?thesis
    by (simp add: utxorpc_submit_tx_def sx_defs List.map_filter_simps map_add_new_def Transaction_new_def Let_def)
qed

end
