(* ===== verification/Priority_Shares.thy ===== *)
theory Priority_Shares
  imports Priority_Queue
begin

text \<open>
  How many transactions each queue contributes to a batch of \<open>Priority::next\<close>, where the answer does not
  depend on the iteration order of the maps: when every waiting queue can fill its quota, and when no
  waiting queue holds more than its quota.  In between, what the queues leave over goes to whichever
  queues happen to be visited later.
\<close>

section \<open>The quota of a waiting queue\<close>

definition share_of :: "queue_set \<Rightarrow> TransactionStatus \<Rightarrow> u16 \<Rightarrow> db \<Rightarrow> string \<Rightarrow> u16" where
  "share_of queues st cap d q =
     quota_of (F32 (of_nat (weight_sum (backlog queues st d)))) cap (weight_of queues q)"

lemma shares_are_quotas:
  assumes "state_of st d = (Inr state, d1)" "iter_ok iter_w" "iter_ok iter_q"
    "weight_sum (backlog queues st d) < 2 ^ 24"
  defines "sq \<equiv> iter_w (map (\<lambda>s. (ts_queue s, weight_of queues (ts_queue s))) state)"
  shows "set (iter_q (quota sq cap)) = (\<lambda>q. (q, share_of queues st cap d q)) ` set (queues_with st d)"
    "distinct (map fst (iter_q (quota sq cap)))"
proof -
  have "map (\<lambda>s. (ts_queue s, weight_of queues (ts_queue s))) state = backlog queues st d"
    unfolding backlog_def state_of_ok(2) [OF assms(1), symmetric] by simp
  then have sq: "mset sq = mset (backlog queues st d)"
    using iter_okD(1) [OF assms(2)] by (simp add: sq_def)
  have ws: "weight_sum sq = weight_sum (backlog queues st d)" by (rule weight_sum_mset [OF sq])
  then have tw: "total_weight sq = F32 (of_nat (weight_sum (backlog queues st d)))"
    using total_weight_exact [of sq] assms(4) by simp
  have "set (iter_q (quota sq cap)) = set (quota sq cap)" using iter_okD(2) [OF assms(3)] .
  also have "\<dots> = (\<lambda>(q, w). (q, quota_of (total_weight sq) cap w)) ` set sq"
    using mset_eq_setD [OF mset_quota [of sq cap]] by simp
  finally show "set (iter_q (quota sq cap)) = (\<lambda>q. (q, share_of queues st cap d q)) ` set (queues_with st d)"
    by (auto simp: mset_eq_setD [OF sq] backlog_def tw share_of_def)
  have "mset (map fst (iter_q (quota sq cap))) = mset (remdups (queues_with st d))"
    unfolding sq_def by (rule quota_keys [OF assms(1-3)])
  then show "distinct (map fst (iter_q (quota sq cap)))" by (metis distinct_remdups mset_eq_imp_distinct_iff)
qed

section \<open>Queues that fill their quota\<close>

lemma spread_saturated:
  assumes "\<And>q n. (q, n) \<in> set qs \<Longrightarrow> q \<in> ts_queue ` set state \<and> unat n \<le> state_count state q"
  shows "spread oc state qs 0 = Inr qs"
  using assms
proof (induction qs)
  case (Cons qn qs)
  obtain q n where qn: "qn = (q, n)" by fastforce
  with Cons.prems [of q n] obtain s where
    s: "find (\<lambda>s. ts_queue s = q) state = Some s" "unat n \<le> unat (ts_count s)"
    using find_queue [of q state] by (metis list.set_intros(1))
  have "unat (ucast (min (ts_count s) (ucast n)) :: u16) = unat n"
    using s(2) unat_used_quota [of "ts_count s" n] by simp
  then have "ucast (min (ts_count s) (ucast n)) = n" by (rule word_unat_eq_iff [THEN iffD2])
  moreover have "spread oc state qs 0 = Inr qs"
    using Cons.prems by (intro Cons.IH) (meson list.set_intros(2))
  ultimately show ?case
    using s(1) u16_small [of n] by (simp add: qn Let_def add_oc_def sub_oc_def)
qed simp

section \<open>The batch, queue by queue\<close>

lemma filter_arms:
  assumes "distinct (map fst lims)" "(q, n) \<in> set lims"
  shows "filter (\<lambda>r. row_queue r = q) (concat (map (next_arm st d) lims)) = next_arm st d (q, n)"
  using assms
proof (induction lims)
  case (Cons ql lims)
  have other: "filter (\<lambda>r. row_queue r = q) (next_arm st d ql') = []" if "fst ql' \<noteq> q" for ql'
    using that by (auto simp: filter_empty_conv dest: next_arm_subset)
  have own: "filter (\<lambda>r. row_queue r = q) (next_arm st d (q, n)) = next_arm st d (q, n)"
    by (auto simp: filter_id_conv dest: next_arm_subset)
  show ?case
  proof (cases "fst ql = q")
    case True
    with Cons.prems have "ql = (q, n)" "q \<notin> fst ` set lims" by (auto simp: image_iff rev_image_eqI)
    moreover from this(2) have "filter (\<lambda>r. row_queue r = q) (concat (map (next_arm st d) lims)) = []"
      by (auto simp: filter_empty_conv image_iff dest: next_arm_subset)
    ultimately show ?thesis using own by simp
  next
    case False
    with Cons other [of ql] show ?thesis by auto
  qed
qed simp

lemma filter_batch:
  assumes "distinct (map fst lims)" "(q, n) \<in> set lims" "next_txs st lims d = (Inr ts, d')"
  shows "filter (\<lambda>t. tx_queue t = q) ts = map tx_of_row (next_arm st d (q, n))"
proof -
  have "ts = map tx_of_row (concat (map (next_arm st d) lims))"
    using next_txs_ok(1) [OF assms(3)] by (simp add: map_concat o_def)
  then have "filter (\<lambda>t. tx_queue t = q) ts = map tx_of_row (filter (\<lambda>r. row_queue r = q) (concat (map (next_arm st d) lims)))"
    by (simp add: filter_map o_def tx_of_row_def)
  with filter_arms [OF assms(1,2)] show ?thesis by simp
qed

lemma next_arm_whole:
  assumes "queued st d q \<le> unat n" "queued st d q \<le> unat m"
  shows "next_arm st d (q, n) = next_arm st d (q, m)"
  using assms by (simp add: next_arm_def queued_def)

text \<open>
  The limits in the two cases: the quotas themselves, or at least what every queue holds.
\<close>

lemma limits_fit:
  assumes "state_of st d = (Inr state, d1)" "iter_ok iter_w" "iter_ok iter_q"
    "weight_sum (backlog queues st d) < 2 ^ 24" "unat cap + length (backlog queues st d) < 65536"
    "(\<forall>q\<in>set (queues_with st d). unat (share_of queues st cap d q) \<le> queued st d q) \<or>
     (\<forall>q\<in>set (queues_with st d). queued st d q \<le> unat (share_of queues st cap d q))"
    "q \<in> set (queues_with st d)"
  defines "qs \<equiv> iter_q (quota (iter_w (map (\<lambda>s. (ts_queue s, weight_of queues (ts_queue s))) state)) cap)"
  shows "\<exists>lims n. spread oc state qs 0 = Inr lims \<and> distinct (map fst lims) \<and> (q, n) \<in> set lims \<and>
    next_arm st d (q, n) = next_arm st d (q, share_of queues st cap d q)"
proof -
  note sh = shares_are_quotas [OF assms(1-4), of cap, folded qs_def]
  have keys: "ts_queue ` set state = set (queues_with st d)"
    using state_of_ok(2) [OF assms(1)] by (metis list.set_map set_remdups)
  show ?thesis
    using assms(6)
  proof
    assume full: "\<forall>q\<in>set (queues_with st d). unat (share_of queues st cap d q) \<le> queued st d q"
    have "spread oc state qs 0 = Inr qs"
      using full sh(1) keys state_count_queued [OF assms(1)] by (intro spread_saturated) auto
    with sh assms(7) show ?thesis by blast
  next
    assume part: "\<forall>q\<in>set (queues_with st d). queued st d q \<le> unat (share_of queues st cap d q)"
    from limits_of_state [OF assms(1-5), of oc, folded qs_def] obtain lims where
      lims: "spread oc state qs 0 = Inr lims" "map fst lims = map fst qs"
        "\<forall>i<length lims. min (queued st d (fst (qs ! i))) (unat (snd (qs ! i))) \<le> unat (snd (lims ! i))"
      by blast
    from sh(1) assms(7) obtain i where i: "i < length qs" "qs ! i = (q, share_of queues st cap d q)"
      by (metis (no_types, lifting) image_eqI in_set_conv_nth)
    have len: "length lims = length qs" using lims(2) by (metis length_map)
    have fi: "fst (lims ! i) = q" using lims(2) i len by (metis fst_conv nth_map)
    have "queued st d q \<le> unat (snd (lims ! i))"
      using lims(3) i len part assms(7) by fastforce
    then have "next_arm st d (q, snd (lims ! i)) = next_arm st d (q, share_of queues st cap d q)"
      using part assms(7) by (intro next_arm_whole) auto
    moreover have "(q, snd (lims ! i)) \<in> set lims" using i len fi by (metis nth_mem prod.collapse)
    ultimately show ?thesis using lims(1,2) sh(2) by metis
  qed
qed

lemma shares_exact_lemma:
  assumes "iter_ok iter_w" "iter_ok iter_q"
    "weight_sum (backlog queues st d) < 2 ^ 24" "unat cap + length (backlog queues st d) < 65536"
    "(\<forall>q\<in>set (queues_with st d). unat (share_of queues st cap d q) \<le> queued st d q) \<or>
     (\<forall>q\<in>set (queues_with st d). queued st d q \<le> unat (share_of queues st cap d q))"
    "priority_next oc iter_w iter_q queues st cap d = (Inr ts, d')" "q \<in> set (queues_with st d)"
  shows "filter (\<lambda>t. tx_queue t = q) ts = map tx_of_row (next_arm st d (q, share_of queues st cap d q))"
  using assms(6)
proof (cases rule: priority_next_cases)
  case (none d1)
  with state_of_ok(2) [OF none(1)] assms(7) show ?thesis by simp
next
  case (limits state d1 sr)
  from limits_fit [OF limits(1) assms(1-5,7), of oc] limits(3,4) obtain lims n where
    l: "distinct (map fst lims)" "(q, n) \<in> set lims" "next_txs st (iter_q lims) d1 = (Inr ts, d')"
      "next_arm st d (q, n) = next_arm st d (q, share_of queues st cap d q)"
    by auto
  have il: "mset (iter_q lims) = mset lims" using iter_okD(1) [OF assms(2)] .
  have "distinct (map fst (iter_q lims))" using l(1) il by (metis mset_eq_imp_distinct_iff mset_map)
  moreover have "(q, n) \<in> set (iter_q lims)" using l(2) il by (metis set_mset_mset)
  ultimately have "filter (\<lambda>t. tx_queue t = q) ts = map tx_of_row (next_arm st d1 (q, n))"
    using l(3) by (rule filter_batch)
  moreover have "next_arm st d1 (q, n) = next_arm st d (q, n)"
    using state_of_ok(1) [OF limits(1)] by (simp add: next_arm_def same_tables_def)
  ultimately show ?thesis using l(4) by simp
qed simp

text \<open>C15. Fair shares.  When every waiting queue can fill its quota, or none holds more than its quota, the
  transactions of a queue in the batch are exactly the oldest ones of that queue, as many as its quota; in
  whatever order the maps are iterated, so that neither the queues that come first nor the heavier ones take
  from the others.\<close>

theorem shares_exact:
  assumes "iter_ok iter_w" "iter_ok iter_q"
    "weight_sum (backlog queues st d) < 2 ^ 24" "unat cap + length (backlog queues st d) < 65536"
    "(\<forall>q\<in>set (queues_with st d). unat (share_of queues st cap d q) \<le> queued st d q) \<or>
     (\<forall>q\<in>set (queues_with st d). queued st d q \<le> unat (share_of queues st cap d q))"
    "priority_next oc iter_w iter_q queues st cap d = (Inr ts, d')" "q \<in> set (queues_with st d)"
  shows "filter (\<lambda>t. tx_queue t = q) ts = map tx_of_row (next_arm st d (q, share_of queues st cap d q))"
  using assms by (rule shares_exact_lemma)

lemma three_queues_shares:
  assumes "q \<in> set (queues_with Pending three_queues)"
  shows "share_of [] Pending 3 three_queues q = 1" "queued Pending three_queues q = 1"
proof -
  have w: "weight_sum (backlog [] Pending three_queues) = 3" by (simp add: three_queues_backlog weight_sum_def)
  have "quota_of (F32 (of_nat 3)) 3 DEFAULT_WEIGHT = 1" by code_simp
  then show "share_of [] Pending 3 three_queues q = 1" unfolding share_of_def w by (simp add: weight_of_def queues_get_def)
  show "queued Pending three_queues q = 1"
    using assms unfolding three_queues_backlog by (auto simp: queued_def three_queues_def demo_defs)
qed

theorem shares_exact_witness:
  "\<exists>ts d'. priority_next False rev id [] Pending 3 three_queues = (Inr ts, d') \<and>
     length (filter (\<lambda>t. tx_queue t = ''y'') ts) = 1"
proof -
  have small: "\<forall>q. queued Pending three_queues q < 2 ^ 32"
  proof
    fix q
    have "queued Pending three_queues q \<le> length (tx_tbl three_queues)"
      unfolding queued_def by (rule length_filter_le)
    then show "queued Pending three_queues q < 2 ^ 32" by (simp add: three_queues_def)
  qed
  have it: "iter_ok (rev :: (string \<times> u8) list \<Rightarrow> _)" "iter_ok (id :: (string \<times> u16) list \<Rightarrow> _)" by (simp_all add: iter_ok_def)
  have w: "weight_sum (backlog [] Pending three_queues) < 2 ^ 24"
    "unat (3 :: u16) + length (backlog [] Pending three_queues) < 65536"
    by (simp_all add: three_queues_backlog weight_sum_def)
  obtain ts d' where n: "priority_next False rev id [] Pending 3 three_queues = (Inr ts, d')"
    using priority_next_progress_lemma [OF three_queues_wf small it, of "[]" 3 False]
    by (auto simp: three_queues_backlog weight_sum_def)
  have "filter (\<lambda>t. tx_queue t = ''y'') ts =
    map tx_of_row (next_arm Pending three_queues (''y'', share_of [] Pending 3 three_queues ''y''))"
    using shares_exact [OF it w _ n] three_queues_shares three_queues_backlog(2) by simp
  moreover have "''y'' \<in> set (queues_with Pending three_queues)" by (simp add: three_queues_backlog)
  ultimately show ?thesis
    using n three_queues_shares [of "''y''"] length_next_arm [of Pending three_queues "(''y'', 1)"]
    by (auto simp: queued_def)
qed

section \<open>The length of a batch\<close>

lemma length_by_class:
  "distinct qs \<Longrightarrow> (\<And>x. x \<in> set xs \<Longrightarrow> f x \<in> set qs) \<Longrightarrow>
   length xs = (\<Sum>q\<leftarrow>qs. length (filter (\<lambda>x. f x = q) xs))"
proof (induction qs arbitrary: xs)
  case Nil
  then show ?case using Nil.prems(2) [of "hd xs"] by (cases xs) simp_all
next
  case (Cons q qs)
  have "length xs = length (filter (\<lambda>x. f x = q) xs) + length (filter (\<lambda>x. f x \<noteq> q) xs)"
    by (simp add: sum_length_filter_compl)
  also have "length (filter (\<lambda>x. f x \<noteq> q) xs) =
      (\<Sum>p\<leftarrow>qs. length (filter (\<lambda>x. f x = p) (filter (\<lambda>x. f x \<noteq> q) xs)))"
    using Cons.prems by (intro Cons.IH) auto
  also have "\<dots> = (\<Sum>p\<leftarrow>qs. length (filter (\<lambda>x. f x = p) xs))"
    using Cons.prems(1)
    by (intro arg_cong [where f = sum_list] map_cong)
      (auto intro!: arg_cong [where f = length] filter_cong simp: filter_filter)
  finally show ?case by simp
qed

lemma batch_queues:
  assumes "db_wf d" "iter_ok iter_w" "iter_ok iter_q" "priority_next oc iter_w iter_q queues st cap d = (Inr ts, d')" "t \<in> set ts"
  shows "tx_queue t \<in> set (queues_with st d)"
proof -
  have e: "tx_status t = st" "entries d (tx_id t) = Some (entry_of_tx t)"
    using priority_next_members [OF assms(1-4)] assms(5) by auto
  then obtain r where r: "r \<in> set (tx_tbl d)" "entry_of_row r = entry_of_tx t"
    using entries_Some_iff [OF assms(1)] by metis
  with e(1) status_of_row_iff [OF assms(1), of r st] show ?thesis
    by (auto simp: queues_with_def entry_of_row_def entry_of_tx_def intro!: rev_image_eqI [of r])
qed

lemma batch_length:
  assumes "db_wf d" "iter_ok iter_w" "iter_ok iter_q" "priority_next oc iter_w iter_q queues st cap d = (Inr ts, d')"
  shows "length ts = (\<Sum>q\<leftarrow>remdups (queues_with st d). length (filter (\<lambda>t. tx_queue t = q) ts))"
  using batch_queues [OF assms] by (intro length_by_class) auto

end
