(* ===== verification/Queue_Tests.thy ===== *)
theory Queue_Tests
  imports Priority_Shares Storage_Tests
begin

text \<open>
  The unit tests of the priority queue, module \<open>priority_tests\<close> of \<^verbatim>\<open>src/queue/priority.rs\<close>.  They are
  proved for every clock, every iteration order of the maps and either build.
\<close>

section \<open>The tests\<close>

definition it_should_calculate_quota :: "((string \<times> u8) list \<Rightarrow> (string \<times> u8) list) \<Rightarrow> 's test" where
  "it_should_calculate_quota iter_w =
     (let queues = iter_w [(''default'', 1), (''banana'', 2), (''orange'', 2)];
          quotas = map_of (quota queues 10) in
     sx_bind (unwrap_option (quotas ''default'')) (\<lambda>dflt.
     sx_bind (assert_that (dflt = 2)) (\<lambda>_.
     sx_bind (unwrap_option (quotas ''banana'')) (\<lambda>banana.
     sx_bind (assert_that (banana = 4)) (\<lambda>_.
     sx_bind (unwrap_option (quotas ''orange'')) (\<lambda>orange.
     assert_that (orange = 4)))))))"

text \<open>A queue of the tests: not chained and not signed by the server.\<close>

definition test_queue :: "string \<Rightarrow> u8 \<Rightarrow> queue_config" where
  "test_queue name weight = \<lparr>qc_name = name, qc_weight = weight, qc_chained = False, qc_server_signing = False\<rparr>"

definition it_should_return_next_transactions ::
  "bool \<Rightarrow> ((string \<times> u8) list \<Rightarrow> (string \<times> u8) list) \<Rightarrow> ((string \<times> u16) list \<Rightarrow> (string \<times> u16) list) \<Rightarrow> db test" where
  "it_should_return_next_transactions oc iter_w iter_q =
     (let queues = [test_queue ''default'' 1, test_queue ''banana'' 2, test_queue ''orange'' 1] in
     sx_bind (transaction_list [(''1'', ''banana''), (''2'', ''banana''), (''3'', ''orange''), (''4'', ''orange''),
       (''5'', ''default''), (''6'', ''default'')]) (\<lambda>transactions.
     sx_bind (unwrap (create transactions)) (\<lambda>_.
     sx_bind (unwrap (priority_next oc iter_w iter_q queues Pending 4)) (\<lambda>transactions.
     sx_bind (assert_that (length transactions = 4)) (\<lambda>_.
     sx_bind (assert_that (length (filter (\<lambda>t. tx_queue t = ''banana'') transactions) = 2)) (\<lambda>_.
     sx_bind (assert_that (length (filter (\<lambda>t. tx_queue t = ''orange'') transactions) = 1)) (\<lambda>_.
     assert_that (length (filter (\<lambda>t. tx_queue t = ''default'') transactions) = 1))))))))"

definition it_should_return_next_transactions_when_a_queue_is_removed_from_config ::
  "bool \<Rightarrow> ((string \<times> u8) list \<Rightarrow> (string \<times> u8) list) \<Rightarrow> ((string \<times> u16) list \<Rightarrow> (string \<times> u16) list) \<Rightarrow> db test" where
  "it_should_return_next_transactions_when_a_queue_is_removed_from_config oc iter_w iter_q =
     (let queues = [test_queue ''default'' 1] in
     sx_bind (transaction_list [(''1'', ''banana''), (''2'', ''banana''), (''3'', ''default'')]) (\<lambda>transactions.
     sx_bind (unwrap (create transactions)) (\<lambda>_.
     sx_bind (unwrap (priority_next oc iter_w iter_q queues Pending 4)) (\<lambda>transactions.
     assert_that (length transactions = 3)))))"

section \<open>The database the tests prepare\<close>

lemma transaction_list_ok:
  "\<exists>ts d'. transaction_list tuples d = (Inr ts :: 'e + _, d') \<and> map (\<lambda>t. (tx_id t, tx_queue t)) ts = tuples \<and>
     (\<forall>t\<in>set ts. tx_status t = Pending \<and> tx_dependencies t = None) \<and> same_tables d d' \<and> io_faults d' = io_faults d"
proof (induction tuples arbitrary: d)
  case Nil
  show ?case by (simp add: sx_return_def same_tables_def)
next
  case (Cons p tuples)
  obtain i q where p: "p = (i, q)" by fastforce
  obtain t d1 where t: "transaction_default d = (Inr t :: 'e + _, d1)" "tx_status t = Pending" "tx_dependencies t = None"
    "same_tables d d1" "io_faults d1 = io_faults d"
    by (simp add: transaction_default_def sx_defs utc_now_eq same_tables_def)
  from Cons.IH [of d1] obtain ts d2 where ts: "transaction_list tuples d1 = (Inr ts :: 'e + _, d2)"
    "map (\<lambda>t. (tx_id t, tx_queue t)) ts = tuples" "\<forall>t\<in>set ts. tx_status t = Pending \<and> tx_dependencies t = None"
    "same_tables d1 d2" "io_faults d2 = io_faults d1" by blast
  have "transaction_list (p # tuples) d = (Inr (t\<lparr>tx_id := i, tx_queue := q\<rparr> # ts) :: 'e + _, d2)"
    using t(1) ts(1) by (simp add: p sx_defs)
  then show ?case using t ts same_tables_trans by (fastforce simp: p)
qed

text \<open>After the rows are created, the table has them in order, pending and in their queues.\<close>

definition prepared :: "(string \<times> string) list \<Rightarrow> db \<Rightarrow> bool" where
  "prepared tuples d \<longleftrightarrow> db_wf d \<and> slots_wf d \<and> no_faults d \<and> map row_queue (tx_tbl d) = map snd tuples \<and>
     (\<forall>r\<in>set (tx_tbl d). row_status r = status_to_string Pending)"

lemma create_prepared:
  assumes "distinct (map fst tuples)"
  shows "\<exists>ts d d'. transaction_list tuples (mock_sqlite_transaction instants) = (Inr ts :: 'e + _, d) \<and>
    create ts d = (Inr (), d') \<and> prepared tuples d'"
proof -
  obtain ts d where ts: "transaction_list tuples (mock_sqlite_transaction instants) = (Inr ts :: 'e + _, d)"
    "map (\<lambda>t. (tx_id t, tx_queue t)) ts = tuples" "\<forall>t\<in>set ts. tx_status t = Pending \<and> tx_dependencies t = None"
    "same_tables (mock_sqlite_transaction instants) d" "io_faults d = io_faults (mock_sqlite_transaction instants)"
    using transaction_list_ok by blast
  have d: "tx_tbl d = []" "dep_tbl d = []" "cursor_tbl d = []" "no_faults d"
    using ts(4,5) by (auto simp: same_tables_def fixture_defs no_faults_def)
  have wf: "db_wf d" "slots_wf d" "row_ids d = {}" using d by (simp_all add: db_defs slots_wf_def)
  have ids: "distinct (map tx_id ts)" using assms unfolding ts(2) [symmetric] by (simp add: o_def)
  obtain d' where c: "create ts d = (Inr (), d')" "no_faults d'"
    using create_succeeds [OF d(4) ids] ts(3) wf(3) by auto
  have "db_wf d'" "slots_wf d'" using keepsD [OF create_keeps_wf _ c(1)] keepsD [OF create_slots _ c(1)] wf by auto
  moreover have "map row_queue (tx_tbl d') = map snd tuples \<and> (\<forall>r\<in>set (tx_tbl d'). row_status r = status_to_string Pending)"
    using create_ok [OF c(1)] ts(3) d(1) unfolding ts(2) [symmetric] by (simp add: row_of_tx_def o_def)
  ultimately show ?thesis using ts(1) c by (auto simp: prepared_def)
qed

lemma prepared_counts:
  assumes "prepared tuples d"
  shows "queues_with Pending d = map snd tuples" "queued Pending d q = count_list (map snd tuples) q"
proof -
  have "filter (\<lambda>r. row_status r = status_to_string Pending) (tx_tbl d) = tx_tbl d"
    using assms by (simp add: prepared_def)
  then show "queues_with Pending d = map snd tuples" using assms by (simp add: queues_with_def prepared_def)
  have "queued Pending d q = length (filter (\<lambda>r. row_queue r = q) (tx_tbl d))"
    using assms unfolding queued_def prepared_def by (intro arg_cong [where f = length] filter_cong) auto
  also have "\<dots> = count_list (map row_queue (tx_tbl d)) q" by (simp add: count_list_map)
  finally show "queued Pending d q = count_list (map snd tuples) q" using assms by (simp add: prepared_def)
qed

text \<open>What \<open>Priority::next\<close> takes from a prepared database when the quotas fit in the sense of \<open>shares_exact\<close>.\<close>

lemma next_of_prepared:
  assumes "prepared tuples d" "iter_ok iter_w" "iter_ok iter_q" "length tuples < 1000"
    "backlog queues Pending d = bl" "0 < weight_sum bl" "weight_sum bl < 2 ^ 24" "length bl \<le> unat cap" "unat cap < 60000"
    "(\<forall>q\<in>set (map snd tuples). unat (share_of queues Pending cap d q) \<le> count_list (map snd tuples) q) \<or>
     (\<forall>q\<in>set (map snd tuples). count_list (map snd tuples) q \<le> unat (share_of queues Pending cap d q))"
  shows "\<exists>ts d'. priority_next oc iter_w iter_q queues Pending cap d = (Inr ts, d') \<and>
    (\<forall>q\<in>set (map snd tuples). length (filter (\<lambda>t. tx_queue t = q) ts) =
       min (unat (share_of queues Pending cap d q)) (count_list (map snd tuples) q)) \<and>
    length ts = (\<Sum>q\<leftarrow>remdups (map snd tuples). min (unat (share_of queues Pending cap d q)) (count_list (map snd tuples) q))"
proof -
  note c = prepared_counts [OF assms(1)]
  have wf: "db_wf d" "slots_wf d" "no_faults d" using assms(1) by (simp_all add: prepared_def)
  have small: "\<forall>q. queued Pending d q < 2 ^ 32"
  proof
    fix q
    have "queued Pending d q \<le> length tuples" using count_le_length [of "map snd tuples" q] by (simp add: c(2))
    with assms(4) show "queued Pending d q < 2 ^ 32" by simp
  qed
  have room: "unat cap + length (backlog queues Pending d) < 65536" 
  proof -
    have "length bl \<le> length tuples"
      using length_remdups_leq [of "map snd tuples"] unfolding assms(5) [symmetric] backlog_def c(1) by simp
    with assms(4,9) show ?thesis unfolding assms(5) by linarith
  qed
  obtain ts d' where n: "priority_next oc iter_w iter_q queues Pending cap d = (Inr ts, d')"
    using priority_next_progress_lemma [OF wf small assms(2,3), of queues cap oc] assms room by auto
  have share: "length (filter (\<lambda>t. tx_queue t = q) ts) =
      min (unat (share_of queues Pending cap d q)) (count_list (map snd tuples) q)" if "q \<in> set (map snd tuples)" for q
  proof -
    have "filter (\<lambda>t. tx_queue t = q) ts = map tx_of_row (next_arm Pending d (q, share_of queues Pending cap d q))"
      using assms(5,7,10) that by (intro shares_exact_lemma [OF assms(2,3) _ room _ n]) (simp_all only: c)
    then show ?thesis using length_next_arm [of Pending d "(q, share_of queues Pending cap d q)"] c(2) by (simp add: queued_def)
  qed
  have "length ts = (\<Sum>q\<leftarrow>remdups (map snd tuples). length (filter (\<lambda>t. tx_queue t = q) ts))"
    using batch_length [OF wf(1) assms(2,3) n] by (simp only: c)
  also have "\<dots> = (\<Sum>q\<leftarrow>remdups (map snd tuples). min (unat (share_of queues Pending cap d q)) (count_list (map snd tuples) q))"
    using share by (intro arg_cong [where f = sum_list] map_cong) simp_all
  finally show ?thesis using n share by blast
qed

section \<open>The tests pass\<close>

lemma calculate_quota_passes:
  assumes "iter_ok iter_w"
  shows "passes (it_should_calculate_quota iter_w) s"
proof -
  let ?qs = "[(''default'', 1), (''banana'', 2), (''orange'', 2)] :: (string \<times> u8) list"
  have m: "mset (iter_w ?qs) = mset ?qs" using iter_okD(1) [OF assms] .
  have tw: "total_weight (iter_w ?qs) = F32 5"
    using total_weight_exact [of "iter_w ?qs"] weight_sum_mset [OF m] by (simp add: weight_sum_def)
  have "quota_of (F32 5) 10 1 = 2" "quota_of (F32 5) 10 2 = 4" by code_simp+
  then have q: "mset (quota (iter_w ?qs) 10) = {#(''default'', 2), (''banana'', 4), (''orange'', 4)#}"
    unfolding mset_quota tw using m by (simp add: image_mset.compositionality)
  have "distinct (map fst (quota (iter_w ?qs) 10))"
    using arg_cong [OF q, of "image_mset fst"] mset_eq_imp_distinct_iff [of "map fst (quota (iter_w ?qs) 10)"
        "[''default'', ''banana'', ''orange'']"] by simp
  moreover have "set (quota (iter_w ?qs) 10) = {(''default'', 2), (''banana'', 4), (''orange'', 4)}"
    using arg_cong [OF q, of set_mset] by simp
  ultimately have "map_of (quota (iter_w ?qs) 10) ''default'' = Some 2" "map_of (quota (iter_w ?qs) 10) ''banana'' = Some 4"
    "map_of (quota (iter_w ?qs) 10) ''orange'' = Some 4"
    by (simp_all add: map_of_eq_Some_iff)
  then show ?thesis by (simp add: it_should_calculate_quota_def harness_defs)
qed


lemma next_transactions_passes:
  assumes "iter_ok iter_w" "iter_ok iter_q"
  shows "passes (it_should_return_next_transactions oc iter_w iter_q) (mock_sqlite_transaction instants)"
proof -
  let ?tuples = "[(''1'', ''banana''), (''2'', ''banana''), (''3'', ''orange''), (''4'', ''orange''),
       (''5'', ''default''), (''6'', ''default'')]"
  let ?queues = "[test_queue ''default'' 1, test_queue ''banana'' 2, test_queue ''orange'' 1]"
  have distinct: "distinct (map fst ?tuples)" by simp
  obtain txs d1 d where p: "transaction_list ?tuples (mock_sqlite_transaction instants) = (Inr txs :: test_failure + _, d1)"
    "create txs d1 = (Inr (), d)" "prepared ?tuples d"
    using create_prepared [OF distinct, of instants] by blast
  have bl: "backlog ?queues Pending d = [(''banana'', 2), (''orange'', 1), (''default'', 1)]"
    by (simp add: backlog_def prepared_counts [OF p(3)] weight_of_def queues_get_def test_queue_def)
  have "quota_of (F32 4) 4 1 = 1" "quota_of (F32 4) 4 2 = 2" by code_simp+
  then have sh: "share_of ?queues Pending 4 d ''banana'' = 2" "share_of ?queues Pending 4 d ''orange'' = 1"
    "share_of ?queues Pending 4 d ''default'' = 1"
    unfolding share_of_def bl by (simp_all add: weight_sum_def weight_of_def queues_get_def test_queue_def)
  obtain ts d' where "priority_next oc iter_w iter_q ?queues Pending 4 d = (Inr ts, d')"
    "length (filter (\<lambda>t. tx_queue t = ''banana'') ts) = 2" "length (filter (\<lambda>t. tx_queue t = ''orange'') ts) = 1"
    "length (filter (\<lambda>t. tx_queue t = ''default'') ts) = 1" "length ts = 4"
    using next_of_prepared [OF p(3) assms _ bl, of 4 oc] sh by (auto simp: weight_sum_def)
  with p show ?thesis by (simp add: it_should_return_next_transactions_def harness_defs del: transaction_list.simps)
qed

lemma removed_queue_passes:
  assumes "iter_ok iter_w" "iter_ok iter_q"
  shows "passes (it_should_return_next_transactions_when_a_queue_is_removed_from_config oc iter_w iter_q)
    (mock_sqlite_transaction instants)"
proof -
  let ?tuples = "[(''1'', ''banana''), (''2'', ''banana''), (''3'', ''default'')]"
  let ?queues = "[test_queue ''default'' 1]"
  have distinct: "distinct (map fst ?tuples)" by simp
  obtain txs d1 d where p: "transaction_list ?tuples (mock_sqlite_transaction instants) = (Inr txs :: test_failure + _, d1)"
    "create txs d1 = (Inr (), d)" "prepared ?tuples d"
    using create_prepared [OF distinct, of instants] by blast
  have bl: "backlog ?queues Pending d = [(''banana'', 1), (''default'', 1)]"
    by (simp add: backlog_def prepared_counts [OF p(3)] weight_of_def queues_get_def test_queue_def DEFAULT_WEIGHT_def)
  have "quota_of (F32 2) 4 1 = 2" by code_simp
  then have sh: "share_of ?queues Pending 4 d ''banana'' = 2" "share_of ?queues Pending 4 d ''default'' = 2"
    unfolding share_of_def bl by (simp_all add: weight_sum_def weight_of_def queues_get_def test_queue_def DEFAULT_WEIGHT_def)
  obtain ts d' where "priority_next oc iter_w iter_q ?queues Pending 4 d = (Inr ts, d')" "length ts = 3"
    using next_of_prepared [OF p(3) assms _ bl, of 4 oc] sh by (auto simp: weight_sum_def)
  with p show ?thesis by (simp add: it_should_return_next_transactions_when_a_queue_is_removed_from_config_def harness_defs
        del: transaction_list.simps)
qed

definition priority_tests ::
  "bool \<Rightarrow> ((string \<times> u8) list \<Rightarrow> (string \<times> u8) list) \<Rightarrow> ((string \<times> u16) list \<Rightarrow> (string \<times> u16) list) \<Rightarrow> db test list" where
  "priority_tests oc iter_w iter_q = [it_should_calculate_quota iter_w, it_should_return_next_transactions oc iter_w iter_q,
     it_should_return_next_transactions_when_a_queue_is_removed_from_config oc iter_w iter_q]"

lemma priority_tests_pass:
  "iter_ok iter_w \<Longrightarrow> iter_ok iter_q \<Longrightarrow>
   list_all (\<lambda>t. passes t (mock_sqlite_transaction instants)) (priority_tests oc iter_w iter_q)"
  by (simp add: priority_tests_def calculate_quota_passes next_transactions_passes removed_queue_passes)

end
