(* ===== verification/Chaining_Runs.thy ===== *)
theory Chaining_Runs
  imports Tx_Chaining Storage_Tests
begin

text \<open>
  Executable runs of the tasks of \<open>TxChaining\<close>, and the unit tests of \<^verbatim>\<open>src/queue/chaining.rs\<close> (module
  \<open>chaining_tests\<close>) on them.

  \<open>chain_step\<close> says what a task may do; here the task does what it can whenever it can, and time passes
  only when it cannot do anything.  Where the source's \<open>select!\<close> has both an unlock message and the end of the
  timeout at hand, the message is taken.  Every move of a run is a \<open>chain_step\<close>, so that what is proved of the
  relation holds of the runs.
\<close>

section \<open>Running a task\<close>

definition task_ready :: "chain_queue \<Rightarrow> bool" where
  "task_ready s \<longleftrightarrow> (case cq_phase s of
     Waiting \<Rightarrow> cq_requests s \<noteq> []
   | Serving _ _ \<Rightarrow> True
   | Holding _ _ n \<Rightarrow> 0 < cq_unlocks s \<or> LOCK_TIMEOUT \<le> n)"

text \<open>One segment of the loop: \<open>token\<close> is what the random generator yields, \<open>res\<close> what the storage answers and
  \<open>client_open\<close> whether the client still listens.\<close>

definition task_turn :: "string \<Rightarrow> sql_error + Transaction option \<Rightarrow> bool \<Rightarrow> chain_queue \<Rightarrow> chain_queue" where
  "task_turn token res client_open s = (case cq_phase s of
     Waiting \<Rightarrow> (case cq_requests s of
         [] \<Rightarrow> s
       | c # cs \<Rightarrow> s\<lparr>cq_requests := cs, cq_token := Some token, cq_phase := Serving c token,
                    cq_issued := cq_issued s @ [(c, token)]\<rparr>)
   | Serving c t \<Rightarrow> (case res of
         Inl _ \<Rightarrow> s\<lparr>cq_phase := Waiting,
                   cq_replies := (if client_open then cq_replies s @ [(c, lock_reply t res)] else cq_replies s)\<rparr>
       | Inr _ \<Rightarrow> if client_open
                 then s\<lparr>cq_phase := Holding c t 0, cq_replies := cq_replies s @ [(c, lock_reply t res)]\<rparr>
                 else s\<lparr>cq_phase := Waiting\<rparr>)
   | Holding c t n \<Rightarrow>
       if 0 < cq_unlocks s then s\<lparr>cq_phase := Waiting, cq_token := None, cq_unlocks := cq_unlocks s - 1\<rparr>
       else if LOCK_TIMEOUT \<le> n then s\<lparr>cq_phase := Waiting, cq_token := None\<rparr>
       else s)"

definition second :: "chain_queue \<Rightarrow> chain_queue" where
  "second s = (case cq_phase s of Holding c t n \<Rightarrow> s\<lparr>cq_phase := Holding c t (n + 1)\<rparr> | _ \<Rightarrow> s)"

text \<open>Both are moves of the relation.\<close>

lemma task_turn_step:
  assumes "task_ready s" "length token = 8"
  shows "\<exists>a. task_move a \<and> chain_step a s (task_turn token res client_open s)"
proof (cases "cq_phase s")
  case Waiting
  with assms obtain c cs where "cq_requests s = c # cs" by (cases "cq_requests s") (auto simp: task_ready_def)
  with Waiting assms chain_step.issue [of s c cs token] show ?thesis
    by (intro exI [of _ "Issue token"]) (simp add: task_turn_def)
next
  case (Serving c t)
  then show ?thesis
    by (intro exI [of _ "Serve res client_open"])
      (cases res; cases client_open; simp add: task_turn_def chain_step_simps)
next
  case (Holding c t n)
  show ?thesis
  proof (cases "0 < cq_unlocks s")
    case True
    with Holding chain_step.release [OF Holding] show ?thesis by (intro exI [of _ Release]) (simp add: task_turn_def)
  next
    case False
    with assms Holding chain_step.timeout [OF Holding] show ?thesis
      by (intro exI [of _ Timeout]) (simp add: task_turn_def task_ready_def)
  qed
qed

lemma second_step: "second s = s \<or> chain_step Tick s (second s)"
  using chain_step.tick [of s] by (cases "cq_phase s") (simp_all add: second_def)

section \<open>Clients that wait\<close>

text \<open>The world of a test: the queues, the seconds that have passed, how many tokens were drawn, how many answers
  each client has read, and the storage.\<close>

record chain_world =
  cw_chaining :: chaining
  cw_seconds :: nat
  cw_draws :: nat
  cw_read :: "client \<Rightarrow> nat"
  cw_db :: db

definition answers :: "client \<Rightarrow> chain_queue \<Rightarrow> reply list" where
  "answers c s = map snd (filter (\<lambda>p. fst p = c) (cq_replies s))"

definition run_task :: "(nat \<Rightarrow> string) \<Rightarrow> string \<Rightarrow> chain_queue \<Rightarrow> chain_world \<Rightarrow> chain_world" where
  "run_task tok q s w =
     (let (res, d) = (if \<exists>c t. cq_phase s = Serving c t then latest q (cw_db w) else (Inr None, cw_db w)) in
      w\<lparr>cw_chaining := (cw_chaining w)(q \<mapsto> task_turn (tok (cw_draws w)) res True s),
        cw_draws := (if cq_phase s = Waiting then Suc (cw_draws w) else cw_draws w), cw_db := d\<rparr>)"

definition pass_second :: "chain_world \<Rightarrow> chain_world" where
  "pass_second w = w\<lparr>cw_chaining := (\<lambda>q. map_option second (cw_chaining w q)), cw_seconds := Suc (cw_seconds w)\<rparr>"

text \<open>
  \<open>rx_stream.recv()\<close> of client \<open>c\<close>, who has asked queue \<open>q\<close>: the task of the queue moves while it can, a second
  passes when it cannot.  The fuel bounds the number of moves and seconds; running out of it counts as waiting
  for ever.
\<close>

fun recv :: "(nat \<Rightarrow> string) \<Rightarrow> nat \<Rightarrow> client \<Rightarrow> string \<Rightarrow> (chain_world, test_failure, reply option) sx" where
  "recv tok 0 c q w = (Inl Hung, w)"
| "recv tok (Suc fuel) c q w =
     (case cw_chaining w q of
        None \<Rightarrow> (Inr None, w)
      | Some s \<Rightarrow>
          (case drop (cw_read w c) (answers c s) of
             r # _ \<Rightarrow> (Inr (Some r), w\<lparr>cw_read := (cw_read w)(c := Suc (cw_read w c))\<rparr>)
           | [] \<Rightarrow> if task_ready s then recv tok fuel c q (run_task tok q s w)
                   else recv tok fuel c q (pass_second w)))"

definition WAIT_FUEL :: nat where
  "WAIT_FUEL = 100"

text \<open>\<open>lock\<close> and \<open>unlock\<close> on the world.\<close>

definition on_chaining ::
  "(chaining \<Rightarrow> (chaining_error + chaining) option) \<Rightarrow> (chain_world, test_failure, unit) sx" where
  "on_chaining f w = (case f (cw_chaining w) of
     None \<Rightarrow> (Inl Hung, w)
   | Some (Inl _) \<Rightarrow> (Inl Unwrapped, w)
   | Some (Inr ch) \<Rightarrow> (Inr (), w\<lparr>cw_chaining := ch\<rparr>))"

section \<open>Runs stay within the relation\<close>

lemma chaining_ok_second: "chaining_ok ch \<Longrightarrow> chaining_ok (\<lambda>q. map_option second (ch q))"
  unfolding chaining_ok_def by (auto simp: map_option_eq_Some) (metis reachable_step second_step)

lemma chaining_ok_turn:
  assumes "chaining_ok (cw_chaining w)" "cw_chaining w q = Some s" "task_ready s" "\<And>n. length (tok n) = 8"
  shows "chaining_ok (cw_chaining (run_task tok q s w))"
proof -
  obtain res d where r: "(if \<exists>c t. cq_phase s = Serving c t then latest q (cw_db w) else (Inr None, cw_db w)) = (res, d)"
    by fastforce
  obtain a where "chain_step a s (task_turn (tok (cw_draws w)) res True s)"
    using task_turn_step [OF assms(3)] assms(4) by blast
  with chaining_ok_step [OF assms(1,2)] r show ?thesis by (simp add: run_task_def Let_def)
qed

lemma recv_sound:
  "recv tok fuel c q w = (r, w') \<Longrightarrow> chaining_ok (cw_chaining w) \<Longrightarrow> (\<And>n. length (tok n) = 8) \<Longrightarrow>
   chaining_ok (cw_chaining w')"
proof (induction tok fuel c q w rule: recv.induct)
  case (2 tok fuel c q w)
  then show ?case
    by (auto split: option.splits list.splits if_splits simp: pass_second_def
        intro: chaining_ok_turn chaining_ok_second)
qed simp

section \<open>How long a client waits\<close>

lemma pass_seconds:
  "cw_seconds ((pass_second ^^ k) w) = cw_seconds w + k" "cw_read ((pass_second ^^ k) w) = cw_read w"
  "cw_db ((pass_second ^^ k) w) = cw_db w" "cw_draws ((pass_second ^^ k) w) = cw_draws w"
  "cw_chaining ((pass_second ^^ k) w) q = map_option (second ^^ k) (cw_chaining w q)"
  by (induction k) (simp_all add: pass_second_def option.map_comp option.map_id o_def)

lemma seconds_holding:
  "cq_phase s = Holding c t n \<Longrightarrow> (second ^^ k) s = s\<lparr>cq_phase := Holding c t (n + k)\<rparr>"
  by (induction k) (simp_all add: second_def)

definition nothing_unread :: "client \<Rightarrow> chain_queue \<Rightarrow> chain_world \<Rightarrow> bool" where
  "nothing_unread c s w \<longleftrightarrow> length (answers c s) \<le> cw_read w c"

lemma recv_ticks:
  assumes "cw_chaining w q = Some s" "cq_phase s = Holding c1 t1 n" "cq_unlocks s = 0" "nothing_unread c s w"
    "n + k \<le> LOCK_TIMEOUT"
  shows "recv tok (k + fuel) c q w = recv tok fuel c q ((pass_second ^^ k) w)"
  using assms
proof (induction k arbitrary: w s n)
  case (Suc k)
  have "recv tok (Suc k + fuel) c q w = recv tok (k + fuel) c q (pass_second w)"
    using Suc.prems by (simp add: nothing_unread_def task_ready_def)
  also have "\<dots> = recv tok fuel c q ((pass_second ^^ k) (pass_second w))"
    using Suc.prems
    by (intro Suc.IH [of _ "second s" "n + 1"])
      (simp_all add: pass_second_def second_def nothing_unread_def answers_def)
  finally show ?case by (simp add: funpow_swap1)
qed simp

lemma latest_succeeds:
  assumes "no_faults d" "db_wf d" "slots_wf d"
  shows "\<exists>x d'. latest q d = (Inr x, d') \<and> no_faults d' \<and> db_wf d' \<and> slots_wf d'"
proof -
  let ?sel = "\<lambda>rs. take 1 (sort_key (\<lambda>r. - row_created_at r) (filter (\<lambda>r. row_queue r = q) rs))"
  have "set (?sel (tx_tbl d)) \<subseteq> set (tx_tbl d)" by (auto dest: in_set_takeD)
  from fetch_txs_succeeds [OF assms, of ?sel, OF this] obtain d' where
    "fetch_rows tx_from_row (\<lambda>d. ?sel (tx_tbl d)) d = (Inr (map tx_of_row (?sel (tx_tbl d))), d')" "same_tables d d'" "no_faults d'"
    by blast
  then show ?thesis using assms by (auto simp: latest_def sx_bind_def sx_return_def same_tables_predicates)
qed

text \<open>The storage a waiting client relies on: the query for the latest transaction is answered.\<close>

definition storage_ready :: "chain_world \<Rightarrow> bool" where
  "storage_ready w \<longleftrightarrow> no_faults (cw_db w) \<and> db_wf (cw_db w) \<and> slots_wf (cw_db w)"

lemma recv_turn:
  assumes "cw_chaining w q = Some s" "nothing_unread c s w" "task_ready s"
  shows "recv tok (Suc fuel) c q w = recv tok fuel c q (run_task tok q s w)"
  using assms by (simp add: nothing_unread_def)

declare recv.simps [simp del]

text \<open>A free task serves the next client at once.\<close>

lemma recv_serves:
  assumes "cw_chaining w q = Some s" "cq_phase s = Waiting" "cq_requests s = x # rest" "nothing_unread c s w" "storage_ready w"
  shows "\<exists>w' s' v. recv tok (2 + fuel) c q w = recv tok fuel c q w' \<and> cw_chaining w' q = Some s' \<and>
    cq_phase s' = Holding x (tok (cw_draws w)) 0 \<and> cq_requests s' = rest \<and> cq_unlocks s' = cq_unlocks s \<and>
    cq_token s' = Some (tok (cw_draws w)) \<and> cq_replies s' = cq_replies s @ [(x, Granted (tok (cw_draws w)) v)] \<and>
    cw_seconds w' = cw_seconds w \<and> cw_read w' = cw_read w \<and> storage_ready w' \<and> cw_draws w' = Suc (cw_draws w) \<and>
    (\<forall>p. p \<noteq> q \<longrightarrow> cw_chaining w' p = cw_chaining w p)"
proof -
  let ?t = "tok (cw_draws w)"
  define s1 where "s1 = task_turn ?t (Inr None) True s"
  define w1 where "w1 = run_task tok q s w"
  have s1: "cq_phase s1 = Serving x ?t" "cq_requests s1 = rest" "cq_unlocks s1 = cq_unlocks s" "cq_token s1 = Some ?t"
    "cq_replies s1 = cq_replies s"
    using assms(2,3) by (simp_all add: s1_def task_turn_def)
  have w1: "cw_chaining w1 = (cw_chaining w)(q \<mapsto> s1)" "cw_draws w1 = Suc (cw_draws w)" "cw_db w1 = cw_db w"
    "cw_seconds w1 = cw_seconds w" "cw_read w1 = cw_read w"
    using assms(2) by (simp_all add: w1_def run_task_def s1_def)
  obtain v d where v: "latest q (cw_db w1) = (Inr v, d)" "no_faults d" "db_wf d" "slots_wf d"
    using latest_succeeds assms(5) w1(3) unfolding storage_ready_def by metis
  define s2 where "s2 = task_turn (tok (cw_draws w1)) (Inr v) True s1"
  define w2 where "w2 = run_task tok q s1 w1"
  have s2: "cq_phase s2 = Holding x ?t 0" "cq_requests s2 = rest" "cq_unlocks s2 = cq_unlocks s" "cq_token s2 = Some ?t"
    "cq_replies s2 = cq_replies s @ [(x, Granted ?t (map_option tx_raw v))]"
    using s1 by (simp_all add: s2_def task_turn_def lock_reply_def)
  have w2: "cw_chaining w2 = (cw_chaining w1)(q \<mapsto> s2)" "cw_draws w2 = Suc (cw_draws w)" "cw_db w2 = d"
    "cw_seconds w2 = cw_seconds w" "cw_read w2 = cw_read w"
    using s1(1) w1 v(1) by (simp_all add: w2_def run_task_def s2_def)
  have n1: "nothing_unread c s1 w1" using assms(4) s1(5) w1(5) by (simp add: nothing_unread_def answers_def)
  have "recv tok (2 + fuel) c q w = recv tok (Suc fuel) c q w1"
    using recv_turn [OF assms(1,4), of tok "Suc fuel"] assms(2,3) by (simp add: task_ready_def w1_def)
  also have "\<dots> = recv tok fuel c q w2"
    using recv_turn [of w1 q s1 c tok fuel, OF _ n1] s1(1) w1(1) by (simp add: task_ready_def w2_def)
  finally show ?thesis
    using s2 w1(1) w2 v(2-4) by (intro exI [of _ w2] exI [of _ s2] exI [of _ "map_option tx_raw v"]) (simp add: storage_ready_def)
qed

text \<open>A holder that does not give the lock back keeps it for exactly the timeout.\<close>

lemma recv_round:
  assumes "cw_chaining w q = Some s" "cq_phase s = Holding c1 t1 n" "n \<le> LOCK_TIMEOUT" "cq_unlocks s = 0"
    "cq_requests s = x # rest" "nothing_unread c s w" "storage_ready w"
  shows "\<exists>w' s' v. recv tok (LOCK_TIMEOUT - n + 3 + fuel) c q w = recv tok fuel c q w' \<and> cw_chaining w' q = Some s' \<and>
    cq_phase s' = Holding x (tok (cw_draws w)) 0 \<and> cq_requests s' = rest \<and> cq_unlocks s' = 0 \<and>
    cq_token s' = Some (tok (cw_draws w)) \<and> cq_replies s' = cq_replies s @ [(x, Granted (tok (cw_draws w)) v)] \<and>
    cw_seconds w' = cw_seconds w + (LOCK_TIMEOUT - n) \<and> cw_read w' = cw_read w \<and> storage_ready w' \<and>
    cw_draws w' = Suc (cw_draws w)"
proof -
  let ?k = "LOCK_TIMEOUT - n"
  define w1 s1 where "w1 = (pass_second ^^ ?k) w" and "s1 = s\<lparr>cq_phase := Holding c1 t1 LOCK_TIMEOUT\<rparr>"
  define w2 s2 where "w2 = run_task tok q s1 w1" and "s2 = s1\<lparr>cq_phase := Waiting, cq_token := None\<rparr>"
  have w1: "cw_chaining w1 q = Some s1" "cw_draws w1 = cw_draws w" "cw_db w1 = cw_db w" "cw_seconds w1 = cw_seconds w + ?k"
    "cw_read w1 = cw_read w"
    using assms(1,3) seconds_holding [OF assms(2), of ?k] by (simp_all add: w1_def s1_def pass_seconds)
  have w2: "cw_chaining w2 q = Some s2" "cw_draws w2 = cw_draws w" "cw_db w2 = cw_db w" "cw_seconds w2 = cw_seconds w + ?k"
    "cw_read w2 = cw_read w"
    using w1 assms(4) by (simp_all add: w2_def run_task_def s1_def s2_def task_turn_def)
  have s2: "cq_phase s2 = Waiting" "cq_requests s2 = x # rest" "cq_unlocks s2 = 0" "cq_replies s2 = cq_replies s"
    using assms(4,5) by (simp_all add: s2_def s1_def)
  have n: "nothing_unread c s1 w1" "nothing_unread c s2 w2" "storage_ready w2"
    using assms(6,7) w1(5) w2(3,5) by (simp_all add: nothing_unread_def answers_def s1_def s2_def storage_ready_def)
  have "recv tok (?k + 3 + fuel) c q w = recv tok (3 + fuel) c q w1"
    using recv_ticks [OF assms(1,2,4,6), of ?k tok "3 + fuel"] assms(3) by (simp add: add.assoc w1_def)
  also have "\<dots> = recv tok (2 + fuel) c q w2"
    using recv_turn [OF w1(1) n(1), of tok "2 + fuel"] by (simp add: task_ready_def s1_def w2_def numeral_3_eq_3 numeral_2_eq_2)
  finally show ?thesis
    using recv_serves [OF w2(1) s2(1,2) n(2,3), of tok fuel] s2(3,4) w2 by (metis)
qed

text \<open>
  The client behind \<open>xs\<close> others: it waits for the rest of the current timeout and one timeout for everyone
  before it.
\<close>

lemma lock_wait_exact_lemma:
  assumes "cw_chaining w q = Some s" "cq_phase s = Holding c1 t1 n" "n \<le> LOCK_TIMEOUT" "cq_unlocks s = 0"
    "cq_requests s = xs @ c # ys" "c \<notin> set xs" "length (answers c s) = cw_read w c" "storage_ready w"
  shows "\<exists>v w'. recv tok (LOCK_TIMEOUT - n + 4 + (LOCK_TIMEOUT + 3) * length xs + fuel) c q w =
      (Inr (Some (Granted (tok (cw_draws w + length xs)) v)), w') \<and>
    cw_seconds w' = cw_seconds w + (LOCK_TIMEOUT - n) + LOCK_TIMEOUT * length xs \<and>
    is_valid_token (cw_chaining w') q (tok (cw_draws w + length xs))"
  using assms
proof (induction xs arbitrary: w s c1 t1 n)
  case Nil
  have nu: "nothing_unread c s w" and rq: "cq_requests s = c # ys" using Nil by (simp_all add: nothing_unread_def)
  from recv_round [OF Nil(1-4) rq nu Nil(8), of tok "1 + fuel"] obtain w1 s1 v where
    r: "recv tok (LOCK_TIMEOUT - n + 3 + (1 + fuel)) c q w = recv tok (1 + fuel) c q w1" "cw_chaining w1 q = Some s1"
    "cq_token s1 = Some (tok (cw_draws w))" "cq_replies s1 = cq_replies s @ [(c, Granted (tok (cw_draws w)) v)]"
    "cw_seconds w1 = cw_seconds w + (LOCK_TIMEOUT - n)" "cw_read w1 = cw_read w"
    by blast
  have e: "LOCK_TIMEOUT - n + 4 + (LOCK_TIMEOUT + 3) * length [] + fuel = LOCK_TIMEOUT - n + 3 + (1 + fuel)" by simp
  have "drop (cw_read w1 c) (answers c s1) = [Granted (tok (cw_draws w)) v]"
    using Nil(7) r(4,6) by (simp add: answers_def)
  then show ?case using r(2,3,5) unfolding e r(1) by (simp add: recv.simps is_valid_token_def current_token_def)
next
  case (Cons x xs)
  let ?f = "LOCK_TIMEOUT + 4 + (LOCK_TIMEOUT + 3) * length xs + fuel"
  from recv_round [OF Cons.prems(1-4), of x "xs @ c # ys" c tok ?f] Cons.prems obtain w1 s1 v where
    r: "recv tok (LOCK_TIMEOUT - n + 3 + ?f) c q w = recv tok ?f c q w1" "cw_chaining w1 q = Some s1"
    "cq_phase s1 = Holding x (tok (cw_draws w)) 0" "cq_requests s1 = xs @ c # ys" "cq_unlocks s1 = 0"
    "cq_replies s1 = cq_replies s @ [(x, Granted (tok (cw_draws w)) v)]"
    "cw_seconds w1 = cw_seconds w + (LOCK_TIMEOUT - n)" "cw_read w1 = cw_read w" "storage_ready w1" "cw_draws w1 = Suc (cw_draws w)"
    by (auto simp: nothing_unread_def)
  have a: "length (answers c s1) = cw_read w1 c" using Cons.prems(6,7) r(6,8) by (simp add: answers_def)
  have e: "LOCK_TIMEOUT - n + 4 + (LOCK_TIMEOUT + 3) * length (x # xs) + fuel = LOCK_TIMEOUT - n + 3 + ?f" by simp
  from Cons.IH [OF r(2,3) _ r(5,4) _ a r(9)] Cons.prems(6) r(1,7,10) show ?case
    unfolding e by (simp add: add.assoc)
qed

section \<open>\<open>chaining_tests\<close>\<close>

definition chain_test_world :: "time list \<Rightarrow> chain_world" where
  "chain_test_world instants = \<lparr>cw_chaining = Map.empty, cw_seconds = 0, cw_draws = 0, cw_read = (\<lambda>_. 0),
     cw_db = mock_sqlite_transaction instants\<rparr>"

definition start_chaining :: "queue_set \<Rightarrow> chain_world test" where
  "start_chaining queues = sx_modify (\<lambda>w. w\<lparr>cw_chaining := chaining_new queues\<rparr>)"

definition fruit_queue :: "string \<Rightarrow> bool \<Rightarrow> queue_config" where
  "fruit_queue name chained = \<lparr>qc_name = name, qc_weight = 1, qc_chained = chained, qc_server_signing = False\<rparr>"

fun granted :: "reply \<Rightarrow> bool" where
  "granted (Granted _ _) \<longleftrightarrow> True"
| "granted InternalError \<longleftrightarrow> False"

text \<open>The receiving half of a request: there is an answer, and it is not an error.\<close>

definition recv_granted :: "(nat \<Rightarrow> string) \<Rightarrow> client \<Rightarrow> string \<Rightarrow> (chain_world, test_failure, reply) sx" where
  "recv_granted tok c q =
     sx_bind (recv tok WAIT_FUEL c q) (\<lambda>result.
     sx_bind (assert_that (result \<noteq> None)) (\<lambda>_.
     sx_bind (unwrap_option result) (\<lambda>r.
     sx_bind (assert_that (granted r)) (\<lambda>_. sx_return r))))"

definition it_should_lock_queue :: "(nat \<Rightarrow> string) \<Rightarrow> chain_world test" where
  "it_should_lock_queue tok =
     sx_bind (start_chaining [fruit_queue ''banana'' True]) (\<lambda>_.
     sx_bind (on_chaining (chaining_lock (\<lambda>_. False) 1 ''banana'')) (\<lambda>_.
     sx_bind (recv_granted tok 1 ''banana'') (\<lambda>_. sx_return ())))"

definition it_should_wait_timeout_to_lock_queue :: "(nat \<Rightarrow> string) \<Rightarrow> chain_world test" where
  "it_should_wait_timeout_to_lock_queue tok =
     sx_bind (start_chaining [fruit_queue ''banana'' True]) (\<lambda>_.
     sx_bind (sx_get cw_seconds) (\<lambda>time_now.
     sx_bind (on_chaining (chaining_lock (\<lambda>_. False) 1 ''banana'')) (\<lambda>_.
     sx_bind (on_chaining (chaining_lock (\<lambda>_. False) 2 ''banana'')) (\<lambda>_.
     sx_bind (recv_granted tok 2 ''banana'') (\<lambda>_.
     sx_bind (sx_get cw_seconds) (\<lambda>now.
     assert_that (now - time_now = LOCK_TIMEOUT)))))))"

definition it_should_lock_many_queue :: "(nat \<Rightarrow> string) \<Rightarrow> chain_world test" where
  "it_should_lock_many_queue tok =
     sx_bind (start_chaining [fruit_queue ''banana'' True, fruit_queue ''orange'' True]) (\<lambda>_.
     sx_bind (sx_get cw_seconds) (\<lambda>time_now.
     sx_bind (on_chaining (chaining_lock (\<lambda>_. False) 1 ''banana'')) (\<lambda>_.
     sx_bind (recv_granted tok 1 ''banana'') (\<lambda>_.
     sx_bind (on_chaining (chaining_lock (\<lambda>_. False) 2 ''orange'')) (\<lambda>_.
     sx_bind (recv_granted tok 2 ''orange'') (\<lambda>_.
     sx_bind (sx_get cw_seconds) (\<lambda>now.
     assert_that (now - time_now < LOCK_TIMEOUT))))))))"

definition it_should_unlock_queue :: "(nat \<Rightarrow> string) \<Rightarrow> chain_world test" where
  "it_should_unlock_queue tok =
     sx_bind (start_chaining [fruit_queue ''banana'' True]) (\<lambda>_.
     sx_bind (sx_get cw_seconds) (\<lambda>time_now.
     sx_bind (on_chaining (chaining_lock (\<lambda>_. False) 1 ''banana'')) (\<lambda>_.
     sx_bind (recv tok WAIT_FUEL 1 ''banana'') (\<lambda>_.
     sx_bind (on_chaining (chaining_unlock (\<lambda>_. False) ''banana'')) (\<lambda>_.
     sx_bind (on_chaining (chaining_lock (\<lambda>_. False) 1 ''banana'')) (\<lambda>_.
     sx_bind (recv_granted tok 1 ''banana'') (\<lambda>_.
     sx_bind (sx_get cw_seconds) (\<lambda>now.
     assert_that (now - time_now < LOCK_TIMEOUT)))))))))"

definition it_should_return_chained_queue :: "chain_world test" where
  "it_should_return_chained_queue =
     sx_bind (start_chaining [fruit_queue ''banana'' True]) (\<lambda>_.
     sx_bind (sx_get cw_chaining) (\<lambda>chaining. assert_that (is_chained_queue chaining ''banana'')))"

definition it_should_return_not_chained_queue :: "chain_world test" where
  "it_should_return_not_chained_queue =
     sx_bind (start_chaining [fruit_queue ''banana'' False]) (\<lambda>_.
     sx_bind (sx_get cw_chaining) (\<lambda>chaining. assert_that (\<not> is_chained_queue chaining ''banana'')))"

fun reply_token :: "reply \<Rightarrow> string option" where
  "reply_token (Granted t _) = Some t"
| "reply_token InternalError = None"

definition it_should_return_token_valid :: "(nat \<Rightarrow> string) \<Rightarrow> chain_world test" where
  "it_should_return_token_valid tok =
     sx_bind (start_chaining [fruit_queue ''banana'' True]) (\<lambda>_.
     sx_bind (on_chaining (chaining_lock (\<lambda>_. False) 1 ''banana'')) (\<lambda>_.
     sx_bind (recv_granted tok 1 ''banana'') (\<lambda>result.
     sx_bind (unwrap_option (reply_token result)) (\<lambda>lock_token.
     sx_bind (sx_get cw_chaining) (\<lambda>chaining. assert_that (is_valid_token chaining ''banana'' lock_token))))))"

definition it_should_return_token_invalid :: "chain_world test" where
  "it_should_return_token_invalid =
     sx_bind (start_chaining [fruit_queue ''banana'' True]) (\<lambda>_.
     sx_bind (sx_get cw_chaining) (\<lambda>chaining. assert_that (\<not> is_valid_token chaining ''banana'' ''invalid'')))"

section \<open>The tests pass\<close>

lemmas recv_numeral = recv.simps(2) [of _ "pred_numeral k" for k, folded numeral_eq_Suc]

lemmas chain_test_defs =
  chain_test_world_def start_chaining_def fruit_queue_def recv_granted_def on_chaining_def chaining_new_def
  chaining_lock_def chaining_unlock_def chain_queue_new_def LOCK_BUFFER_def UNLOCK_BUFFER_def WAIT_FUEL_def recv_numeral answers_def
  task_ready_def run_task_def task_turn_def lock_reply_def

lemma lock_queue_passes: "passes (it_should_lock_queue tok) (chain_test_world instants)"
  by (simp add: it_should_lock_queue_def chain_test_defs harness_defs fixture_defs storage_ops)

lemma lock_many_passes: "passes (it_should_lock_many_queue tok) (chain_test_world instants)"
  by (simp add: it_should_lock_many_queue_def chain_test_defs LOCK_TIMEOUT_def harness_defs fixture_defs storage_ops)

lemma unlock_passes: "passes (it_should_unlock_queue tok) (chain_test_world instants)"
  by (simp add: it_should_unlock_queue_def chain_test_defs LOCK_TIMEOUT_def harness_defs fixture_defs storage_ops)

lemma chained_passes: "passes it_should_return_chained_queue (chain_test_world instants)"
  by (simp add: it_should_return_chained_queue_def is_chained_queue_def chain_test_defs harness_defs)

lemma not_chained_passes: "passes it_should_return_not_chained_queue (chain_test_world instants)"
  by (simp add: it_should_return_not_chained_queue_def is_chained_queue_def chain_test_defs harness_defs)

lemma token_valid_passes: "passes (it_should_return_token_valid tok) (chain_test_world instants)"
  by (simp add: it_should_return_token_valid_def is_valid_token_def current_token_def chain_test_defs
      harness_defs fixture_defs storage_ops)

lemma token_invalid_passes: "passes it_should_return_token_invalid (chain_test_world instants)"
  by (simp add: it_should_return_token_invalid_def is_valid_token_def current_token_def chain_test_defs harness_defs)

lemma wait_timeout_passes: "passes (it_should_wait_timeout_to_lock_queue tok) (chain_test_world instants)"
proof -
  let ?s = "chain_queue_new\<lparr>cq_requests := [1, 2], cq_arrived := [1, 2]\<rparr>"
  let ?w = "chain_test_world instants\<lparr>cw_chaining := (chaining_new [fruit_queue ''banana'' True])(''banana'' \<mapsto> ?s)\<rparr>"
  have ready: "nothing_unread 2 ?s ?w" "storage_ready ?w"
    by (simp_all add: nothing_unread_def answers_def chain_queue_new_def storage_ready_def chain_test_world_def fixture_defs
        no_faults_def db_defs slots_wf_def)
  from recv_serves [of ?w "''banana''" ?s 1 "[2]" 2 tok 98, OF _ _ _ ready] obtain w1 s1 v where
    r: "recv tok (2 + 98) 2 ''banana'' ?w = recv tok 98 2 ''banana'' w1" "cw_chaining w1 ''banana'' = Some s1"
    "cq_phase s1 = Holding 1 (tok (cw_draws ?w)) 0" "cq_requests s1 = [2]" "cq_unlocks s1 = 0"
    "cq_replies s1 = [(1, Granted (tok (cw_draws ?w)) v)]" "cw_seconds w1 = 0" "cw_read w1 = (\<lambda>_. 0)" "storage_ready w1"
    by (simp add: chain_queue_new_def chain_test_world_def) blast
  have "recv tok (LOCK_TIMEOUT - 0 + 4 + (LOCK_TIMEOUT + 3) * length [] + 64) 2 ''banana'' w1 = recv tok 98 2 ''banana'' w1"
    by (simp add: LOCK_TIMEOUT_def)
  with lock_wait_exact_lemma [of w1 "''banana''" s1 1 _ 0 "[]" 2 "[]" tok 64] r obtain t v w2 where
    e: "recv tok 98 2 ''banana'' w1 = (Inr (Some (Granted t v)), w2)" "cw_seconds w2 = LOCK_TIMEOUT"
    by (auto simp: answers_def)
  with r(1) have "recv tok WAIT_FUEL 2 ''banana'' ?w = (Inr (Some (Granted t v)), w2)" by (simp add: WAIT_FUEL_def)
  with e(2) show ?thesis
    by (simp add: it_should_wait_timeout_to_lock_queue_def start_chaining_def fruit_queue_def recv_granted_def on_chaining_def
        chaining_new_def chaining_lock_def chain_queue_new_def LOCK_BUFFER_def chain_test_world_def harness_defs)
qed

definition chaining_tests :: "(nat \<Rightarrow> string) \<Rightarrow> chain_world test list" where
  "chaining_tests tok = [it_should_lock_queue tok, it_should_wait_timeout_to_lock_queue tok, it_should_lock_many_queue tok,
     it_should_unlock_queue tok, it_should_return_chained_queue, it_should_return_not_chained_queue,
     it_should_return_token_valid tok, it_should_return_token_invalid]"

lemma chaining_tests_pass: "list_all (\<lambda>t. passes t (chain_test_world instants)) (chaining_tests tok)"
  by (simp add: chaining_tests_def lock_queue_passes wait_timeout_passes lock_many_passes unlock_passes chained_passes
      not_chained_passes token_valid_passes token_invalid_passes)

section \<open>The waiting time\<close>

text \<open>C20. How long a lock can keep the others waiting.  When the lock of a queue is held and nobody gives it
  back, a client that waits behind \<open>length xs\<close> others is granted the lock, with a token that is valid at
  that moment, after exactly the rest of the current timeout and one full timeout for each of the others; and the
  run stays within the moves of the task.\<close>

theorem lock_wait_exact:
  assumes "chaining_ok (cw_chaining w)" "\<forall>n. length (tok n) = 8"
    "cw_chaining w q = Some s" "cq_phase s = Holding c1 t1 n" "n \<le> LOCK_TIMEOUT" "cq_unlocks s = 0"
    "cq_requests s = xs @ c # ys" "c \<notin> set xs" "length (answers c s) = cw_read w c" "storage_ready w"
    "LOCK_TIMEOUT - n + 4 + (LOCK_TIMEOUT + 3) * length xs \<le> fuel"
  shows "\<exists>t v w'. recv tok fuel c q w = (Inr (Some (Granted t v)), w') \<and>
    cw_seconds w' = cw_seconds w + (LOCK_TIMEOUT - n) + LOCK_TIMEOUT * length xs \<and>
    is_valid_token (cw_chaining w') q t \<and> chaining_ok (cw_chaining w')"
proof -
  obtain extra where f: "fuel = LOCK_TIMEOUT - n + 4 + (LOCK_TIMEOUT + 3) * length xs + extra"
    using assms(11) le_Suc_ex by blast
  obtain v w' where r: "recv tok fuel c q w = (Inr (Some (Granted (tok (cw_draws w + length xs)) v)), w')"
    "cw_seconds w' = cw_seconds w + (LOCK_TIMEOUT - n) + LOCK_TIMEOUT * length xs"
    "is_valid_token (cw_chaining w') q (tok (cw_draws w + length xs))"
    using lock_wait_exact_lemma [OF assms(3-10), of tok extra] unfolding f by blast
  moreover have "chaining_ok (cw_chaining w')" using recv_sound [OF r(1) assms(1)] assms(2) by blast
  ultimately show ?thesis by blast
qed

definition held_world :: chain_world where
  "held_world = chain_test_world []\<lparr>cw_chaining := [''banana'' \<mapsto> held_by_7\<lparr>cq_requests := [8, 9], cq_arrived := [7, 8, 9]\<rparr>]\<rparr>"

lemma held_world_ok: "chaining_ok (cw_chaining held_world)"
proof -
  have "chain_run [Request 8, Request 9] held_by_7 (held_by_7\<lparr>cq_requests := [8, 9], cq_arrived := [7, 8, 9]\<rparr>)"
    by (simp add: chain_step_simps held_by_7_def LOCK_BUFFER_def)
  from run_reachable [OF this held_by_7_reachable] show ?thesis by (simp add: chaining_ok_def held_world_def)
qed

theorem lock_wait_exact_witness:
  "\<exists>t v w'. recv (\<lambda>_. ''ijklmnop'') 67 9 ''banana'' held_world = (Inr (Some (Granted t v)), w') \<and> cw_seconds w' = 60"
proof -
  have "\<exists>t v w'. recv (\<lambda>_. ''ijklmnop'') 67 9 ''banana'' held_world = (Inr (Some (Granted t v)), w') \<and>
    cw_seconds w' = cw_seconds held_world + (LOCK_TIMEOUT - 0) + LOCK_TIMEOUT * length [8 :: nat] \<and>
    is_valid_token (cw_chaining w') ''banana'' t \<and> chaining_ok (cw_chaining w')"
    by (rule lock_wait_exact [OF held_world_ok, where s = "held_by_7\<lparr>cq_requests := [8, 9], cq_arrived := [7, 8, 9]\<rparr>"
          and ?c1.0 = 7 and ?t1.0 = "''abcdefgh''" and ys = "[]"])
      (simp_all add: held_world_def chain_test_world_def held_by_7_def answers_def storage_ready_def fixture_defs no_faults_def
        db_defs slots_wf_def LOCK_TIMEOUT_def)
  then show ?thesis by (auto simp: held_world_def chain_test_world_def LOCK_TIMEOUT_def)
qed

end
