(* ===== verification/Ledger_Fixture.thy ===== *)
theory Ledger_Fixture
  imports Tx_Validation Storage_Tests
begin

text \<open>
  The ledger that the unit tests of the ingest stage use, module \<open>ingest_tests\<close> of
  \<^verbatim>\<open>src/pipeline/ingest.rs\<close>: an adapter that answers with a fixed tip, fixed protocol parameters and five
  unspent outputs, and the tests on it.  The verdict of the tests is pallas' verdict on three transactions,
  so the tests are functions of the parameter \<open>pallas\<close>; what is proved is that nothing but that verdict
  decides them.  The protocol parameters are also the example of a round trip: for every set of parameters
  that the remote service can express, reading back its own message gives the parameters.
\<close>

section \<open>The tip and the outputs\<close>

definition BLOCK_SLOT :: u64 where
  "BLOCK_SLOT = 75139211"

definition BLOCK_HASH_BYTES :: bytes where
  "BLOCK_HASH_BYTES =
    [127, 78, 39, 223, 11, 203, 187, 52, 135, 20, 143, 204, 179, 96, 87, 177, 182, 107, 20, 103, 233, 81,
     164, 111, 86, 100, 110, 82, 216, 24, 103, 112]"

definition test_utxo_1 :: "string \<times> u32 \<times> bytes" where
  "test_utxo_1 = (''1239c5041f4086d058751fdcc469c2d6c623d77a1105d673e0a96a954b3ca367'', 0,
    [130, 88, 57, 0, 70, 147, 192, 172, 82, 93, 4, 92, 176, 164, 231, 91, 211, 173, 189, 105, 86, 179, 183,
     68, 232, 141, 33, 224, 65, 252, 155, 99, 13, 240, 146, 0, 100, 25, 228, 105, 224, 199, 120, 118, 164,
     153, 18, 75, 249, 3, 115, 91, 67, 76, 121, 137, 247, 168, 9, 10, 26, 0, 76, 75, 64])"

definition test_utxo_2 :: "string \<times> u32 \<times> bytes" where
  "test_utxo_2 = (''5a3b16ae983c3623b6f516a1a1bcafc124ddd7bebf8406f541c27f24a97d8d8c'', 0,
    [163, 0, 88, 29, 112, 250, 174, 96, 7, 44, 69, 209, 33, 182, 229, 138, 227, 92, 98, 70, 147, 238, 61,
     173, 158, 168, 237, 118, 94, 182, 247, 111, 159, 1, 26, 0, 24, 203, 38, 3, 216, 24, 88, 173, 130, 3, 88,
     169, 88, 167, 1, 1, 0, 50, 50, 50, 50, 50, 50, 37, 51, 48, 2, 50, 50, 50, 50, 50, 83, 51, 0, 115, 55,
     14, 144, 1, 24, 4, 27, 170, 0, 17, 50, 51, 34, 83, 51, 0, 163, 55, 14, 144, 0, 24, 5, 155, 170, 0, 81,
     50, 50, 83, 51, 0, 243, 1, 16, 2, 21, 51, 48, 12, 51, 112, 233, 0, 1, 128, 105, 186, 160, 3, 19, 55, 30,
     110, 184, 192, 64, 192, 56, 221, 80, 3, 155, 174, 48, 16, 48, 14, 55, 84, 96, 32, 96, 28, 110, 168, 0,
     197, 133, 141, 215, 24, 7, 128, 9, 128, 97, 186, 160, 5, 22, 48, 12, 0, 19, 0, 195, 0, 208, 1, 48, 9,
     55, 84, 0, 34, 198, 1, 70, 1, 96, 6, 96, 18, 0, 70, 1, 0, 4, 96, 16, 0, 38, 0, 134, 234, 128, 4, 82, 97,
     54, 86, 87, 52, 170, 231, 85, 92, 242, 171, 159, 87, 66, 174, 137])"

definition test_utxo_3 :: "string \<times> u32 \<times> bytes" where
  "test_utxo_3 = (''5c7b2d3c2b871962e3af3785013addb1c66a60c18db73482109aee3f90400ed4'', 0,
    [163, 0, 88, 29, 112, 250, 174, 96, 7, 44, 69, 209, 33, 182, 229, 138, 227, 92, 98, 70, 147, 238, 61,
     173, 158, 168, 237, 118, 94, 182, 247, 111, 159, 1, 26, 5, 245, 225, 0, 2, 130, 1, 216, 24, 74, 216,
     121, 159, 69, 104, 101, 108, 108, 111, 255])"

definition test_utxo_4 :: "string \<times> u32 \<times> bytes" where
  "test_utxo_4 = (''1d45a092dcfc7e074e33476640d585c9c6853c452991ca053f469f2cd3837d4b'', 0,
    [163, 0, 88, 29, 112, 4, 190, 241, 104, 195, 74, 168, 212, 116, 34, 35, 49, 211, 6, 86, 117, 79, 223,
     213, 150, 0, 87, 66, 192, 251, 151, 137, 37, 1, 26, 0, 15, 66, 64, 2, 130, 1, 216, 24, 67, 216, 121, 128])"

definition test_utxo_5 :: "string \<times> u32 \<times> bytes" where
  "test_utxo_5 = (''97d3baae626b92325447b97256fb07662c8183dca99c53b93916093f2b92cbf3'', 0,
    [130, 88, 57, 0, 70, 147, 192, 172, 82, 93, 4, 92, 176, 164, 231, 91, 211, 173, 189, 105, 86, 179, 183,
     68, 232, 141, 33, 224, 65, 252, 155, 99, 13, 240, 146, 0, 100, 25, 228, 105, 224, 199, 120, 118, 164,
     153, 18, 75, 249, 3, 115, 91, 67, 76, 121, 137, 247, 168, 9, 10, 26, 0, 76, 75, 64])"


text \<open>\<open>parse_hash\<close> is \<open>Hash::from_str\<close>.\<close>

definition test_utxos :: "(string \<times> u32 \<times> bytes) list" where
  "test_utxos = [test_utxo_1, test_utxo_2, test_utxo_3, test_utxo_4, test_utxo_5]"

fun collect_dummies ::
  "(string \<Rightarrow> bytes option) \<Rightarrow> Era \<Rightarrow> (string \<times> u32 \<times> bytes) list \<Rightarrow> utxo_map \<Rightarrow> (u5c_error, utxo_map) outcome" where
  "collect_dummies parse_hash era [] utxos = Inr utxos"
| "collect_dummies parse_hash era ((hash_str, index, cbor) # rest) utxos =
     res_bind (option_unwrap (parse_hash hash_str)) (\<lambda>hash.
     collect_dummies parse_hash era rest (AList.update (hash, index) (era, cbor) utxos))"

definition build_dummy_utxos :: "(string \<Rightarrow> bytes option) \<Rightarrow> Era \<Rightarrow> (u5c_error, utxo_map) outcome" where
  "build_dummy_utxos parse_hash era = collect_dummies parse_hash era test_utxos []"

section \<open>The protocol parameters\<close>

definition mock_plutus_v1 :: "i64 list" where
  "mock_plutus_v1 =
    [100788, 420, 1, 1, 1000, 173, 0, 1, 1000, 59957, 4, 1, 11183, 32, 201305, 8356, 4, 16000, 100, 16000,
     100, 16000, 100, 16000, 100, 16000, 100, 16000, 100, 100, 100, 16000, 100, 94375, 32, 132994, 32, 61462,
     4, 72010, 178, 0, 1, 22151, 32, 91189, 769, 4, 2, 85848, 228465, 122, 0, 1, 1, 1000, 42921, 4, 2, 24548,
     29498, 38, 1, 898148, 27279, 1, 51775, 558, 1, 39184, 1000, 60594, 1, 141895, 32, 83150, 32, 15299, 32,
     76049, 1, 13169, 4, 22100, 10]"

definition mock_plutus_v2 :: "i64 list" where
  "mock_plutus_v2 =
    [100788, 420, 1, 1, 1000, 173, 0, 1, 1000, 59957, 4, 1, 11183, 32, 201305, 8356, 4, 16000, 100, 16000,
     100, 16000, 100, 16000, 100, 16000, 100, 16000, 100, 100, 100, 16000, 100, 94375, 32, 132994, 32, 61462,
     4, 72010, 178, 0, 1, 22151, 32, 91189, 769, 4, 2, 85848, 228465, 122, 0, 1, 1, 1000, 42921, 4, 2, 24548,
     29498, 38, 1, 898148, 27279, 1, 51775, 558, 1, 39184, 1000, 60594, 1, 141895, 32, 83150, 32, 15299, 32,
     76049, 1, 13169, 4, 22100, 10, 28999, 74, 1, 28999, 74, 1, 43285, 552, 1, 44749, 541, 1, 33852, 32,
     68246, 32, 72362, 32, 7243, 32, 7391, 32, 11546, 32, 85848, 228465, 122, 0, 1, 1, 90434, 519, 0, 1,
     74433, 32, 85848, 228465, 122, 0, 1, 1, 85848, 228465, 122, 0, 1, 1, 955506, 213312, 0, 2, 270652,
     22588, 4, 1457325, 64566, 4, 20467, 1, 4, 0, 141992, 32, 100788, 420, 1, 1, 81663, 32, 59498, 32, 20142,
     32, 24588, 32, 20744, 32, 25933, 32, 24623, 32, 43053543, 10, 53384111, 14333, 10]"

definition mock_plutus_v3 :: "i64 list" where
  "mock_plutus_v3 =
    [100788, 420, 1, 1, 1000, 173, 0, 1, 1000, 59957, 4, 1, 11183, 32, 201305, 8356, 4, 16000, 100, 16000,
     100, 16000, 100, 16000, 100, 16000, 100, 16000, 100, 100, 100, 16000, 100, 94375, 32, 132994, 32, 61462,
     4, 72010, 178, 0, 1, 22151, 32, 91189, 769, 4, 2, 85848, 123203, 7305, - 900, 1716, 549, 57, 85848, 0,
     1, 1, 1000, 42921, 4, 2, 24548, 29498, 38, 1, 898148, 27279, 1, 51775, 558, 1, 39184, 1000, 60594, 1,
     141895, 32, 83150, 32, 15299, 32, 76049, 1, 13169, 4, 22100, 10, 28999, 74, 1, 28999, 74, 1, 43285, 552,
     1, 44749, 541, 1, 33852, 32, 68246, 32, 72362, 32, 7243, 32, 7391, 32, 11546, 32, 85848, 123203, 7305,
     - 900, 1716, 549, 57, 85848, 0, 1, 90434, 519, 0, 1, 74433, 32, 85848, 123203, 7305, - 900, 1716, 549,
     57, 85848, 0, 1, 1, 85848, 123203, 7305, - 900, 1716, 549, 57, 85848, 0, 1, 955506, 213312, 0, 2,
     270652, 22588, 4, 1457325, 64566, 4, 20467, 1, 4, 0, 141992, 32, 100788, 420, 1, 1, 81663, 32, 59498,
     32, 20142, 32, 24588, 32, 20744, 32, 25933, 32, 24623, 32, 43053543, 10, 53384111, 14333, 10, 43574283,
     26308, 10]"

definition ratio :: "u64 \<Rightarrow> u64 \<Rightarrow> rational" where
  "ratio n d = \<lparr>rn_numerator = n, rn_denominator = d\<rparr>"

definition mock_pool_thresholds :: pool_thresholds where
  "mock_pool_thresholds =
     \<lparr>pvt_motion_no_confidence = ratio 51 100, pvt_committee_normal = ratio 51 100,
      pvt_committee_no_confidence = ratio 51 100, pvt_hard_fork_initiation = ratio 51 100,
      pvt_security_voting_threshold = ratio 51 100\<rparr>"

definition mock_drep_thresholds :: drep_thresholds where
  "mock_drep_thresholds =
     \<lparr>dvt_motion_no_confidence = ratio 67 100, dvt_committee_normal = ratio 67 100,
      dvt_committee_no_confidence = ratio 3 5, dvt_update_constitution = ratio 3 4,
      dvt_hard_fork_initiation = ratio 3 5, dvt_pp_network_group = ratio 67 100,
      dvt_pp_economic_group = ratio 67 100, dvt_pp_technical_group = ratio 67 100,
      dvt_pp_governance_group = ratio 3 4, dvt_treasury_withdrawal = ratio 67 100\<rparr>"

definition mock_pparams :: ConwayProtParams where
  "mock_pparams =
     \<lparr>c_system_start = ''2022-10-25T00:00:00Z'', c_epoch_length = 86400, c_slot_length = 1,
      c_minfee_a = 44, c_minfee_b = 155381, c_max_block_body_size = 90112, c_max_transaction_size = 16384,
      c_max_block_header_size = 1100, c_key_deposit = 2000000, c_pool_deposit = 500000000,
      c_desired_number_of_stake_pools = 500, c_protocol_version = (9, 0), c_min_pool_cost = 170000000,
      c_ada_per_utxo_byte = 4310, c_plutus_v1 = Some mock_plutus_v1, c_plutus_v2 = Some mock_plutus_v2,
      c_plutus_v3 = Some mock_plutus_v3, c_mem_price = ratio 577 10000, c_step_price = ratio 721 10000000,
      c_max_tx_ex_units = \<lparr>exu_steps = 10000000000, exu_memory = 14000000\<rparr>,
      c_max_block_ex_units = \<lparr>exu_steps = 20000000000, exu_memory = 62000000\<rparr>,
      c_max_value_size = 5000, c_collateral_percentage = 150, c_max_collateral_inputs = 3,
      c_expansion_rate = ratio 6442451 2147483648, c_treasury_growth_rate = ratio 13421773 67108864,
      c_maximum_epoch = 18, c_pool_pledge_influence = ratio 5033165 16777216,
      c_pool_voting_thresholds = mock_pool_thresholds, c_drep_voting_thresholds = mock_drep_thresholds,
      c_min_committee_size = 0, c_committee_term_limit = 365, c_governance_action_validity_period = 30,
      c_governance_action_deposit = 100000000000, c_drep_deposit = 500000000, c_drep_inactivity_period = 20,
      c_minfee_refscript_cost_per_byte = ratio 15 1\<rparr>"

section \<open>\<open>MockU5CAdapter\<close>\<close>

definition mock_fetch_utxos ::
  "(string \<Rightarrow> bytes option) \<Rightarrow> utxo_ref list \<Rightarrow> Era \<Rightarrow> (u5c_error, utxo_map) outcome" where
  "mock_fetch_utxos parse_hash utxo_refs era =
     res_bind (build_dummy_utxos parse_hash era) (\<lambda>dummy_utxos.
     Inr (fold (\<lambda>key utxos. case map_of dummy_utxos key of
            None \<Rightarrow> utxos | Some cbor \<Rightarrow> AList.update key cbor utxos) utxo_refs []))"

definition mock_u5c_adapter :: "(string \<Rightarrow> bytes option) \<Rightarrow> u5c_adapter" where
  "mock_u5c_adapter parse_hash =
     \<lparr>a_tip = Inr (BLOCK_SLOT, BLOCK_HASH_BYTES), a_utxos = mock_fetch_utxos parse_hash,
      a_pparams = (\<lambda>_. Inr mock_pparams)\<rparr>"

section \<open>The tests\<close>

text \<open>A call of code that may panic.\<close>

definition call_outcome :: "('e, 'a) outcome \<Rightarrow> ('s, test_failure, 'e + 'a) sx" where
  "call_outcome r = (case r of
     Inl Panic \<Rightarrow> sx_throw Panicked
   | Inl (Err e) \<Rightarrow> sx_return (Inl e)
   | Inr x \<Rightarrow> sx_return (Inr x))"

text \<open>The common beginning of the tests: \<open>unhex\<close> is \<open>hex::decode\<close> and \<open>tx_cbor\<close> the text of the test file.\<close>

definition decode_test_tx ::
  "('tx, 'out, 'rep) pallas \<Rightarrow> (string \<Rightarrow> bytes option) \<Rightarrow> string \<Rightarrow> (db, test_failure, 'tx) sx" where
  "decode_test_tx pl unhex tx_cbor =
     sx_bind (unwrap_option (unhex tx_cbor)) (\<lambda>raw.
     sx_bind utc_now (\<lambda>now_1. sx_bind utc_now (\<lambda>now_2.
     let tx = (Transaction_new ''1'' raw now_1 now_2)\<lparr>tx_status := Pending\<rparr> in
     unwrap_option (pl_decode pl (tx_raw tx)))))"

definition it_should_validate_tx ::
  "('tx, 'out, 'rep) pallas \<Rightarrow> (string \<Rightarrow> bytes option) \<Rightarrow> (string \<Rightarrow> bytes option) \<Rightarrow> string \<Rightarrow> db test" where
  "it_should_validate_tx pl parse_hash unhex conway6 =
     sx_bind (decode_test_tx pl unhex conway6) (\<lambda>metx.
     sx_bind (call_outcome (validate_tx pl (mock_u5c_adapter parse_hash) metx)) (\<lambda>validation_result.
     assert_that (is_ok validation_result)))"

definition it_should_evaluate_tx ::
  "('tx, 'out, 'rep) pallas \<Rightarrow> (string \<Rightarrow> bytes option) \<Rightarrow> (string \<Rightarrow> bytes option) \<Rightarrow> string \<Rightarrow> db test" where
  "it_should_evaluate_tx pl parse_hash unhex conway6 =
     sx_bind (decode_test_tx pl unhex conway6) (\<lambda>metx.
     sx_bind (call_outcome (evaluate_tx pl (mock_u5c_adapter parse_hash) metx)) (\<lambda>evaluation_result.
     assert_that (is_ok evaluation_result)))"

definition it_should_validate_and_evaluate_tx ::
  "('tx, 'out, 'rep) pallas \<Rightarrow> (string \<Rightarrow> bytes option) \<Rightarrow> (string \<Rightarrow> bytes option) \<Rightarrow> string \<Rightarrow> db test" where
  "it_should_validate_and_evaluate_tx pl parse_hash unhex conway6 =
     sx_bind (decode_test_tx pl unhex conway6) (\<lambda>metx.
     sx_bind (call_outcome (validate_tx pl (mock_u5c_adapter parse_hash) metx)) (\<lambda>validation_result.
     sx_bind (call_outcome (evaluate_tx pl (mock_u5c_adapter parse_hash) metx)) (\<lambda>evaluation_result.
     sx_bind (assert_that (is_ok validation_result)) (\<lambda>_.
     assert_that (is_ok evaluation_result)))))"

definition it_should_not_validate_tx ::
  "('tx, 'out, 'rep) pallas \<Rightarrow> (string \<Rightarrow> bytes option) \<Rightarrow> (string \<Rightarrow> bytes option) \<Rightarrow> string \<Rightarrow> db test" where
  "it_should_not_validate_tx pl parse_hash unhex conway3 =
     sx_bind (decode_test_tx pl unhex conway3) (\<lambda>metx.
     sx_bind (call_outcome (validate_tx pl (mock_u5c_adapter parse_hash) metx)) (\<lambda>validation_result.
     assert_that (\<not> is_ok validation_result)))"

definition it_should_not_evaluate_tx ::
  "('tx, 'out, 'rep) pallas \<Rightarrow> (string \<Rightarrow> bytes option) \<Rightarrow> (string \<Rightarrow> bytes option) \<Rightarrow> string \<Rightarrow> db test" where
  "it_should_not_evaluate_tx pl parse_hash unhex conway4 =
     sx_bind (decode_test_tx pl unhex conway4) (\<lambda>metx.
     sx_bind (call_outcome (evaluate_tx pl (mock_u5c_adapter parse_hash) metx)) (\<lambda>evaluation_result.
     assert_that (\<not> is_ok evaluation_result)))"

section \<open>What decides the tests\<close>

text \<open>The outputs of the fixture: every hash is readable, and they are five different ones.\<close>

definition hashes_parse :: "(string \<Rightarrow> bytes option) \<Rightarrow> bool" where
  "hashes_parse parse_hash \<longleftrightarrow> (\<forall>u\<in>set test_utxos. parse_hash (fst u) \<noteq> None)"

lemma collect_dummies_ok:
  "\<forall>u\<in>set us. parse_hash (fst u) \<noteq> None \<Longrightarrow> \<exists>utxos'. collect_dummies parse_hash era us utxos = Inr utxos'"
proof (induction us arbitrary: utxos)
  case (Cons u us)
  obtain s i c where u: "u = (s, i, c)" by (cases u)
  from Cons.prems obtain h where "parse_hash s = Some h" by (auto simp: u)
  with Cons show ?case by (simp add: u del: res_bind_eq_Inr)
qed simp

lemma collect_dummies_era:
  "collect_dummies parse_hash era us utxos = Inr utxos' \<Longrightarrow> \<forall>p\<in>set utxos. fst (snd p) = era \<Longrightarrow>
   \<forall>p\<in>set utxos'. fst (snd p) = era"
proof (induction parse_hash era us utxos arbitrary: utxos' rule: collect_dummies.induct)
  case (2 parse_hash era hash_str index cbor rest utxos)
  then obtain hash where h: "parse_hash hash_str = Some hash"
    "collect_dummies parse_hash era rest (AList.update (hash, index) (era, cbor) utxos) = Inr utxos'" by auto
  have "\<forall>p\<in>set (AList.update (hash, index) (era, cbor) utxos). fst (snd p) = era"
    using 2(3) by (induction utxos) (auto split: if_splits)
  with 2(1) h show ?case by blast
qed simp

lemma fold_update_map_of:
  "map_of (fold (\<lambda>key utxos. case m key of None \<Rightarrow> utxos | Some c \<Rightarrow> AList.update key c utxos) refs utxos) key =
     (if key \<in> set refs \<and> m key \<noteq> None then m key else map_of utxos key)"
  by (induction refs arbitrary: utxos) (auto simp: update_conv' split: option.splits)

lemma mock_fetch_utxos_ok:
  assumes "hashes_parse parse_hash"
  shows "\<exists>dummies utxos. build_dummy_utxos parse_hash era = Inr dummies \<and> mock_fetch_utxos parse_hash refs era = Inr utxos \<and>
    (\<forall>key. map_of utxos key = (if key \<in> set refs then map_of dummies key else None))"
proof -
  obtain dummies where d: "build_dummy_utxos parse_hash era = Inr dummies"
    using collect_dummies_ok assms unfolding build_dummy_utxos_def hashes_parse_def by blast
  let ?utxos = "fold (\<lambda>key utxos. case map_of dummies key of
      None \<Rightarrow> utxos | Some cbor \<Rightarrow> AList.update key cbor utxos) refs []"
  have "map_of ?utxos key = (if key \<in> set refs then map_of dummies key else None)" for key
    by (cases "map_of dummies key") (simp_all add: fold_update_map_of)
  with d show ?thesis by (simp add: mock_fetch_utxos_def)
qed

text \<open>The environment in which the ledger rules are asked.\<close>

definition mock_env :: "u64 \<Rightarrow> validation_env" where
  "mock_env net = \<lparr>env_prot_params = mock_pparams, env_prot_magic = network_magic, env_block_slot = BLOCK_SLOT,
     env_network_id = ucast net\<rparr>"

definition phase1_accepts :: "('tx, 'out, 'rep) pallas \<Rightarrow> u64 \<Rightarrow> utxo_map \<Rightarrow> 'tx \<Rightarrow> bool" where
  "phase1_accepts pl net utxos tx \<longleftrightarrow> (\<exists>outs. decode_outputs pl utxos = Inr outs \<and> pl_phase1 pl tx (mock_env net) outs)"

lemma decode_outputs_never_panics: "decode_outputs pl utxos \<noteq> Inl Panic"
proof (induction pl utxos rule: decode_outputs.induct)
  case (2 pl h i c rest)
  then show ?case by (cases "pl_output pl c"; cases "decode_outputs pl rest") auto
qed simp

lemma validate_on_fixture:
  assumes "pl_network_id pl 2 = Some net" "mock_fetch_utxos parse_hash (input_refs pl tx) (pl_era pl tx) = Inr utxos"
  shows "validate_tx pl (mock_u5c_adapter parse_hash) tx \<noteq> Inl Panic \<and>
    ((\<exists>u. validate_tx pl (mock_u5c_adapter parse_hash) tx = Inr u) \<longleftrightarrow> phase1_accepts pl net utxos tx)"
proof (cases "decode_outputs pl utxos")
  case (Inl f)
  moreover from this decode_outputs_never_panics [of pl utxos] obtain e where "f = Err e" by (cases f) auto
  ultimately show ?thesis
    using assms by (simp add: validate_tx_def mock_u5c_adapter_def BLOCK_HASH_BYTES_def phase1_accepts_def network_magic_def)
next
  case (Inr outs)
  with assms show ?thesis
    by (simp add: validate_tx_def mock_u5c_adapter_def BLOCK_HASH_BYTES_def phase1_accepts_def mock_env_def network_magic_def Let_def)
qed

lemma evaluate_on_fixture:
  assumes "mock_fetch_utxos parse_hash (input_refs pl tx) (pl_era pl tx) = Inr utxos"
  shows "evaluate_tx pl (mock_u5c_adapter parse_hash) tx = ok_or Phase2Failed (pl_phase2 pl tx mock_pparams utxos)"
  using assms by (simp add: evaluate_tx_def mock_u5c_adapter_def)

text \<open>
  The five tests, for the transaction \<open>tx\<close> that the file of the test decodes to: the fixture neither panics nor
  fails, and whether a test passes is what the two phases of the ledger rules say about \<open>tx\<close>.
\<close>

lemma ingest_tests_decided:
  assumes "pl_network_id pl 2 = Some net" "hashes_parse parse_hash" "unhex file = Some raw" "pl_decode pl raw = Some tx"
    "mock_fetch_utxos parse_hash (input_refs pl tx) (pl_era pl tx) = Inr utxos"
  shows "passes (it_should_validate_tx pl parse_hash unhex file) d \<longleftrightarrow> phase1_accepts pl net utxos tx"
    "passes (it_should_not_validate_tx pl parse_hash unhex file) d \<longleftrightarrow> \<not> phase1_accepts pl net utxos tx"
    "passes (it_should_evaluate_tx pl parse_hash unhex file) d \<longleftrightarrow> pl_phase2 pl tx mock_pparams utxos \<noteq> None"
    "passes (it_should_not_evaluate_tx pl parse_hash unhex file) d \<longleftrightarrow> pl_phase2 pl tx mock_pparams utxos = None"
    "passes (it_should_validate_and_evaluate_tx pl parse_hash unhex file) d \<longleftrightarrow>
       phase1_accepts pl net utxos tx \<and> pl_phase2 pl tx mock_pparams utxos \<noteq> None"
proof -
  obtain d1 where dec: "decode_test_tx pl unhex file d = (Inr tx, d1)"
    using assms(3,4) by (simp add: decode_test_tx_def unwrap_option_def sx_defs utc_now_eq Transaction_new_def Let_def)
  note v = validate_on_fixture [OF assms(1,5)] and e = evaluate_on_fixture [OF assms(5)]
  obtain vr where vr: "\<And>s. call_outcome (validate_tx pl (mock_u5c_adapter parse_hash) tx) s = (Inr vr :: test_failure + _, s :: db)"
    "is_ok vr \<longleftrightarrow> phase1_accepts pl net utxos tx"
    using v by (cases "validate_tx pl (mock_u5c_adapter parse_hash) tx"; cases "projl (validate_tx pl (mock_u5c_adapter parse_hash) tx)")
      (fastforce simp: call_outcome_def sx_defs)+
  obtain er where er: "\<And>s. call_outcome (evaluate_tx pl (mock_u5c_adapter parse_hash) tx) s = (Inr er :: test_failure + _, s :: db)"
    "is_ok er \<longleftrightarrow> pl_phase2 pl tx mock_pparams utxos \<noteq> None"
    unfolding e by (cases "pl_phase2 pl tx mock_pparams utxos") (fastforce simp: call_outcome_def sx_defs)+
  show "passes (it_should_validate_tx pl parse_hash unhex file) d \<longleftrightarrow> phase1_accepts pl net utxos tx"
    "passes (it_should_not_validate_tx pl parse_hash unhex file) d \<longleftrightarrow> \<not> phase1_accepts pl net utxos tx"
    using vr by (simp_all add: it_should_validate_tx_def it_should_not_validate_tx_def passes_def sx_bind_def dec assert_that_def
        sx_return_def sx_throw_def)
  show "passes (it_should_evaluate_tx pl parse_hash unhex file) d \<longleftrightarrow> pl_phase2 pl tx mock_pparams utxos \<noteq> None"
    "passes (it_should_not_evaluate_tx pl parse_hash unhex file) d \<longleftrightarrow> pl_phase2 pl tx mock_pparams utxos = None"
    using er by (simp_all add: it_should_evaluate_tx_def it_should_not_evaluate_tx_def passes_def sx_bind_def dec assert_that_def
        sx_return_def sx_throw_def)
  show "passes (it_should_validate_and_evaluate_tx pl parse_hash unhex file) d \<longleftrightarrow>
       phase1_accepts pl net utxos tx \<and> pl_phase2 pl tx mock_pparams utxos \<noteq> None"
    using vr er by (simp add: it_should_validate_and_evaluate_tx_def passes_def sx_bind_def dec assert_that_def
        sx_return_def sx_throw_def)
qed

section \<open>Protocol parameters: the round trip\<close>

text \<open>The message of the service for given parameters.\<close>

definition to_rational :: "rational \<Rightarrow> rpc_rational" where
  "to_rational r = \<lparr>rr_numerator = ucast (rn_numerator r), rr_denominator = ucast (rn_denominator r)\<rparr>"

definition to_rpc :: "ConwayProtParams \<Rightarrow> rpc_params" where
  "to_rpc c = \<lparr>p_coins_per_utxo_byte = c_ada_per_utxo_byte c, p_max_tx_size = ucast (c_max_transaction_size c),
     p_min_fee_coefficient = ucast (c_minfee_a c), p_min_fee_constant = ucast (c_minfee_b c),
     p_max_block_body_size = ucast (c_max_block_body_size c), p_max_block_header_size = ucast (c_max_block_header_size c),
     p_stake_key_deposit = c_key_deposit c, p_pool_deposit = c_pool_deposit c,
     p_desired_number_of_pools = ucast (c_desired_number_of_stake_pools c),
     p_pool_influence = Some (to_rational (c_pool_pledge_influence c)),
     p_monetary_expansion = Some (to_rational (c_expansion_rate c)),
     p_treasury_expansion = Some (to_rational (c_treasury_growth_rate c)), p_min_pool_cost = c_min_pool_cost c,
     p_protocol_version = Some (map_prod ucast ucast (c_protocol_version c)),
     p_max_value_size = ucast (c_max_value_size c), p_collateral_percentage = ucast (c_collateral_percentage c),
     p_max_collateral_inputs = ucast (c_max_collateral_inputs c),
     p_cost_models = Some \<lparr>cm_plutus_v1 = c_plutus_v1 c, cm_plutus_v2 = c_plutus_v2 c, cm_plutus_v3 = c_plutus_v3 c\<rparr>,
     p_prices = Some (Some (to_rational (c_mem_price c)), Some (to_rational (c_step_price c))),
     p_max_execution_units_per_transaction = Some (c_max_tx_ex_units c),
     p_max_execution_units_per_block = Some (c_max_block_ex_units c),
     p_min_fee_script_ref_cost_per_byte = Some (to_rational (c_minfee_refscript_cost_per_byte c)),
     p_pool_voting_thresholds = Some (let t = c_pool_voting_thresholds c in map to_rational
       [pvt_motion_no_confidence t, pvt_committee_normal t, pvt_committee_no_confidence t, pvt_hard_fork_initiation t,
        pvt_security_voting_threshold t]),
     p_drep_voting_thresholds = Some (let t = c_drep_voting_thresholds c in map to_rational
       [dvt_motion_no_confidence t, dvt_committee_normal t, dvt_committee_no_confidence t, dvt_update_constitution t,
        dvt_hard_fork_initiation t, dvt_pp_network_group t, dvt_pp_economic_group t, dvt_pp_technical_group t,
        dvt_pp_governance_group t, dvt_treasury_withdrawal t]),
     p_min_committee_size = ucast (c_min_committee_size c), p_committee_term_limit = c_committee_term_limit c,
     p_governance_action_validity_period = c_governance_action_validity_period c,
     p_governance_action_deposit = c_governance_action_deposit c, p_drep_deposit = c_drep_deposit c,
     p_drep_inactivity_period = c_drep_inactivity_period c\<rparr>"

text \<open>
  Parameters that such a message can carry: rationals with a numerator below \<open>2^31\<close> and a denominator below
  \<open>2^32\<close>, a protocol version and a committee size of 32 bits, all three cost models, and the constants that
  the translation writes itself.
\<close>

definition small_rational :: "rational \<Rightarrow> bool" where
  "small_rational r \<longleftrightarrow> unat (rn_numerator r) < 2 ^ 31 \<and> unat (rn_denominator r) < 2 ^ 32"

definition all_rationals :: "ConwayProtParams \<Rightarrow> rational list" where
  "all_rationals c = [c_mem_price c, c_step_price c, c_expansion_rate c, c_treasury_growth_rate c, c_pool_pledge_influence c,
     c_minfee_refscript_cost_per_byte c] @
     (let t = c_pool_voting_thresholds c in
       [pvt_motion_no_confidence t, pvt_committee_normal t, pvt_committee_no_confidence t, pvt_hard_fork_initiation t,
        pvt_security_voting_threshold t]) @
     (let t = c_drep_voting_thresholds c in
       [dvt_motion_no_confidence t, dvt_committee_normal t, dvt_committee_no_confidence t, dvt_update_constitution t,
        dvt_hard_fork_initiation t, dvt_pp_network_group t, dvt_pp_economic_group t, dvt_pp_technical_group t,
        dvt_pp_governance_group t, dvt_treasury_withdrawal t])"

definition expressible :: "ConwayProtParams \<Rightarrow> bool" where
  "expressible c \<longleftrightarrow> list_all small_rational (all_rationals c) \<and>
     unat (fst (c_protocol_version c)) < 2 ^ 32 \<and> unat (snd (c_protocol_version c)) < 2 ^ 32 \<and>
     unat (c_min_committee_size c) < 2 ^ 32 \<and> c_plutus_v1 c \<noteq> None \<and> c_plutus_v2 c \<noteq> None \<and> c_plutus_v3 c \<noteq> None \<and>
     c_system_start c = ''2022-10-25T00:00:00Z'' \<and> c_epoch_length c = 86400 \<and> c_slot_length c = 1 \<and> c_maximum_epoch c = 18"

lemma narrow_widen:
  assumes "unat (x :: u64) < 2 ^ 32"
  shows "(ucast (ucast x :: u32) :: u64) = x"
proof -
  have "unat (ucast (ucast x :: u32) :: u64) = unat x" using assms by (simp add: unat_ucast_mod)
  then show ?thesis by (rule word_unat_eq_iff [THEN iffD2])
qed

lemma widen_narrow: "(ucast (ucast (x :: u32) :: u64) :: u32) = x"
proof -
  have "unat x < 2 ^ LENGTH(32)" by (rule unsigned_less)
  then have "unat (ucast (ucast x :: u64) :: u32) = unat x" by (simp add: unat_ucast_mod)
  then show ?thesis by (rule word_unat_eq_iff [THEN iffD2])
qed

lemma map_to_rational:
  assumes "small_rational r"
  shows "map_rational (to_rational r) = r"
proof -
  let ?n = "ucast (rn_numerator r) :: 32 word"
  have n: "unat ?n = unat (rn_numerator r)" "unat ?n < 2 ^ 31" using assms by (simp_all add: small_rational_def unat_ucast_mod)
  have u: "uint ?n = int (unat ?n)" by (rule uint_nat)
  have "int (unat ?n) < int (2 ^ 31)" using n(2) by (rule of_nat_less_iff [THEN iffD2])
  then have "uint ?n < 2 ^ 31" by (simp only: u of_nat_power of_nat_numeral)
  moreover have "- (2 ^ 31) \<le> uint ?n" by (rule order_trans [of _ 0]) simp_all
  ultimately have s: "sint ?n = uint ?n" unfolding sint_uint by (intro signed_take_bit_int_eq_self) simp_all
  have "uint ?n = uint (rn_numerator r)" unfolding uint_nat n(1) ..
  then have "uint (scast ?n :: u64) = uint (rn_numerator r)"
    using signed_rational_exact(1) [of "\<lparr>rr_numerator = ?n, rr_denominator = 0\<rparr>"] s by (simp add: map_rational_def)
  then have "scast ?n = rn_numerator r" by (rule word_uint_eq_iff [THEN iffD2])
  moreover have "(ucast (ucast (rn_denominator r) :: u32) :: u64) = rn_denominator r"
    using assms by (intro narrow_widen) (simp add: small_rational_def)
  ultimately show ?thesis by (simp add: map_rational_def to_rational_def)
qed

lemma pparams_roundtrip_lemma:
  assumes "expressible c"
  shows "map_conway_pparams (to_rpc c) = Inr c"
proof -
  have r: "map_rational (to_rational r) = r" if "r \<in> set (all_rationals c)" for r
    using assms that map_to_rational by (auto simp: expressible_def list_all_iff)
  note rs = r [unfolded all_rationals_def Let_def, simplified]
  have v: "ucast (ucast (fst (c_protocol_version c)) :: u32) = fst (c_protocol_version c)"
    "ucast (ucast (snd (c_protocol_version c)) :: u32) = snd (c_protocol_version c)"
    "ucast (ucast (c_min_committee_size c) :: u32) = c_min_committee_size c"
    using assms by (simp_all add: expressible_def narrow_widen)
  have m: "Some (cost_values (c_plutus_v1 c)) = c_plutus_v1 c" "Some (cost_values (c_plutus_v2 c)) = c_plutus_v2 c"
    "Some (cost_values (c_plutus_v3 c)) = c_plutus_v3 c"
    using assms by (auto simp: expressible_def cost_values_def)
  have k: "c_system_start c = ''2022-10-25T00:00:00Z''" "c_epoch_length c = 86400" "c_slot_length c = 1" "c_maximum_epoch c = 18"
    using assms by (simp_all add: expressible_def)
  show ?thesis
    by (simp add: map_conway_pparams_def to_rpc_def map_pool_thresholds_iff map_drep_thresholds_iff case_prod_beta rs v m
        widen_narrow Let_def k [symmetric] del: res_bind_eq_Inr)
qed

text \<open>C29. Protocol parameters survive the trip through the service.  For every set of Conway parameters that a
  message of the service can carry, the translation of that message gives back exactly these parameters, every
  price, threshold and cost model included.\<close>

theorem pparams_roundtrip:
  assumes "expressible c"
  shows "fetch_pparams (Inr (Some (Some (to_rpc c)))) Conway = Inr c"
  using pparams_roundtrip_lemma [OF assms] by (simp add: fetch_pparams_def map_multi_era_pparams_def)

text \<open>The fixture of the tests is such a set, so the tests use parameters that the real adapter can answer with.\<close>

lemma mock_expressible: "expressible mock_pparams"
  by (simp add: expressible_def all_rationals_def mock_pparams_def mock_pool_thresholds_def mock_drep_thresholds_def
      ratio_def small_rational_def)

theorem pparams_roundtrip_witness:
  "fetch_pparams (Inr (Some (Some (to_rpc mock_pparams)))) Conway = Inr mock_pparams"
  by (rule pparams_roundtrip [OF mock_expressible])

end
