(* ===== verification/Spec2Isabelle.thy ===== *)
theory Spec2Isabelle
  imports Monitor_Life Node_Network Example_Client Utxorpc_Server Queue_Tests Chaining_Runs Ledger_Fixture
begin

text \<open>
  A verification development of boros, a node that accepts Cardano transactions from clients, keeps them
  in a database, checks, signs and broadcasts them to peers, and follows the chain until they are
  confirmed.  All paths below are under \<^verbatim>\<open>src/src/\<close> of the repository.

  \<^bold>\<open>The program.\<close>  A client calls the submit service, which checks each transaction against the ledger, checks
  the lock token of chained queues and stores the transaction as pending.  Three stages run beside it.  The
  ingest stage asks the priority queue for the next batch of pending transactions, signs those of
  queues with server signing, validates and evaluates them, sends them to a broadcast channel and marks
  them in flight.  The background task of every peer takes them from the channel into its mempool and
  answers the requests of the remote node for ids and bodies.  The monitor stage follows the chain, confirms
  what a block contains, returns overdue transactions to pending, undoes confirmations on a rollback and
  stores its position.  The discovery stage connects further peers up to the desired number.

  \<^bold>\<open>Theories, in the order of their imports.\<close>

  \<^item> \<open>Boros_Prelude\<close>: machine words with and without overflow checks, results and faults (a panic is a fault of
    its own), state with exceptions, preservation of predicates, reachability and the locale
    \<open>inductive_invariant\<close>, which the state machines below interpret.
  \<^item> \<open>Storage_Model\<close>: \<^verbatim>\<open>storage/mod.rs\<close>, transactions, their status and the cursor.
  \<^item> \<open>Sqlite_Store\<close>: \<^verbatim>\<open>storage/sqlite.rs\<close>, every query and write over the tables of the schema; each
    statement may fail, by a list of faults in the database record.  The table implements a map from ids to
    entries; the invariant \<open>db_wf\<close> is kept by every write; creation is all or nothing; the batch query is first
    in first out for each queue.
  \<^item> \<open>Float32\<close> and \<open>Priority_Queue\<close>: \<^verbatim>\<open>queue/mod.rs\<close>, \<^verbatim>\<open>queue/priority.rs\<close>.  Quotas are computed in
    single-precision arithmetic, modelled by rounding rationals to 24 bits; the results are bounds on the batch,
    progress and proportionality.  The order in which hash maps are iterated is a parameter.
  \<^item> \<open>Stage_Framework\<close>: what the stages use of the gasket runtime, work units, the error kinds and repeated
    attempts, with the locale \<open>retry_safe\<close>.
  \<^item> \<open>Ledger_U5c\<close>: \<^verbatim>\<open>ledger/u5c/mod.rs\<close>, \<^verbatim>\<open>ledger/relay/mod.rs\<close>, the adapter to the ledger service, the
    translation of protocol parameters and of the chain stream.
  \<^item> \<open>Tx_Validation\<close>, \<open>Signing\<close>: \<^verbatim>\<open>validation/mod.rs\<close>, \<^verbatim>\<open>signing/\<close>.  The ledger rules, the script evaluation, the
    decoding of transactions and the cryptography are the libraries' and are parameters (\<open>pallas\<close>, \<open>key_lib\<close>).
  \<^item> \<open>Monitor_Stage\<close>, \<open>Ingest_Stage\<close>: \<^verbatim>\<open>pipeline/monitor.rs\<close>, \<^verbatim>\<open>pipeline/ingest.rs\<close>.  The monitor refines the effect
    of a chain event on the map of entries and may be retried at will; the ingest stage acts on a verdict about each
    transaction.
  \<^item> \<open>Tx_Chaining\<close>: \<^verbatim>\<open>queue/chaining.rs\<close>, the lock task of a chained queue as a step relation with its two
    bounded channels, the token map and the timeout; a grant is exclusive for its time, and no request waits for ever.
  \<^item> \<open>Submit_Server\<close>: \<^verbatim>\<open>server/submit.rs\<close>.
  \<^item> \<open>Mempool\<close>, \<open>Peer\<close>, \<open>Peer_Discovery\<close>, \<open>Mock_Server\<close>: \<^verbatim>\<open>network/\<close> and \<^verbatim>\<open>pipeline/peer_discovery/mod.rs\<close>.  The
    mempool interprets \<open>bounded_fifo\<close>; the peer task interprets \<open>submission_client\<close>, the contract of the
    submission server it talks to.
  \<^item> \<open>Pipeline_System\<close>: the running node as one transition system, in which submissions, the transactions of an
    ingest unit, retries and chain events follow each other in any order on the shared database.
  \<^item> \<open>Tx_Identity\<close>: the id of a stored transaction remains the hash of its bytes in every run, also when it is signed; so
    what is confirmed is what a block contains.
  \<^item> \<open>Fine_Interleaving\<close>: the same node with the two halves of a broadcast, sending the message and marking the
    transaction in flight, as separate steps; what is in flight is still checked, and what can happen in between.
  \<^item> \<open>Fine_Monitor\<close>: the same node with an event of the monitor cut where \<open>execute\<close> of \<^verbatim>\<open>pipeline/monitor.rs\<close> waits for
    the storage, so that it works with copies that the ingest stage may have overtaken.  It contains all runs of the coarser
    nodes, and the life of a stored transaction is stated over it.
  \<^item> \<open>Node_Network\<close>: that node, the broadcast channel and any number of peer connections (\<^verbatim>\<open>pipeline/mod.rs\<close>,
    \<^verbatim>\<open>network/peer_manager.rs\<close>, \<^verbatim>\<open>network/peer.rs\<close>) as one transition system; what a remote side is told is, in order,
    what the node has broadcast, checked and stored.
  \<^item> \<open>Node_Startup\<close>, \<open>Node_Main\<close>: \<open>Config\<close> and \<open>main\<close> of \<^verbatim>\<open>main.rs\<close>, \<open>run\<close> of \<^verbatim>\<open>pipeline/mod.rs\<close>, \<open>run\<close> of
    \<^verbatim>\<open>server/mod.rs\<close>, \<open>try_new\<close> of \<^verbatim>\<open>ledger/u5c/mod.rs\<close>: how a node starts, what its parts share, which failure
    ends it.
  \<^item> \<open>Monitor_Life\<close>: the monitor as the runtime runs it, with \<open>stream\<close> of \<^verbatim>\<open>ledger/u5c/mod.rs\<close>: connecting,
    scheduling, executing, retrying and connecting again, beside a database that the other parts change.
  \<^item> \<open>Utxorpc_Server\<close>: \<^verbatim>\<open>server/utxorpc.rs\<close>, compared with the submit service.
  \<^item> \<open>Example_Client\<close>: \<^verbatim>\<open>examples/client/src/main.rs\<close> (beside \<^verbatim>\<open>src/src\<close>), and what its success means.
  \<^item> \<open>Priority_Shares\<close>: the exact share of every queue in a batch.
  \<^item> \<open>Storage_Tests\<close>, \<open>Queue_Tests\<close>, \<open>Chaining_Runs\<close>, \<open>Ledger_Fixture\<close>, \<open>Mock_Runs\<close>: the unit tests of
    \<^verbatim>\<open>storage/sqlite.rs\<close>, \<^verbatim>\<open>queue/priority.rs\<close>, \<^verbatim>\<open>queue/chaining.rs\<close>, \<^verbatim>\<open>pipeline/ingest.rs\<close> and
    \<^verbatim>\<open>network/mock_ouroboros_tx_submit_server.rs\<close>, with their fixtures, as programs over
    the model, under the names they have in the code.  \<open>Chaining_Runs\<close> has an executable scheduler of the lock tasks,
    proved to stay within their step relation, and the exact waiting time of a client; \<open>Ledger_Fixture\<close> the
    round trip of protocol parameters; \<open>Mock_Runs\<close> the submission server with all its connections.
  \<^item> This theory: properties that connect the submit service with the lock tasks and with the ingest stage, and the
    tests of the repository.

  \<^bold>\<open>How code became definitions.\<close>  A struct is a record, an enum a datatype, fixed-width integers are words; arithmetic
  that can overflow takes the flag \<open>oc\<close>, which says whether the build checks overflow (a panic) or wraps.  A
  function that returns a \<open>Result\<close> returns a sum; a panic, an \<open>unwrap\<close> or an index out of range is the fault \<open>Panic\<close>.
  Code that changes the database is a function in the type \<open>sx\<close> from a state to a result and a state.  Answers of the
  network, random numbers, clocks and the iteration order of hash maps are arguments, and theorems quantify over
  them.  Where such an argument has to be a permutation, or slots have to stay below \<open>2^63\<close>, where the
  signed integers of the database agree with the unsigned ones of the chain, this is a stated hypothesis.

  \<^bold>\<open>Loops.\<close>  Every loop is a recursion over its input, so all functions are total.  Loops that wait are given the list
  of what arrives: \<open>collect_transactions\<close> returns \<open>None\<close> while it still waits, and is proved to return once enough has
  arrived; \<open>background_task\<close> runs over the incoming requests; \<open>attempts n\<close> is the number of retries of the runtime, and
  the statements hold for every \<open>n\<close>; \<open>recv\<close>, a client of the scheduler that waits for its answer, has fuel, which the
  theorem about the waiting time proves to be enough (\<open>WAIT_FUEL\<close>, used by the tests, is 100: a timeout of 30 seconds and a few
  moves).  The lock task and the node run for ever and are step relations, with
  invariants over all reachable states.

  \<^bold>\<open>Granularity of the node.\<close>  In \<open>Pipeline_System\<close> a submission, the handling of one transaction of a unit and an
  event of the monitor are one step each.  A submission reads nothing that it writes back, and writes in one transaction of
  the engine.  \<open>Fine_Interleaving\<close> splits the second kind of step at the only place where it has an effect and goes on, and
  \<open>Fine_Monitor\<close> splits the third at each of its waits; theorems over \<open>node_reachable\<close> are about the first granularity, those over
  \<open>fine_reachable\<close>, \<open>mon_reachable\<close> and \<open>net_reachable\<close> about the finer ones.  After a fault the unit is started again
  or given up, whatever the fault, and the monitor is ready for an event again, which covers every retry policy.

  \<^bold>\<open>Not modelled.\<close>  Sockets, timers (what arrives before a time limit is an argument), logging and command line, and the code generated from the protocol definitions
  (\<^verbatim>\<open>spec/gen\<close>).  The ledger rules behind the tests of the ingest
  stage are a library's: \<open>ingest_tests_decided\<close> says what those tests reduce to.
\<close>

section \<open>Properties across components\<close>

lemma admitted_chained:
  assumes "admit_item pl hex queues chained ob idx item = Inr (Some (t, hash, cq))" "it_queue item = Some q" "chained q"
  shows "ob_tokens ob q = Some (case it_lock_token item of None \<Rightarrow> [] | Some token \<Rightarrow> token)"
  using assms by (auto simp: admit_item_def Let_def split: if_splits option.splits)

lemma admitted_queue:
  assumes "admit_item pl hex queues chained ob idx item = Inr (Some (t, hash, cq))"
  shows "tx_queue t = (case it_queue item of None \<Rightarrow> DEFAULT_QUEUE | Some q \<Rightarrow> q)"
    "cq = (case it_queue item of None \<Rightarrow> None | Some q \<Rightarrow> if chained q then Some q else None)"
  by (rule admit_item_Some [OF assms], simp)+

text \<open>C10. What enters a chained queue.  A transaction that the submit service admits to a chained queue came with a lock
  token, of eight characters, which is the token the lock task of that queue has issued last and not taken back, and
  its lock will be given back; a request that names the queue without a token is never admitted, because the empty text
  that stands in for it is never a token.  There is exactly one way around the lock: a request that names no queue, when
  the default queue itself is chained.\<close>

theorem chained_admission_needs_lock:
  assumes "chaining_ok ch" "\<forall>q. ob_tokens ob q = current_token ch q" "is_chained_queue ch (tx_queue t)"
    and "admit_item pl hex queues (is_chained_queue ch) ob idx item = Inr (Some (t, hash, cq))"
  shows "if it_queue item = None then tx_queue t = DEFAULT_QUEUE \<and> cq = None
    else cq = Some (tx_queue t) \<and> (\<exists>token s c earlier. it_lock_token item = Some token \<and> length token = 8 \<and>
      ch (tx_queue t) = Some s \<and> cq_token s = Some token \<and> cq_issued s = earlier @ [(c, token)])"
proof (cases "it_queue item")
  case None
  with admitted_queue [OF assms(4)] show ?thesis by simp
next
  case (Some q)
  with admitted_queue [OF assms(4)] assms(3) have q: "tx_queue t = q" "cq = Some q" by simp_all
  let ?token = "case it_lock_token item of None \<Rightarrow> [] | Some token \<Rightarrow> token"
  have cur: "current_token ch q = Some ?token" using admitted_chained [OF assms(4) Some] assms(2,3) q(1) by simp
  then obtain s where s: "ch q = Some s" "cq_token s = Some ?token" by (auto simp: current_token_def split: option.splits)
  have "chain_inv s" using assms(1) s(1) reachable_inv by (auto simp: chaining_ok_def)
  with s(2) obtain earlier c where i: "cq_issued s = earlier @ [(c, ?token)]" "length ?token = 8"
    unfolding chain_inv_def by blast
  then obtain token where "it_lock_token item = Some token" by (cases "it_lock_token item") auto
  with s i q Some show ?thesis by auto
qed

text \<open>A chained queue whose lock is out, and a submission with its token.\<close>

definition locked_chain :: chaining where
  "locked_chain = [''chain'' \<mapsto> held_by_7]"

definition token_item :: submit_item where
  "token_item = \<lparr>it_raw = [1], it_queue = Some ''chain'', it_lock_token = Some ''abcdefgh''\<rparr>"

lemma locked_chain_ok: "chaining_ok locked_chain"
  using held_by_7_reachable by (auto simp: chaining_ok_def locked_chain_def split: if_splits)

lemma token_item_admitted:
  "\<exists>t hash cq. admit_item demo_pallas demo_hex [] (is_chained_queue locked_chain) (demo_obs\<lparr>ob_tokens := current_token locked_chain\<rparr>)
     0 token_item = Inr (Some (t, hash, cq))"
proof -
  have "passes_checks demo_pallas (demo_obs\<lparr>ob_tokens := f\<rparr>) 1 = Inr True" for f
    using demo_accepts [of 1] by (simp add: passes_checks_def demo_obs_def)
  moreover have "pl_decode demo_pallas [1] = Some 1" by (simp add: demo_pallas_def)
  ultimately show ?thesis
    by (simp add: admit_item_def token_item_def should_validate_def queues_get_def Let_def is_chained_queue_def
        locked_chain_def current_token_def held_by_7_def del: res_bind_eq_Inr)
qed

theorem chained_admission_needs_lock_witness:
  "\<exists>earlier c. cq_issued held_by_7 = earlier @ [(c, ''abcdefgh'')] \<and> length ''abcdefgh'' = 8"
proof -
  let ?ob = "demo_obs\<lparr>ob_tokens := current_token locked_chain\<rparr>"
  obtain t hash cq where a: "admit_item demo_pallas demo_hex [] (is_chained_queue locked_chain) ?ob 0 token_item = Inr (Some (t, hash, cq))"
    using token_item_admitted by blast
  have "tx_queue t = ''chain''" using admitted_queue(1) [OF a] by (simp add: token_item_def)
  then have "\<forall>q. ob_tokens ?ob q = current_token locked_chain q" "is_chained_queue locked_chain (tx_queue t)"
    by (simp_all add: is_chained_queue_def locked_chain_def)
  from chained_admission_needs_lock [OF locked_chain_ok this a] \<open>tx_queue t = ''chain''\<close> show ?thesis
    by (auto simp: token_item_def locked_chain_def)
qed

text \<open>The submit service and the ingest stage disagree about unknown queues.  For a queue name that is not
  configured the service logs that it uses the default queue, but stores the transaction under the unknown name;
  the ingest stage then refuses to look at it, whatever the surroundings answer, and asks for a retry each time.\<close>

theorem unknown_queue_admitted_then_blocked:
  assumes "it_queue item = Some q" "queues_get queues q = None"
    and "admit_item pl hex queues chained ob idx item = Inr (Some (t, hash, cq))"
  shows "tx_queue t = q \<and> tx_status t = Pending \<and>
    (\<forall>has_signer env s. ingest_tx pl queues has_signer env t s =
       (Inl (Err WorkerRetry), s\<lparr>is_now := Suc (is_now s)\<rparr>))"
proof -
  have t: "tx_queue t = q" "tx_status t = Pending"
    using assms(1,3) by (auto simp: admit_item_def Let_def Transaction_new_def split: if_splits option.splits)
  then show ?thesis using assms(2) by (simp add: ingest_tx_judge judge_unknown_queue Let_def)
qed

theorem unknown_queue_admitted_then_blocked_witness:
  "\<exists>t hash cq. admit_item demo_pallas demo_hex [] (is_chained_queue locked_chain)
      (demo_obs\<lparr>ob_tokens := current_token locked_chain\<rparr>) 0 token_item = Inr (Some (t, hash, cq)) \<and> tx_queue t = ''chain''"
proof -
  obtain t hash cq where a: "admit_item demo_pallas demo_hex [] (is_chained_queue locked_chain)
      (demo_obs\<lparr>ob_tokens := current_token locked_chain\<rparr>) 0 token_item = Inr (Some (t, hash, cq))"
    using token_item_admitted by blast
  have "it_queue token_item = Some ''chain''" "queues_get [] ''chain'' = None"
    by (simp_all add: token_item_def queues_get_def)
  from unknown_queue_admitted_then_blocked [OF this a] a show ?thesis by blast
qed

section \<open>The tests of the repository\<close>

text \<open>The unit tests pass.  All tests of the storage, of the cursor, of the priority queue and of the chained
  queues end without a failed assertion, a panic or a wait that does not end: for every clock that
  does not run backwards, in whatever order the hash maps are iterated, with and without overflow checks, and whatever
  tokens the random generator draws.\<close>

theorem repository_tests_pass:
  assumes "sorted instants" "5 \<le> length instants" "iter_ok iter_w" "iter_ok iter_q" "iter_ok iter"
  shows "list_all (\<lambda>t. passes t (mock_sqlite_transaction instants)) (storage_tests iter @ priority_tests oc iter_w iter_q) \<and>
    list_all (\<lambda>t. passes t (mock_sqlite_cursor instants)) cursor_tests \<and>
    list_all (\<lambda>t. passes t (chain_test_world instants)) (chaining_tests tok)"
  using storage_tests_pass [OF assms(1,2,5)] priority_tests_pass [OF assms(3,4)] chaining_tests_pass by simp

theorem repository_tests_pass_witness:
  "list_all (\<lambda>t. passes t (mock_sqlite_transaction [10, 20, 20, 30, 40])) (storage_tests rev @ priority_tests True rev rev) \<and>
   list_all (\<lambda>t. passes t (mock_sqlite_cursor [10, 20, 20, 30, 40])) cursor_tests \<and>
   list_all (\<lambda>t. passes t (chain_test_world [10, 20, 20, 30, 40])) (chaining_tests (\<lambda>_. ''abcdefgh''))"
  by (rule repository_tests_pass) (simp_all add: iter_ok_def)

end
